(* ===== verification/Wsc_Prelude.thy ===== *)
theory Wsc_Prelude
  imports Main "HOL-Library.Word"
begin

text \<open>
  Shared vocabulary of the development: bytes and byte strings, the exceptions the sources
  throw, the result type of a call that may throw, the integer types whose width matters,
  and the generic list and word lemmas the component theories use.

  \<^item> \<open>std::byte\<close> and \<open>uint8_t\<close> are \<open>8 word\<close>; \<open>binary\<close> (\<open>std::vector<byte>\<close>) is a list
    of them; a \<open>std::string\<close> is an Isabelle \<open>string\<close>, whose characters are exactly the 256
    values of a C++ \<open>char\<close>.
  \<^item> A \<open>size_t\<close> has 64 bits. Sizes of objects in memory are \<open>nat\<close>; where the sources compute
    with a length taken from the network the wrap-around modulo \<open>2 ^ 64\<close> is written out.
\<close>

named_theorems wsc_simps \<open>unfolding rules of the model's straight-line helpers\<close>

unbundle bit_operations_syntax

section \<open>Types\<close>

type_synonym byte = "8 word"
type_synonym binary = "byte list"

text \<open>
  The exception classes of the sources. \<open>std::invalid_argument\<close> and \<open>std::logic_error\<close> are kept
  apart from \<open>std::runtime_error\<close> because \<open>wrap\<close> of the C API tells them apart, and
  \<open>WsHandshake::Error\<close> and \<open>RequestError\<close> because \<open>WsTransport::incoming\<close> does.
\<close>

datatype exn =
    runtime_error string
  | logic_error string
  | invalid_argument string
  | WsError string
  | RequestError string nat

type_synonym 'a res = "exn + 'a"

section \<open>Characters and bytes\<close>

definition byte_of_char :: "char \<Rightarrow> byte" where
  "byte_of_char c = word_of_nat (of_char c)"

definition char_of_byte :: "byte \<Rightarrow> char" where
  "char_of_byte b = char_of (unat b)"

abbreviation bytes_of_string :: "string \<Rightarrow> binary" where
  "bytes_of_string s \<equiv> map byte_of_char s"

abbreviation string_of_bytes :: "binary \<Rightarrow> string" where
  "string_of_bytes b \<equiv> map char_of_byte b"

lemma of_char_less_256 [simp]: "(of_char c :: nat) < 256"
  by (cases c) (simp add: of_char_def)

lemma char_of_byte_of_char [simp]: "char_of_byte (byte_of_char c) = c"
  by (simp add: char_of_byte_def byte_of_char_def unat_of_nat)

lemma byte_of_char_of_byte [simp]: "byte_of_char (char_of_byte b) = b"
proof -
  have "unat b < 2 ^ LENGTH(8)" by (rule unsigned_less)
  then show ?thesis by (simp add: char_of_byte_def byte_of_char_def)
qed

lemma char_byte_comp [simp]: "char_of_byte \<circ> byte_of_char = id" "byte_of_char \<circ> char_of_byte = id"
  by (simp_all add: fun_eq_iff)

lemma string_of_bytes_of_string [simp]: "string_of_bytes (bytes_of_string s) = s"
  by (induction s) auto

lemma bytes_of_string_of_bytes [simp]: "bytes_of_string (string_of_bytes b) = b"
  by (induction b) auto

section \<open>Character classes of the C locale\<close>

text \<open>\<open>std::tolower\<close>, \<open>std::isspace\<close>, \<open>std::isdigit\<close> and \<open>std::isxdigit\<close> in the C locale.\<close>

definition tolower :: "char \<Rightarrow> char" where
  "tolower c = (let n = of_char c :: nat in if 65 \<le> n \<and> n \<le> 90 then char_of (n + 32) else c)"

definition isspace :: "char \<Rightarrow> bool" where
  "isspace c = (let n = of_char c :: nat in n = 32 \<or> (9 \<le> n \<and> n \<le> 13))"

definition isdigit :: "char \<Rightarrow> bool" where
  "isdigit c = (let n = of_char c :: nat in 48 \<le> n \<and> n \<le> 57)"

definition isxdigit :: "char \<Rightarrow> bool" where
  "isxdigit c = (let n = of_char c :: nat in
     (48 \<le> n \<and> n \<le> 57) \<or> (65 \<le> n \<and> n \<le> 70) \<or> (97 \<le> n \<and> n \<le> 102))"

text \<open>The value of a hexadecimal digit.\<close>

definition xdigit_value :: "char \<Rightarrow> nat" where
  "xdigit_value c = (let n = of_char c :: nat in
     if n \<le> 57 then n - 48 else if n \<le> 70 then n - 55 else n - 87)"

abbreviation LF :: char where "LF \<equiv> CHR 0x0A"
abbreviation CR :: char where "CR \<equiv> CHR 0x0D"
abbreviation CRLF :: string where "CRLF \<equiv> [CR, LF]"

lemma xdigit_value_less: "isxdigit c \<Longrightarrow> xdigit_value c < 16"
  by (auto simp: isxdigit_def xdigit_value_def Let_def)

section \<open>Numerals: \<open>std::to_string\<close>\<close>

fun to_string :: "nat \<Rightarrow> string" where
  "to_string n = (if n < 10 then [char_of (48 + n)]
                  else to_string (n div 10) @ [char_of (48 + n mod 10)])"

declare to_string.simps [simp del]

lemma to_string_nonempty [simp]: "to_string n \<noteq> []"
  by (subst to_string.simps) simp

lemma isdigit_char_of: "n < 10 \<Longrightarrow> isdigit (char_of (48 + n :: nat))"
  by (simp add: isdigit_def Let_def)

lemma to_string_digits: "\<forall>c \<in> set (to_string n). isdigit c"
proof (induction n rule: to_string.induct)
  case (1 n)
  then show ?case
    by (subst to_string.simps) (auto simp: isdigit_char_of)
qed

section \<open>Lists\<close>

lemma take_Suc_split: "i < length xs \<Longrightarrow> take (Suc i) xs = take i xs @ [xs ! i]"
  by (simp add: take_Suc_conv_app_nth)

lemma takeWhile_append_stop:
  "\<forall>x \<in> set xs. P x \<Longrightarrow> \<not> P y \<Longrightarrow> takeWhile P (xs @ y # ys) = xs"
  by (induction xs) auto

lemma dropWhile_append_stop:
  "\<forall>x \<in> set xs. P x \<Longrightarrow> \<not> P y \<Longrightarrow> dropWhile P (xs @ y # ys) = y # ys"
  by (induction xs) auto

lemma prefix_split:
  "xs @ ys = us @ vs \<Longrightarrow> length us \<le> length xs \<Longrightarrow> xs = us @ drop (length us) xs"
  by (metis append_eq_append_conv_if append_take_drop_id)

section \<open>Words\<close>

lemma unat_byte_less: "unat (b :: byte) < 256"
proof -
  have "unat b < 2 ^ LENGTH(8)" by (rule unsigned_less)
  then show ?thesis by simp
qed

lemma xor_xor_cancel [simp]: "(a XOR k) XOR k = (a :: 'a::len word)"
  by (simp add: bit_eq_iff bit_simps) blast

lemma byte_no_bit [simp]: "8 \<le> n \<Longrightarrow> \<not> bit (w :: byte) n"
  using bit_imp_le_length [of w n] by auto

lemma byte_eqI:
  fixes a b :: byte
  assumes "bit a 0 = bit b 0" "bit a 1 = bit b 1" "bit a 2 = bit b 2" "bit a 3 = bit b 3"
    "bit a 4 = bit b 4" "bit a 5 = bit b 5" "bit a 6 = bit b 6" "bit a 7 = bit b 7"
  shows "a = b"
proof (rule bit_word_eqI)
  fix n assume "n < LENGTH(8)"
  then have "n = 0 \<or> n = 1 \<or> n = 2 \<or> n = 3 \<or> n = 4 \<or> n = 5 \<or> n = 6 \<or> n = 7" by auto
  then show "bit a n = bit b n" using assms by metis
qed

end
