(* ===== verification/Wsc_Message.thy ===== *)
theory Wsc_Message
  imports Wsc_Prelude
begin

text \<open>
  Messages (\<open>include/message.hpp\<close>, \<open>src/message.cpp\<close>): the byte vector that travels between the
  layers with its type, the \<open>make_message\<close> overloads and the conversions to and from the
  \<open>variant<binary, string>\<close> of the public interface. A \<open>message_ptr\<close> is a \<open>Message option\<close>,
  with \<open>None\<close> for the null pointer that signals the end of a stream.
\<close>

datatype Type = Binary | String | Control | Reset

record FrameInfo =
  payloadType :: byte
  timestamp :: "32 word"

record Reliability =
  unordered :: bool
  maxPacketLifeTime :: "int option"
  maxRetransmits :: "nat option"

record Message =
  data :: binary
  type :: Type
  stream :: "32 word"
  dscp :: "32 word"
  reliability :: "Reliability option"
  frameInfo :: "FrameInfo option"

type_synonym message_ptr = "Message option"

datatype message_variant = VBinary binary | VString string

definition message_size_func :: "Message \<Rightarrow> nat" where
  "message_size_func m = (if type m = Binary \<or> type m = String then length (data m) else 0)"

text \<open>The iterator overload, with its default arguments in \<open>make_message_data\<close>.\<close>

definition make_message_full ::
  "binary \<Rightarrow> Type \<Rightarrow> 32 word \<Rightarrow> Reliability option \<Rightarrow> FrameInfo option \<Rightarrow> Message" where
  "make_message_full d t strm rel info =
     \<lparr>data = d, type = t, stream = strm, dscp = 0, reliability = rel, frameInfo = info\<rparr>"

abbreviation make_message :: "binary \<Rightarrow> Type \<Rightarrow> Message" where
  "make_message d t \<equiv> make_message_full d t 0 None None"

text \<open>\<open>make_message(size, type, stream, reliability)\<close>: a zero-filled message.\<close>

definition make_message_size :: "nat \<Rightarrow> Type \<Rightarrow> 32 word \<Rightarrow> Reliability option \<Rightarrow> Message" where
  "make_message_size sz t strm rel = make_message_full (replicate sz 0) t strm rel None"

text \<open>\<open>make_message(size, orig)\<close>: a resized copy, cut off or padded with zero bytes.\<close>

definition make_message_resized :: "nat \<Rightarrow> message_ptr \<Rightarrow> message_ptr" where
  "make_message_resized sz orig =
     (case orig of
        None \<Rightarrow> None
      | Some m \<Rightarrow>
          let n = min sz (length (data m))
          in Some (make_message_full (take n (data m) @ replicate (sz - n) 0)
                     (type m) (stream m) (reliability m) (frameInfo m)))"

definition make_message_variant :: "message_variant \<Rightarrow> Message" where
  "make_message_variant v =
     (case v of VBinary b \<Rightarrow> make_message b Binary
              | VString s \<Rightarrow> make_message (bytes_of_string s) String)"

text \<open>The overload that takes the bytes by move.\<close>

definition make_message_moved ::
  "binary \<Rightarrow> Type \<Rightarrow> 32 word \<Rightarrow> Reliability option \<Rightarrow> FrameInfo option \<Rightarrow> Message" where
  "make_message_moved bytes ty st rel info =
     (let m = make_message bytes ty in m\<lparr>stream := st, reliability := rel, frameInfo := info\<rparr>)"

lemma make_message_moved_eq: "make_message_moved b ty st rel info = make_message_full b ty st rel info"
  by (simp add: make_message_moved_def make_message_full_def)

definition to_variant :: "Message \<Rightarrow> message_variant" where
  "to_variant m = (case type m of String \<Rightarrow> VString (string_of_bytes (data m)) | _ \<Rightarrow> VBinary (data m))"

text \<open>
  \<open>to_variant(Message &&)\<close> copies a string but moves the byte vector of any other message into
  the variant, which leaves the vector of the source message empty. The second component is the
  source message after the call.
\<close>

definition to_variant_move :: "Message \<Rightarrow> message_variant \<times> Message" where
  "to_variant_move m =
     (case type m of String \<Rightarrow> (VString (string_of_bytes (data m)), m)
                   | _ \<Rightarrow> (VBinary (data m), m\<lparr>data := []\<rparr>))"

lemmas make_message_simps [simp] = make_message_full_def

lemma to_variant_make_message: "to_variant (make_message_variant v) = v"
  by (cases v) (simp_all add: to_variant_def make_message_variant_def)

lemma to_variant_move_value: "fst (to_variant_move m) = to_variant m"
  by (simp add: to_variant_move_def to_variant_def split: Type.splits)

lemma to_variant_move_source:
  "data (snd (to_variant_move m)) = (if type m = String then data m else [])"
  "type (snd (to_variant_move m)) = type m"
  by (simp_all add: to_variant_move_def split: Type.splits)

lemma make_message_resized_spec:
  "make_message_resized sz (Some m) = Some m' \<Longrightarrow>
     length (data m') = sz \<and> take (length (data m)) (data m') = take sz (data m) \<and> type m' = type m"
  by (auto simp: make_message_resized_def Let_def min_def)

end
