(* ===== verification/Wsc_Transport.thy ===== *)
theory Wsc_Transport
  imports Wsc_Message
begin

text \<open>
  The base class of the transports (\<open>src/impl/transport.cpp\<close>): a state, a state-change callback and
  a receive callback, and a lower transport that outgoing messages are passed to. The concrete
  transports extend the record, as the classes derive from \<open>Transport\<close>.

  \<^item> The lower transport is an arbitrary object \<open>'l\<close>; its virtual methods are the record
    \<open>lower_ops\<close>, so a transport can be stacked on any other one.
  \<^item> The callbacks belong to the owner of the transport. A call of a callback that is set is
    recorded in \<open>trace\<close>; a call of one that is not set does nothing. An exception leaving a
    callback is caught by \<open>recv\<close> and \<open>changeState\<close>, so a callback never changes what its caller
    does next. What the owner of the transports does in its callbacks is modelled with the owner.
  \<^item> Work scheduled on the thread pool is recorded in \<open>trace\<close> too, and is a step of its own.
\<close>

datatype State = Disconnected | Connecting | Connected | Completed | Failed

datatype event =
    StateCallback State
  | RecvCallback message_ptr
  | Scheduled nat

record 'l lower_ops =
  lower_send :: "'l \<Rightarrow> message_ptr \<Rightarrow> bool res \<times> 'l"
  lower_onRecv :: "'l \<Rightarrow> bool \<Rightarrow> 'l"
  lower_stop :: "'l \<Rightarrow> 'l"

record 'l Transport =
  mLower :: "'l option"
  mStateChangeCallback :: bool
  mRecvCallback :: bool
  mState :: State
  trace :: "event list"

definition Transport_new :: "'l option \<Rightarrow> bool \<Rightarrow> 'l Transport" where
  "Transport_new lower callback =
     \<lparr>mLower = lower, mStateChangeCallback = callback, mRecvCallback = False,
      mState = Disconnected, trace = []\<rparr>"

definition Transport_registerIncoming ::
  "'l lower_ops \<Rightarrow> ('l, 'm) Transport_scheme \<Rightarrow> ('l, 'm) Transport_scheme" where
  "Transport_registerIncoming ops t = t\<lparr>mLower := map_option (\<lambda>l. lower_onRecv ops l True) (mLower t)\<rparr>"

definition Transport_unregisterIncoming ::
  "'l lower_ops \<Rightarrow> ('l, 'm) Transport_scheme \<Rightarrow> ('l, 'm) Transport_scheme" where
  "Transport_unregisterIncoming ops t = t\<lparr>mLower := map_option (\<lambda>l. lower_onRecv ops l False) (mLower t)\<rparr>"

text \<open>The destructor; what it leaves of the lower transport is the second component.\<close>

definition Transport_destroy ::
  "'l lower_ops \<Rightarrow> ('l, 'm) Transport_scheme \<Rightarrow> ('l, 'm) Transport_scheme \<times> 'l option" where
  "Transport_destroy ops t =
     (let t = Transport_unregisterIncoming ops t
      in case mLower t of
           None \<Rightarrow> (t, None)
         | Some l \<Rightarrow> (t\<lparr>mLower := None\<rparr>, Some (lower_stop ops l)))"

definition Transport_onRecv :: "bool \<Rightarrow> ('l, 'm) Transport_scheme \<Rightarrow> ('l, 'm) Transport_scheme" where
  "Transport_onRecv callback t = t\<lparr>mRecvCallback := callback\<rparr>"

definition Transport_onStateChange :: "bool \<Rightarrow> ('l, 'm) Transport_scheme \<Rightarrow> ('l, 'm) Transport_scheme" where
  "Transport_onStateChange callback t = t\<lparr>mStateChangeCallback := callback\<rparr>"

definition Transport_recv :: "message_ptr \<Rightarrow> ('l, 'm) Transport_scheme \<Rightarrow> ('l, 'm) Transport_scheme" where
  "Transport_recv message t =
     (if mRecvCallback t then t\<lparr>trace := trace t @ [RecvCallback message]\<rparr> else t)"

definition Transport_changeState :: "State \<Rightarrow> ('l, 'm) Transport_scheme \<Rightarrow> ('l, 'm) Transport_scheme" where
  "Transport_changeState state t =
     (if mState t \<noteq> state then
        t\<lparr>mState := state,
          trace := trace t @ (if mStateChangeCallback t then [StateCallback state] else [])\<rparr>
      else t)"

definition Transport_outgoing ::
  "'l lower_ops \<Rightarrow> message_ptr \<Rightarrow> ('l, 'm) Transport_scheme \<Rightarrow> bool res \<times> ('l, 'm) Transport_scheme" where
  "Transport_outgoing ops message t =
     (case mLower t of
        None \<Rightarrow> (Inr False, t)
      | Some l \<Rightarrow> (case lower_send ops l message of (r, l') \<Rightarrow> (r, t\<lparr>mLower := Some l'\<rparr>)))"

text \<open>\<open>ThreadPool::schedule\<close> with a delay in seconds, for a task of the transport itself.\<close>

definition schedule_in :: "nat \<Rightarrow> ('l, 'm) Transport_scheme \<Rightarrow> ('l, 'm) Transport_scheme" where
  "schedule_in secs t = t\<lparr>trace := trace t @ [Scheduled secs]\<rparr>"

text \<open>The virtual methods as the base class has them: messages pass through in both directions.\<close>

definition Transport_start :: "'l lower_ops \<Rightarrow> ('l, 'm) Transport_scheme \<Rightarrow> ('l, 'm) Transport_scheme" where
  "Transport_start ops t = Transport_registerIncoming ops t"

definition Transport_stop :: "'l lower_ops \<Rightarrow> ('l, 'm) Transport_scheme \<Rightarrow> ('l, 'm) Transport_scheme" where
  "Transport_stop ops t = Transport_unregisterIncoming ops t"

definition Transport_send ::
  "'l lower_ops \<Rightarrow> message_ptr \<Rightarrow> ('l, 'm) Transport_scheme \<Rightarrow> bool res \<times> ('l, 'm) Transport_scheme" where
  "Transport_send ops message t = Transport_outgoing ops message t"

definition Transport_incoming :: "message_ptr \<Rightarrow> ('l, 'm) Transport_scheme \<Rightarrow> ('l, 'm) Transport_scheme" where
  "Transport_incoming message t = Transport_recv message t"

section \<open>What the base operations keep\<close>

lemma Transport_recv_simps [simp]:
  "mLower (Transport_recv m t) = mLower t"
  "mStateChangeCallback (Transport_recv m t) = mStateChangeCallback t"
  "mRecvCallback (Transport_recv m t) = mRecvCallback t"
  "mState (Transport_recv m t) = mState t"
  "trace (Transport_recv m t) = trace t @ (if mRecvCallback t then [RecvCallback m] else [])"
  "Transport.more (Transport_recv m t) = Transport.more t"
  by (simp_all add: Transport_recv_def)

lemma Transport_changeState_simps [simp]:
  "mLower (Transport_changeState s t) = mLower t"
  "mStateChangeCallback (Transport_changeState s t) = mStateChangeCallback t"
  "mRecvCallback (Transport_changeState s t) = mRecvCallback t"
  "mState (Transport_changeState s t) = s"
  "Transport.more (Transport_changeState s t) = Transport.more t"
  by (simp_all add: Transport_changeState_def)

lemma Transport_changeState_trace:
  "trace (Transport_changeState s t) =
     trace t @ (if mState t \<noteq> s \<and> mStateChangeCallback t then [StateCallback s] else [])"
  by (simp add: Transport_changeState_def)

lemma Transport_changeState_eq:
  "Transport_changeState s t = t\<lparr>mState := s, trace := trace (Transport_changeState s t)\<rparr>"
  by (simp add: Transport_changeState_def)

lemma schedule_in_simps [simp]:
  "mLower (schedule_in n t) = mLower t" "mState (schedule_in n t) = mState t"
  "mStateChangeCallback (schedule_in n t) = mStateChangeCallback t"
  "mRecvCallback (schedule_in n t) = mRecvCallback t"
  "trace (schedule_in n t) = trace t @ [Scheduled n]"
  "Transport.more (schedule_in n t) = Transport.more t"
  by (simp_all add: schedule_in_def)

lemma schedule_in_eq:
  "schedule_in n t = t\<lparr>mState := mState t, trace := trace (schedule_in n t)\<rparr>"
  by (simp add: schedule_in_def)

lemma Transport_outgoing_simps:
  assumes "Transport_outgoing ops m t = (r, t')"
  shows "mStateChangeCallback t' = mStateChangeCallback t" "mRecvCallback t' = mRecvCallback t"
    "mState t' = mState t" "trace t' = trace t" "Transport.more t' = Transport.more t"
  using assms by (auto simp: Transport_outgoing_def split: option.splits prod.splits)

text \<open>
  A callback is told of every change of state and of nothing else: the recorded states, preceded by
  the initial one, never repeat the state before them.
\<close>

fun state_calls :: "event list \<Rightarrow> State list" where
  "state_calls [] = []"
| "state_calls (StateCallback s # es) = s # state_calls es"
| "state_calls (e # es) = state_calls es"

lemma state_calls_append [simp]: "state_calls (xs @ ys) = state_calls xs @ state_calls ys"
  by (induction xs rule: state_calls.induct) auto

fun received :: "event list \<Rightarrow> message_ptr list" where
  "received [] = []"
| "received (RecvCallback m # es) = m # received es"
| "received (e # es) = received es"

lemma received_append [simp]: "received (xs @ ys) = received xs @ received ys"
  by (induction xs rule: received.induct) auto

text \<open>The bytes handed to the layer above, in order.\<close>

definition delivered_bytes :: "('l, 'm) Transport_scheme \<Rightarrow> binary" where
  "delivered_bytes t = concat (map (\<lambda>m. case m of None \<Rightarrow> [] | Some m \<Rightarrow> data m) (received (trace t)))"

section \<open>The interface of a byte stream below a transport\<close>

text \<open>
  What a transport needs from the one below it, while that one is usable: a message handed to it is
  accepted without an exception and its bytes are appended to the stream, whether they leave at once
  or stay queued. \<open>sent\<close> is that stream; setting the receive callback does not touch it.
\<close>

locale byte_stream =
  fixes ops :: "'l lower_ops"
    and usable :: "'l \<Rightarrow> bool"
    and sent :: "'l \<Rightarrow> binary"
  assumes send_accepts: "usable l \<Longrightarrow> \<exists>b l'. lower_send ops l (Some m) = (Inr b, l')"
    and send_usable: "usable l \<Longrightarrow> lower_send ops l (Some m) = (r, l') \<Longrightarrow> usable l'"
    and send_appends: "usable l \<Longrightarrow> lower_send ops l (Some m) = (r, l') \<Longrightarrow> sent l' = sent l @ data m"
    and listen_usable: "usable l \<Longrightarrow> usable (lower_onRecv ops l b)"
    and listen_sent: "sent (lower_onRecv ops l b) = sent l"
begin

lemma outgoing_accepts:
  assumes "mLower t = Some l" "usable l"
  obtains b l' where "Transport_outgoing ops (Some m) t = (Inr b, t\<lparr>mLower := Some l'\<rparr>)"
    "usable l'" "sent l' = sent l @ data m"
proof -
  from send_accepts [OF assms(2)] obtain b l' where l': "lower_send ops l (Some m) = (Inr b, l')" by blast
  then have "Transport_outgoing ops (Some m) t = (Inr b, t\<lparr>mLower := Some l'\<rparr>)"
    using assms(1) by (simp add: Transport_outgoing_def)
  with that send_usable [OF assms(2) l'] send_appends [OF assms(2) l'] show thesis by blast
qed

end

end
