(* ===== verification/Wsc_WsFrame.thy ===== *)
theory Wsc_WsFrame
  imports Wsc_Prelude
begin

text \<open>
  The frame format of \<open>src/impl/wstransport.cpp\<close> (RFC 6455, section 5.2): \<open>parseFrame\<close> and the
  serialisation inside \<open>sendFrame\<close>.

  \<^item> The host is little endian and \<open>size_t\<close> has 64 bits. Reading an integer through a cast pointer
    is \<open>le_nat\<close> of its bytes, storing one is \<open>le_bytes\<close>, and the macros \<open>htons\<close> and
    \<open>htonll\<close> are translated on those.
  \<^item> \<open>parseFrame\<close> unmasks the payload in place, so it returns the buffer too. Its frame holds
    the offset of the payload in the buffer; the frame given to \<open>sendFrame\<close> holds the bytes its
    payload pointer refers to.
\<close>

section \<open>Integers in memory and network byte order\<close>

fun le_nat :: "binary \<Rightarrow> nat" where
  "le_nat [] = 0"
| "le_nat (b # bs) = unat b + 256 * le_nat bs"

fun le_bytes :: "nat \<Rightarrow> nat \<Rightarrow> binary" where
  "le_bytes 0 n = []"
| "le_bytes (Suc k) n = word_of_nat (n mod 256) # le_bytes k (n div 256)"

definition htons :: "nat \<Rightarrow> nat" where
  "htons x = le_nat (rev (le_bytes 2 x))"

definition htonl :: "nat \<Rightarrow> nat" where
  "htonl x = le_nat (rev (le_bytes 4 x))"

text \<open>The macro \<open>htonll\<close>, which is also \<open>ntohll\<close>.\<close>

definition htonll :: "nat \<Rightarrow> nat" where
  "htonll x = (push_bit 32 (htonl (x mod 2 ^ 32)) mod 2 ^ 64) OR htonl ((x div 2 ^ 32) mod 2 ^ 32)"

section \<open>Frames\<close>

type_synonym Opcode = byte

abbreviation CONTINUATION :: Opcode where "CONTINUATION \<equiv> 0"
abbreviation TEXT_FRAME :: Opcode where "TEXT_FRAME \<equiv> 1"
abbreviation BINARY_FRAME :: Opcode where "BINARY_FRAME \<equiv> 2"
abbreviation CLOSE :: Opcode where "CLOSE \<equiv> 8"
abbreviation PING :: Opcode where "PING \<equiv> 9"
abbreviation PONG :: Opcode where "PONG \<equiv> 10"

record 'p Frame =
  opcode :: Opcode
  payload :: 'p
  frame_length :: nat
  fin :: bool
  frame_mask :: bool

text \<open>The loop \<open>payload[i] ^= maskingKey[i % 4]\<close>.\<close>

definition apply_mask :: "binary \<Rightarrow> binary \<Rightarrow> binary" where
  "apply_mask maskingKey p = map (\<lambda>i. p ! i XOR maskingKey ! (i mod 4)) [0..<length p]"

definition maxControlFrameLength :: nat where
  "maxControlFrameLength = 125"

text \<open>
  The length field: the seven bits of the second byte, or the two or eight bytes that follow.
  The result is the length and the position after it; \<open>None\<close> if the bytes are not there yet.
\<close>

definition parseFrame_length :: "binary \<Rightarrow> (nat \<times> nat) option" where
  "parseFrame_length buffer =
     (let cur = 2; len7 = unat (buffer ! 1 AND 0x7F)
      in if len7 = 0x7E then
           (if length buffer - cur < 2 then None
            else Some (htons (le_nat (take 2 (drop cur buffer))), cur + 2))
         else if len7 = 0x7F then
           (if length buffer - cur < 8 then None
            else Some (htonll (le_nat (take 8 (drop cur buffer))), cur + 8))
         else Some (len7, cur))"

text \<open>The masking key, when the mask bit is set.\<close>

definition parseFrame_key :: "binary \<Rightarrow> bool \<Rightarrow> nat \<Rightarrow> (binary option \<times> nat) option" where
  "parseFrame_key buffer masked cur =
     (if masked then
        (if length buffer - cur < 4 then None else Some (Some (take 4 (drop cur buffer)), cur + 4))
      else Some (None, cur))"

text \<open>
  \<open>None\<close> is an early \<open>return 0\<close>: the buffer does not hold a whole frame and is unchanged.
  Otherwise the result is the returned value, the frame and the buffer with the payload unmasked.
  The returned value is a difference of pointers and wraps.
\<close>

definition parseFrame :: "nat \<Rightarrow> binary \<Rightarrow> (nat \<times> nat Frame \<times> binary) option" where
  "parseFrame mMaxMessageSize buffer =
     (if length buffer < 2 then None
      else
        let b1 = buffer ! 0; b2 = buffer ! 1; masked = ((b2 AND 0x80) \<noteq> 0)
        in case parseFrame_length buffer of
          None \<Rightarrow> None
        | Some (len, cur) \<Rightarrow>
          case parseFrame_key buffer masked cur of
            None \<Rightarrow> None
          | Some (maskingKey, cur) \<Rightarrow>
            let maxFrameLength = max maxControlFrameLength mMaxMessageSize
            in if length buffer - cur < min len maxFrameLength then None
               else
                 let flen = (if len > maxFrameLength then maxFrameLength else len);
                     buffer' = (case maskingKey of
                        None \<Rightarrow> buffer
                      | Some k \<Rightarrow> take cur buffer @ apply_mask k (take flen (drop cur buffer))
                                 @ drop (cur + flen) buffer)
                 in Some ((cur + len) mod 2 ^ 64,
                          \<lparr>opcode = b1 AND 0x0F, payload = cur, frame_length = flen,
                           fin = ((b1 AND 0x80) \<noteq> 0), frame_mask = masked\<rparr>,
                          buffer'))"

text \<open>The header \<open>sendFrame\<close> writes into its local buffer, with the masking key it drew.\<close>

definition frame_header :: "binary \<Rightarrow> binary Frame \<Rightarrow> binary" where
  "frame_header maskingKey frame =
     (let mbit = (if frame_mask frame then 0x80 else 0);
          len = frame_length frame
      in [(opcode frame AND 0x0F) OR (if fin frame then 0x80 else 0)]
         @ (if len < 0x7E then [(word_of_nat len AND 0x7F) OR mbit]
            else if len \<le> 0xFFFF then (0x7E OR mbit) # le_bytes 2 (htons len)
            else (0x7F OR mbit) # le_bytes 8 (htonll (len mod 2 ^ 64)))
         @ (if frame_mask frame then maskingKey else []))"

text \<open>The payload as \<open>sendFrame\<close> leaves it in memory: masked in place when a key is used.\<close>

definition sent_payload :: "binary \<Rightarrow> binary Frame \<Rightarrow> binary" where
  "sent_payload maskingKey frame =
     (if frame_mask frame then apply_mask maskingKey (payload frame) else payload frame)"

definition encodeFrame :: "binary \<Rightarrow> binary Frame \<Rightarrow> binary" where
  "encodeFrame maskingKey frame = frame_header maskingKey frame @ sent_payload maskingKey frame"

section \<open>Byte order\<close>

lemma length_le_bytes [simp]: "length (le_bytes k n) = k"
  by (induction k arbitrary: n) auto

lemma le_nat_bound: "le_nat bs < 256 ^ length bs"
proof (induction bs)
  case (Cons b bs)
  define K :: nat where "K = 256 ^ length bs"
  have "le_nat bs < K" using Cons by (simp add: K_def)
  moreover have "unat b < 256" by (rule unat_byte_less)
  ultimately have "unat b + 256 * le_nat bs < 256 * K" by linarith
  then show ?case by (simp add: K_def)
qed simp

lemma le_nat_append: "le_nat (a @ b) = le_nat a + 256 ^ length a * le_nat b"
  by (induction a) (auto simp: algebra_simps)

lemma le_nat_le_bytes: "le_nat (le_bytes k n) = n mod 256 ^ k"
proof (induction k arbitrary: n)
  case (Suc k)
  have "n mod (256 * 256 ^ k) = n mod 256 + 256 * (n div 256 mod 256 ^ k)"
    by (simp add: mod_mult2_eq)
  with Suc show ?case by (simp add: unat_of_nat)
qed simp

lemma le_bytes_le_nat: "length bs = k \<Longrightarrow> le_bytes k (le_nat bs) = bs"
  using unat_byte_less by (induction bs arbitrary: k) auto

lemma or_add_disjoint: "b < 2 ^ n \<Longrightarrow> (push_bit n a OR b :: nat) = 2 ^ n * a + b"
proof -
  assume b: "b < 2 ^ n"
  then have "take_bit n b = b" by (simp add: take_bit_nat_eq_self_iff)
  then have "\<not> bit (push_bit n a) i \<or> \<not> bit b i" for i
    by (metis bit_push_bit_iff bit_take_bit_iff leD)
  then have "push_bit n a + b = push_bit n a OR b" by (intro disjunctive_add) blast
  then show ?thesis by (simp add: push_bit_eq_mult mult.commute)
qed

lemma htonl_bound: "htonl x < 2 ^ 32"
  using le_nat_bound [of "rev (le_bytes 4 x)"] by (simp add: htonl_def)

lemma htonl_le_nat: "length bs = 4 \<Longrightarrow> htonl (le_nat bs) = le_nat (rev bs)"
  by (simp add: htonl_def le_bytes_le_nat)

text \<open>On a little-endian host the macro reverses the eight bytes.\<close>

lemma htonll_le_nat:
  assumes "length bs = 8"
  shows "htonll (le_nat bs) = le_nat (rev bs)"
proof -
  define a b where "a = take 4 bs" and "b = drop 4 bs"
  have ab: "bs = a @ b" "length a = 4" "length b = 4" using assms by (auto simp: a_def b_def)
  have bounds: "le_nat a < 2 ^ 32" "le_nat b < 2 ^ 32"
    using le_nat_bound [of a] le_nat_bound [of b] ab by simp_all
  have x: "le_nat bs = le_nat a + 2 ^ 32 * le_nat b" using ab by (simp add: le_nat_append)
  have lo: "le_nat bs mod 2 ^ 32 = le_nat a" using bounds by (simp add: x)
  have hi: "le_nat bs div 2 ^ 32 mod 2 ^ 32 = le_nat b" using bounds by (simp add: x)
  have bound: "le_nat (rev a) < 2 ^ 32" "le_nat (rev b) < 2 ^ 32"
    using le_nat_bound [of "rev a"] le_nat_bound [of "rev b"] ab by simp_all
  have "htonll (le_nat bs) = (push_bit 32 (le_nat (rev a)) mod 2 ^ 64) OR le_nat (rev b)"
    unfolding htonll_def lo hi using ab by (simp add: htonl_le_nat)
  also have "push_bit 32 (le_nat (rev a)) mod 2 ^ 64 = push_bit 32 (le_nat (rev a))"
    using bound by (simp add: push_bit_eq_mult)
  also have "push_bit 32 (le_nat (rev a)) OR le_nat (rev b) = 2 ^ 32 * le_nat (rev a) + le_nat (rev b)"
    using bound by (rule_tac or_add_disjoint)
  finally show ?thesis using ab by (simp add: le_nat_append)
qed

lemma htons_le_nat: "length bs = 2 \<Longrightarrow> htons (le_nat bs) = le_nat (rev bs)"
  by (simp add: htons_def le_bytes_le_nat)

text \<open>So the extended length fields are written and read back unchanged.\<close>

lemma htons_stored: "n < 2 ^ 16 \<Longrightarrow> htons (le_nat (le_bytes 2 (htons n))) = n"
proof -
  assume n: "n < 2 ^ 16"
  have "le_bytes 2 (htons n) = rev (le_bytes 2 n)" by (simp add: htons_def le_bytes_le_nat)
  then have "htons (le_nat (le_bytes 2 (htons n))) = le_nat (le_bytes 2 n)"
    by (simp add: htons_le_nat)
  with n show ?thesis by (simp add: le_nat_le_bytes)
qed

lemma htonll_stored: "n < 2 ^ 64 \<Longrightarrow> htonll (le_nat (le_bytes 8 (htonll n))) = n"
proof -
  assume n: "n < 2 ^ 64"
  then have n': "le_nat (le_bytes 8 n) = n" by (simp add: le_nat_le_bytes)
  have "htonll n = le_nat (rev (le_bytes 8 n))" using htonll_le_nat [of "le_bytes 8 n"] n' by simp
  then have "le_bytes 8 (htonll n) = rev (le_bytes 8 n)" by (simp add: le_bytes_le_nat)
  then show ?thesis using n' by (simp add: htonll_le_nat)
qed

section \<open>Masking\<close>

lemma length_apply_mask [simp]: "length (apply_mask k p) = length p"
  by (simp add: apply_mask_def)

lemma apply_mask_involutive [simp]: "apply_mask k (apply_mask k p) = p"
  by (rule nth_equalityI) (simp_all add: apply_mask_def)

lemma length_sent_payload [simp]: "length (sent_payload k f) = length (payload f)"
  by (simp add: sent_payload_def)

section \<open>Header bits\<close>

lemma byte_masks: "(0x80 :: byte) = push_bit 7 1" "(0x0F :: byte) = mask 4" "(0x7F :: byte) = mask 7"
  by (simp_all add: mask_eq_exp_minus_1 push_bit_eq_mult)

lemma first_byte_op: "((op AND 0x0F) OR (if b then 0x80 else 0)) AND 0x0F = op AND (0x0F :: byte)"
  unfolding byte_masks by (rule byte_eqI) (simp_all add: bit_simps)

lemma first_byte_fin: "((op AND 0x0F) OR (if b then 0x80 else 0)) AND 0x80 \<noteq> (0 :: byte) \<longleftrightarrow> b"
proof -
  have "((op AND 0x0F) OR (if b then 0x80 else 0)) AND 0x80 = (if b then 0x80 else (0 :: byte))"
    unfolding byte_masks by (rule byte_eqI) (simp_all add: bit_simps)
  then show ?thesis by simp
qed

lemma second_byte:
  "((l AND 0x7F) OR (if b then 0x80 else 0)) AND 0x80 \<noteq> (0 :: byte) \<longleftrightarrow> b"
  "((l AND 0x7F) OR (if b then 0x80 else 0)) AND 0x7F = l AND (0x7F :: byte)"
proof -
  have "((l AND 0x7F) OR (if b then 0x80 else 0)) AND 0x80 = (if b then 0x80 else (0 :: byte))"
    unfolding byte_masks by (rule byte_eqI) (simp_all add: bit_simps)
  then show "((l AND 0x7F) OR (if b then 0x80 else 0)) AND 0x80 \<noteq> (0 :: byte) \<longleftrightarrow> b" by simp
  show "((l AND 0x7F) OR (if b then 0x80 else 0)) AND 0x7F = l AND (0x7F :: byte)"
    unfolding byte_masks by (rule byte_eqI) (simp_all add: bit_simps)
qed

lemma unat_and_7F: "n < 128 \<Longrightarrow> unat ((word_of_nat n :: byte) AND 0x7F) = n"
proof -
  assume "n < 128"
  have "unat ((word_of_nat n :: byte) AND 0x7F) = take_bit 7 (unat (word_of_nat n :: byte))"
    unfolding byte_masks by (simp only: take_bit_eq_mask [symmetric] unsigned_take_bit_eq)
  also have "\<dots> = n" using \<open>n < 128\<close> by (simp add: unat_of_nat take_bit_eq_mod)
  finally show ?thesis .
qed

section \<open>The parser on any buffer\<close>

lemma parseFrame_length_cases:
  "2 \<le> length buf \<Longrightarrow> parseFrame_length buf = Some (len, cur) \<Longrightarrow> 2 \<le> cur \<and> cur \<le> 10 \<and> cur \<le> length buf"
  by (auto simp: parseFrame_length_def Let_def split: if_splits)

lemma parseFrame_length_append:
  "2 \<le> length buf \<Longrightarrow> parseFrame_length buf = Some x \<Longrightarrow> parseFrame_length (buf @ extra) = Some x"
  by (auto simp: parseFrame_length_def Let_def nth_append split: if_splits)

lemma parseFrame_key_cases:
  "cur \<le> length buf \<Longrightarrow> parseFrame_key buf masked cur = Some (key, cur') \<Longrightarrow>
   cur \<le> cur' \<and> cur' \<le> cur + 4 \<and> cur' \<le> length buf"
  by (auto simp: parseFrame_key_def split: if_splits)

lemma parseFrame_key_append:
  "cur \<le> length buf \<Longrightarrow> parseFrame_key buf masked cur = Some x \<Longrightarrow> parseFrame_key (buf @ extra) masked cur = Some x"
  by (auto simp: parseFrame_key_def split: if_splits)

lemma parseFrame_Some_iff:
  "parseFrame m buf = Some (n, fr, buf') \<longleftrightarrow>
   2 \<le> length buf \<and>
   (\<exists>len cur0 key cur flen. parseFrame_length buf = Some (len, cur0) \<and>
     parseFrame_key buf (buf ! 1 AND 0x80 \<noteq> 0) cur0 = Some (key, cur) \<and>
     flen = min len (max maxControlFrameLength m) \<and> flen \<le> length buf - cur \<and>
     n = (cur + len) mod 2 ^ 64 \<and>
     fr = \<lparr>opcode = buf ! 0 AND 0x0F, payload = cur, frame_length = flen,
           fin = (buf ! 0 AND 0x80 \<noteq> 0), frame_mask = (buf ! 1 AND 0x80 \<noteq> 0)\<rparr> \<and>
     buf' = (case key of None \<Rightarrow> buf
             | Some k \<Rightarrow> take cur buf @ apply_mask k (take flen (drop cur buf)) @ drop (cur + flen) buf))"
proof -
  define M where "M = max maxControlFrameLength m"
  have m: "(if len > M then M else len) = min len M" for len by auto
  show ?thesis
    unfolding parseFrame_def Let_def M_def [symmetric] m
    by (auto simp: not_less simp del: One_nat_def split: option.splits)
qed

lemma parseFrame_SomeE:
  assumes "parseFrame m buf = Some (n, fr, buf')"
  obtains len cur0 key cur flen where "2 \<le> length buf" "parseFrame_length buf = Some (len, cur0)"
     "parseFrame_key buf (buf ! 1 AND 0x80 \<noteq> 0) cur0 = Some (key, cur)"
     "flen = min len (max maxControlFrameLength m)" "flen \<le> length buf - cur" "n = (cur + len) mod 2 ^ 64"
     "fr = \<lparr>opcode = buf ! 0 AND 0x0F, payload = cur, frame_length = flen,
           fin = (buf ! 0 AND 0x80 \<noteq> 0), frame_mask = (buf ! 1 AND 0x80 \<noteq> 0)\<rparr>"
     "buf' = (case key of None \<Rightarrow> buf
             | Some k \<Rightarrow> take cur buf @ apply_mask k (take flen (drop cur buf)) @ drop (cur + flen) buf)"
     "2 \<le> cur0" "cur0 \<le> 10" "cur0 \<le> length buf" "cur0 \<le> cur" "cur \<le> cur0 + 4" "cur \<le> length buf"
  using assms parseFrame_length_cases [of buf] parseFrame_key_cases [of _ buf]
  unfolding parseFrame_Some_iff by metis

lemma parseFrame_bounds:
  assumes "parseFrame m buf = Some (n, fr, buf')"
  shows "payload fr + frame_length fr \<le> length buf" "length buf' = length buf"
    "frame_length fr \<le> max maxControlFrameLength m" "2 \<le> payload fr" "payload fr \<le> 14"
  by (rule parseFrame_SomeE [OF assms]; auto split: option.splits)+

text \<open>More input never changes a frame that has been recognised.\<close>

lemma parseFrame_append:
  assumes "parseFrame m buf = Some (n, fr, buf')"
  shows "parseFrame m (buf @ extra) = Some (n, fr, buf' @ extra)"
proof (rule parseFrame_SomeE [OF assms])
  fix len cur0 key cur flen
  assume p: "2 \<le> length buf" "parseFrame_length buf = Some (len, cur0)"
     "parseFrame_key buf (buf ! 1 AND 0x80 \<noteq> 0) cur0 = Some (key, cur)"
     "flen = min len (max maxControlFrameLength m)" "flen \<le> length buf - cur" "n = (cur + len) mod 2 ^ 64"
     "fr = \<lparr>opcode = buf ! 0 AND 0x0F, payload = cur, frame_length = flen,
           fin = (buf ! 0 AND 0x80 \<noteq> 0), frame_mask = (buf ! 1 AND 0x80 \<noteq> 0)\<rparr>"
     "buf' = (case key of None \<Rightarrow> buf
             | Some k \<Rightarrow> take cur buf @ apply_mask k (take flen (drop cur buf)) @ drop (cur + flen) buf)"
    and c0: "cur0 \<le> length buf" and c: "cur \<le> length buf"
  have nth: "(buf @ extra) ! 0 = buf ! 0" "(buf @ extra) ! 1 = buf ! 1" using p(1) by (auto simp: nth_append)
  have "buf' @ extra = (case key of None \<Rightarrow> buf @ extra
             | Some k \<Rightarrow> take cur (buf @ extra) @ apply_mask k (take flen (drop cur (buf @ extra)))
                         @ drop (cur + flen) (buf @ extra))"
    using p c by (auto split: option.splits)
  moreover note parseFrame_length_append [OF p(1,2), of extra] parseFrame_key_append [OF c0 p(3), of extra]
  ultimately show ?thesis unfolding parseFrame_Some_iff nth using p by fastforce
qed

section \<open>Round trip\<close>

definition wf_frame :: "binary Frame \<Rightarrow> bool" where
  "wf_frame f \<longleftrightarrow> unat (opcode f) < 16 \<and> frame_length f = length (payload f) \<and> frame_length f < 2 ^ 63"

lemma opcode_mask: "unat (b :: byte) < 16 \<Longrightarrow> b AND 0x0F = b"
proof -
  assume "unat b < 16"
  then have "unat (take_bit 4 b) = unat b" by (simp add: unsigned_take_bit_eq take_bit_nat_eq_self)
  then have "take_bit 4 b = b" by (simp add: word_unat_eq_iff)
  then show ?thesis unfolding byte_masks by (simp add: take_bit_eq_mask)
qed

definition header_size :: "binary Frame \<Rightarrow> nat" where
  "header_size f = 2 + (if frame_length f < 0x7E then 0 else if frame_length f \<le> 0xFFFF then 2 else 8)
     + (if frame_mask f then 4 else 0)"

lemma length_frame_header: "length k = 4 \<Longrightarrow> length (frame_header k f) = header_size f"
  by (simp add: frame_header_def header_size_def Let_def)

lemma parseFrame_length_header:
  "wf_frame f \<Longrightarrow> parseFrame_length (frame_header k f @ body) =
     Some (frame_length f, header_size f - (if frame_mask f then 4 else 0))"
  using second_byte(2) [of "0x7E" "frame_mask f"] second_byte(2) [of "0x7F" "frame_mask f"]
  by (auto simp: parseFrame_length_def frame_header_def header_size_def Let_def wf_frame_def
      second_byte unat_and_7F htons_stored htonll_stored)

lemma parseFrame_key_header:
  assumes "length k = 4"
  shows "parseFrame_key (frame_header k f @ body) (frame_mask f) (header_size f - (if frame_mask f then 4 else 0)) =
     Some (if frame_mask f then Some k else None, header_size f)"
proof (cases "frame_mask f")
  case True
  then obtain h where h: "frame_header k f = h @ k" by (auto simp: frame_header_def Let_def)
  moreover have "length h = header_size f - 4" using length_frame_header [OF assms, of f] h assms by simp
  moreover have "4 \<le> header_size f" using True by (simp add: header_size_def)
  ultimately show ?thesis using True assms by (simp add: parseFrame_key_def)
qed (simp add: parseFrame_key_def)

lemma frame_header_bytes:
  "frame_header k f ! 0 = (opcode f AND 0x0F) OR (if fin f then 0x80 else 0)"
  "(frame_header k f ! 1) AND 0x80 \<noteq> 0 \<longleftrightarrow> frame_mask f"
  using second_byte(1) [of "0x7E" "frame_mask f"] second_byte(1) [of "0x7F" "frame_mask f"]
    second_byte(1) [of "word_of_nat (frame_length f)" "frame_mask f"]
  by (auto simp: frame_header_def Let_def)

lemma parseFrame_encodeFrame:
  assumes "length k = 4" "wf_frame f" "frame_length f \<le> max maxControlFrameLength m"
  shows "parseFrame m (encodeFrame k f @ rest) =
    Some (length (encodeFrame k f),
          \<lparr>opcode = opcode f, payload = header_size f, frame_length = frame_length f,
           fin = fin f, frame_mask = frame_mask f\<rparr>,
          frame_header k f @ payload f @ rest)"
proof -
  let ?buf = "frame_header k f @ sent_payload k f @ rest"
  have len: "length (frame_header k f) = header_size f" using assms(1) by (rule length_frame_header)
  have hs: "2 \<le> header_size f" "header_size f \<le> 14" by (auto simp: header_size_def)
  have nth: "?buf ! 0 = frame_header k f ! 0" "?buf ! 1 = frame_header k f ! 1"
    using len hs by (auto simp: nth_append)
  have bits: "?buf ! 0 AND 0x0F = opcode f" "(?buf ! 0 AND 0x80 \<noteq> 0) = fin f" "(?buf ! 1 AND 0x80 \<noteq> 0) = frame_mask f"
    unfolding nth frame_header_bytes first_byte_op first_byte_fin
    using assms(2) by (auto simp: wf_frame_def opcode_mask)
  have n: "(header_size f + frame_length f) mod 2 ^ 64 = length (encodeFrame k f)"
    using assms(2) hs len by (simp add: encodeFrame_def wf_frame_def)
  have buf: "frame_header k f @ payload f @ rest = (case (if frame_mask f then Some k else None) of None \<Rightarrow> ?buf
     | Some key \<Rightarrow> take (header_size f) ?buf @ apply_mask key (take (frame_length f) (drop (header_size f) ?buf))
         @ drop (header_size f + frame_length f) ?buf)"
    using assms(2) len by (auto simp: wf_frame_def sent_payload_def)
  have "parseFrame m ?buf = Some (length (encodeFrame k f),
          \<lparr>opcode = opcode f, payload = header_size f, frame_length = frame_length f,
           fin = fin f, frame_mask = frame_mask f\<rparr>, frame_header k f @ payload f @ rest)"
    unfolding parseFrame_Some_iff bits
    using len hs n buf assms(2,3) parseFrame_length_header [OF assms(2), of k "sent_payload k f @ rest"]
      parseFrame_key_header [OF assms(1), of f "sent_payload k f @ rest"]
    by (intro conjI exI [of _ "frame_length f"] exI [of _ "header_size f - (if frame_mask f then 4 else 0)"]
        exI [of _ "if frame_mask f then Some k else None"] exI [of _ "header_size f"])
      (simp_all add: wf_frame_def min_absorb1)
  then show ?thesis by (simp add: encodeFrame_def)
qed

text \<open>A proper prefix of a frame is reported as incomplete.\<close>

lemma parseFrame_prefix:
  assumes "length k = 4" "wf_frame f" "frame_length f \<le> max maxControlFrameLength m"
    and "p @ q = encodeFrame k f" "q \<noteq> []"
  shows "parseFrame m p = None"
proof (rule ccontr)
  assume "parseFrame m p \<noteq> None"
  then obtain n fr p' where p: "parseFrame m p = Some (n, fr, p')" by auto
  from parseFrame_append [OF p, of q] parseFrame_encodeFrame [OF assms(1-3), of "[]"] assms(4)
  have "payload fr + frame_length fr = header_size f + frame_length f" by simp
  also have "\<dots> = length (encodeFrame k f)"
    using assms(1,2) by (simp add: encodeFrame_def length_frame_header wf_frame_def)
  also have "\<dots> > length p" using assms(4) [symmetric] assms(5) by simp
  finally show False using parseFrame_bounds(1) [OF p] by simp
qed

text \<open>
  The value returned for a recognised frame is its size on the wire, provided the declared length
  leaves room for the header below \<open>2 ^ 64\<close>; it is then positive and covers the payload.
\<close>

lemma parseFrame_progress:
  assumes "parseFrame m buf = Some (n, fr, buf')" "parseFrame_length buf = Some (len, cur)" "len + 14 < 2 ^ 64"
  shows "n = payload fr + len \<and> n > 0 \<and> frame_length fr \<le> len"
  by (rule parseFrame_SomeE [OF assms(1)]) (use assms(2,3) in auto)

end
