(* ===== verification/Wsc_Http.thy ===== *)
theory Wsc_Http
  imports Wsc_Prelude
begin

text \<open>
  The HTTP parser of \<open>src/impl/http.cpp\<close> and the formatted extraction of \<open>std::istringstream\<close>
  that its callers apply to the first line. Buffers are strings here; the callers convert the
  bytes they receive.

  A \<open>std::multimap\<close> of headers is an association list in insertion order; \<open>find\<close> returns the
  first entry of a key, which is what the lower bound of equal keys is.
\<close>

section \<open>Recognising a request\<close>

fun isHttpRequest_from :: "nat \<Rightarrow> string \<Rightarrow> bool" where
  "isHttpRequest_from i [] = True"
| "isHttpRequest_from i (c # buffer) =
     (if i > 0 \<and> c = CHR '' '' then True
      else if i \<ge> 8 \<or> (of_char c :: nat) < 65 \<or> (of_char c :: nat) > 90 then False
      else isHttpRequest_from (i + 1) buffer)"

definition isHttpRequest :: "string \<Rightarrow> bool" where
  "isHttpRequest buffer = isHttpRequest_from 0 buffer"

section \<open>Splitting into lines\<close>

text \<open>
  \<open>cur\<close> is the offset of the line being read; the result is the number of bytes up to and
  including the empty line that ends the header, or 0 when that line has not arrived, with the
  lines collected so far.
\<close>

function parseHttpLines_loop :: "string \<Rightarrow> nat \<Rightarrow> string list \<Rightarrow> nat \<times> string list" where
  "parseHttpLines_loop buffer cur lines =
     (let last = cur;
          cur = last + length (takeWhile (\<lambda>c. c \<noteq> LF) (drop last buffer))
      in if cur \<ge> length buffer then (0, lines)
         else let stop = (if cur \<noteq> 0 \<and> buffer ! (cur - 1) = CR then cur - 1 else cur);
                  line = take (stop - last) (drop last buffer)
              in if line = [] then (cur + 1, lines)
                 else parseHttpLines_loop buffer (cur + 1) (lines @ [line]))"
  by pat_completeness auto
termination
  by (relation "measure (\<lambda>(buffer, cur, lines). length buffer - cur)") (auto simp: Let_def)

declare parseHttpLines_loop.simps [simp del]

definition parseHttpLines :: "string \<Rightarrow> nat \<times> string list" where
  "parseHttpLines buffer = parseHttpLines_loop buffer 0 []"

section \<open>Headers\<close>

definition find_first_of :: "char \<Rightarrow> string \<Rightarrow> nat option" where
  "find_first_of c s = (if c \<in> set s then Some (length (takeWhile (\<lambda>x. x \<noteq> c) s)) else None)"

definition parseHttpHeader :: "string \<Rightarrow> string \<times> string" where
  "parseHttpHeader line =
     (case find_first_of (CHR '':'') line of
        Some pos \<Rightarrow>
          let key = take pos line;
              value = dropWhile (\<lambda>c. c = CHR '' '') (drop (pos + 1) line)
          in (map tolower key, value)
      | None \<Rightarrow> (line, []))"

definition parseHttpHeaders :: "string list \<Rightarrow> (string \<times> string) list" where
  "parseHttpHeaders lines = map parseHttpHeader lines"

section \<open>Formatted extraction from a line\<close>

text \<open>\<open>stream >> word\<close>: the word and the rest of the stream.\<close>

definition read_word :: "string \<Rightarrow> string \<times> string" where
  "read_word s = (let t = dropWhile isspace s in
     (takeWhile (\<lambda>c. \<not> isspace c) t, dropWhile (\<lambda>c. \<not> isspace c) t))"

fun digits_value :: "nat \<Rightarrow> string \<Rightarrow> nat" where
  "digits_value acc [] = acc"
| "digits_value acc (c # cs) = digits_value (10 * acc + (of_char c - 48)) cs"

text \<open>
  \<open>stream >> code\<close> for an \<open>unsigned int\<close>: 0 when no digit follows, the maximum when the digits
  overflow, and the negated value when they follow a minus sign.
\<close>

definition read_unsigned :: "string \<Rightarrow> nat" where
  "read_unsigned s =
     (let t = dropWhile isspace s;
          neg = (t \<noteq> [] \<and> hd t = CHR ''-'');
          u = (if t \<noteq> [] \<and> (hd t = CHR ''-'' \<or> hd t = CHR ''+'') then tl t else t);
          ds = takeWhile isdigit u;
          v = digits_value 0 ds
      in if ds = [] then 0
         else if v \<ge> 2 ^ 32 then 2 ^ 32 - 1
         else if neg then (2 ^ 32 - v) mod 2 ^ 32 else v)"

definition status_code :: "string \<Rightarrow> nat" where
  "status_code line = read_unsigned (snd (read_word line))"

section \<open>Lemmas on lines\<close>

lemma takeWhile_LF:
  "LF \<notin> set l \<Longrightarrow> takeWhile (\<lambda>c. c \<noteq> LF) (l @ CR # LF # rest) = l @ [CR]"
  by (induction l) auto

lemma takeWhile_no_LF: "LF \<notin> set l \<Longrightarrow> takeWhile (\<lambda>c. c \<noteq> LF) l = l"
  by (induction l) auto

lemma parseHttpLines_line:
  assumes "LF \<notin> set l" "l \<noteq> []"
  shows "parseHttpLines_loop (pre @ l @ CRLF @ rest) (length pre) acc =
    parseHttpLines_loop (pre @ l @ CRLF @ rest) (length pre + length l + 2) (acc @ [l])"
  using assms
  by (subst parseHttpLines_loop.simps) (simp add: takeWhile_LF Let_def nth_append)

lemma parseHttpLines_blank:
  "parseHttpLines_loop (pre @ CRLF @ rest) (length pre) acc = (length pre + 2, acc)"
  by (subst parseHttpLines_loop.simps) (simp add: Let_def nth_append)

lemma parseHttpLines_partial:
  "LF \<notin> set p \<Longrightarrow> parseHttpLines_loop (pre @ p) (length pre) acc = (0, acc)"
  by (subst parseHttpLines_loop.simps) (simp add: takeWhile_no_LF Let_def)

text \<open>A header block: every line ended by CR LF, and an empty line at the end.\<close>

definition http_block :: "string list \<Rightarrow> string" where
  "http_block lines = concat (map (\<lambda>l. l @ CRLF) lines) @ CRLF"

lemma http_block_Nil [simp]: "http_block [] = CRLF"
  by (simp add: http_block_def)

lemma http_block_Cons [simp]: "http_block (l # ls) = l @ CRLF @ http_block ls"
  by (simp add: http_block_def)

definition http_line :: "string \<Rightarrow> bool" where
  "http_line l \<longleftrightarrow> l \<noteq> [] \<and> LF \<notin> set l"

lemma parseHttpLines_loop_block:
  "list_all http_line ls \<Longrightarrow>
   parseHttpLines_loop (pre @ http_block ls @ rest) (length pre) acc =
     (length pre + length (http_block ls), acc @ ls)"
proof (induction ls arbitrary: pre acc)
  case Nil
  show ?case using parseHttpLines_blank [of pre rest acc] by simp
next
  case (Cons l ls)
  then have l: "LF \<notin> set l" "l \<noteq> []" by (auto simp: http_line_def)
  have "parseHttpLines_loop (pre @ http_block (l # ls) @ rest) (length pre) acc =
      parseHttpLines_loop ((pre @ l @ CRLF) @ http_block ls @ rest) (length (pre @ l @ CRLF)) (acc @ [l])"
    using parseHttpLines_line [OF l, of pre "http_block ls @ rest" acc] by (simp add: add.commute)
  also have "\<dots> = (length (pre @ l @ CRLF) + length (http_block ls), (acc @ [l]) @ ls)"
    using Cons.prems by (intro Cons.IH) simp
  finally show ?case by simp
qed

lemma parseHttpLines_block:
  "list_all http_line ls \<Longrightarrow> parseHttpLines (http_block ls @ rest) = (length (http_block ls), ls)"
  using parseHttpLines_loop_block [of ls "[]" rest "[]"] by (simp add: parseHttpLines_def)

text \<open>Every proper prefix of a header block is reported as incomplete.\<close>

lemma parseHttpLines_loop_prefix:
  "list_all http_line ls \<Longrightarrow> p @ q = http_block ls \<Longrightarrow> q \<noteq> [] \<Longrightarrow>
   fst (parseHttpLines_loop (pre @ p) (length pre) acc) = 0"
proof (induction ls arbitrary: pre p acc)
  case Nil
  then have "p = [] \<or> p = [CR]" by (auto simp: append_eq_Cons_conv)
  then have "LF \<notin> set p" by auto
  then show ?case by (simp add: parseHttpLines_partial)
next
  case (Cons l ls)
  then have l: "LF \<notin> set l" "l \<noteq> []" by (auto simp: http_line_def)
  from Cons.prems have "p @ q = (l @ [CR]) @ LF # http_block ls" by simp
  then consider us where "p @ us = l @ [CR]" | us where "p = (l @ [CR]) @ us" "us @ q = LF # http_block ls"
    unfolding append_eq_append_conv2 by blast
  then show ?case
  proof cases
    case 1
    then have "set p \<subseteq> set (l @ [CR])" by (metis Un_upper1 set_append)
    with l have "LF \<notin> set p" by auto
    then show ?thesis by (simp add: parseHttpLines_partial)
  next
    case 2
    show ?thesis
    proof (cases us)
      case Nil
      then have "LF \<notin> set p" using l 2 by auto
      then show ?thesis by (simp add: parseHttpLines_partial)
    next
      case (Cons u p')
      with 2 have p: "p = l @ CRLF @ p'" "p' @ q = http_block ls" by auto
      have "parseHttpLines_loop (pre @ p) (length pre) acc =
          parseHttpLines_loop ((pre @ l @ CRLF) @ p') (length (pre @ l @ CRLF)) (acc @ [l])"
        using parseHttpLines_line [OF l, of pre p' acc] p by (simp add: add.commute)
      with Cons.IH [of p' "pre @ l @ CRLF"] Cons.prems p show ?thesis by simp
    qed
  qed
qed

lemma parseHttpLines_prefix:
  "list_all http_line ls \<Longrightarrow> p @ q = http_block ls \<Longrightarrow> q \<noteq> [] \<Longrightarrow> fst (parseHttpLines p) = 0"
  using parseHttpLines_loop_prefix [of ls p q "[]"] by (simp add: parseHttpLines_def)

text \<open>Once the header is complete, more input changes neither the lines nor the length.\<close>

lemma takeWhile_append_found:
  "length (takeWhile P xs) < length xs \<Longrightarrow> takeWhile P (xs @ ys) = takeWhile P xs"
  by (metis length_takeWhile_le nless_le takeWhile_append1 takeWhile_eq_all_conv)

lemma parseHttpLines_step:
  assumes "cur + length (takeWhile (\<lambda>c. c \<noteq> LF) (drop cur b)) = pos" "pos < length b"
    and "(if pos \<noteq> 0 \<and> b ! (pos - 1) = CR then pos - 1 else pos) = stop"
    and "take (stop - cur) (drop cur b) = line"
  shows "parseHttpLines_loop b cur lines =
    (if line = [] then (pos + 1, lines) else parseHttpLines_loop b (pos + 1) (lines @ [line]))"
proof -
  have "\<not> length b \<le> pos" using assms(2) by simp
  then show ?thesis
    by (subst parseHttpLines_loop.simps) (simp only: Let_def assms(1,3,4) if_False)
qed

lemma parseHttpLines_loop_append:
  "parseHttpLines_loop buffer cur lines = (n, ls) \<Longrightarrow> n \<noteq> 0 \<Longrightarrow>
   parseHttpLines_loop (buffer @ more) cur lines = (n, ls) \<and> n \<le> length buffer"
proof (induction buffer cur lines rule: parseHttpLines_loop.induct)
  case (1 buffer cur lines)
  let ?pos = "cur + length (takeWhile (\<lambda>c. c \<noteq> LF) (drop cur buffer))"
  have pos: "?pos < length buffer"
    using "1.prems" by (subst (asm) parseHttpLines_loop.simps) (auto simp: Let_def split: if_splits)
  then have cur: "cur < length buffer" by simp
  with pos have "length (takeWhile (\<lambda>c. c \<noteq> LF) (drop cur buffer)) < length (drop cur buffer)" by simp
  then have tw: "takeWhile (\<lambda>c. c \<noteq> LF) (drop cur (buffer @ more)) = takeWhile (\<lambda>c. c \<noteq> LF) (drop cur buffer)"
    using cur by (simp add: takeWhile_append_found)
  define stop where "stop = (if ?pos \<noteq> 0 \<and> buffer ! (?pos - 1) = CR then ?pos - 1 else ?pos)"
  define line where "line = take (stop - cur) (drop cur buffer)"
  have "?pos - 1 < length buffer" using pos by linarith
  then have nth: "(buffer @ more) ! (?pos - 1) = buffer ! (?pos - 1)" by (rule nth_append_left)
  have "stop \<le> length buffer" using pos by (auto simp: stop_def)
  then have tk: "take (stop - cur) (drop cur (buffer @ more)) = line"
    using cur by (simp add: line_def)
  note step = parseHttpLines_step [where cur = cur and pos = ?pos and stop = stop and line = line and lines = lines]
  have eq1: "parseHttpLines_loop buffer cur lines =
      (if line = [] then (?pos + 1, lines) else parseHttpLines_loop buffer (?pos + 1) (lines @ [line]))"
    by (rule step) (simp_all only: pos stop_def line_def)
  have eq2: "parseHttpLines_loop (buffer @ more) cur lines =
      (if line = [] then (?pos + 1, lines) else parseHttpLines_loop (buffer @ more) (?pos + 1) (lines @ [line]))"
    by (rule step, simp_all only: tw nth tk) (use pos in \<open>simp_all add: stop_def\<close>)
  show ?case
  proof (cases "line = []")
    case True
    with "1.prems" eq1 eq2 pos show ?thesis by auto
  next
    case False
    with "1.prems" eq1 have "parseHttpLines_loop buffer (?pos + 1) (lines @ [line]) = (n, ls)" by simp
    then have "parseHttpLines_loop (buffer @ more) (?pos + 1) (lines @ [line]) = (n, ls) \<and> n \<le> length buffer"
      by (intro "1.IH" [OF refl refl _ stop_def line_def False _ "1.prems"(2)]) (use pos in simp_all)
    with False eq2 show ?thesis by simp
  qed
qed

lemma parseHttpLines_append:
  "fst (parseHttpLines buffer) \<noteq> 0 \<Longrightarrow> parseHttpLines (buffer @ more) = parseHttpLines buffer"
  using parseHttpLines_loop_append [of buffer 0 "[]"]
  by (cases "parseHttpLines buffer") (auto simp: parseHttpLines_def)

lemma parseHttpLines_le: "fst (parseHttpLines buffer) \<le> length buffer"
  using parseHttpLines_loop_append [of buffer 0 "[]" _ _ "[]"]
  by (cases "parseHttpLines buffer") (auto simp: parseHttpLines_def)

end
