(* ===== verification/Wsc_Utils.thy ===== *)
theory Wsc_Utils
  imports Wsc_Prelude
begin

text \<open>
  The string helpers of \<open>src/impl/utils.cpp\<close> and the checked integer conversions of
  \<open>src/impl/utils.hpp\<close>: \<open>explode\<close>, \<open>implode\<close>, \<open>url_decode\<close>, \<open>base64_encode\<close>,
  \<open>to_uint16\<close> and \<open>to_uint32\<close>, with reference decoders and encoders for the round trips.
  The random engine and the thread-name helper are not modelled: random bytes are arguments
  of the definitions that consume them.
\<close>

section \<open>Splitting and joining\<close>

text \<open>
  \<open>std::getline(ss, token, delim)\<close> extracts up to and including the next delimiter and fails
  only when there is nothing left to extract, so a trailing delimiter yields no empty token.
\<close>

lemma length_tail_dropWhile: "xs \<noteq> [] \<Longrightarrow> length (drop (Suc 0) (dropWhile P xs)) < length xs"
proof -
  assume "xs \<noteq> []"
  then have "0 < length xs" by simp
  moreover have "length (dropWhile P xs) \<le> length xs" by (rule length_dropWhile_le)
  ultimately show ?thesis unfolding length_drop by linarith
qed

function explode :: "string \<Rightarrow> char \<Rightarrow> string list" where
  "explode str delim =
     (if str = [] then []
      else takeWhile (\<lambda>c. c \<noteq> delim) str # explode (drop 1 (dropWhile (\<lambda>c. c \<noteq> delim) str)) delim)"
  by pat_completeness auto
termination
  by (relation "measure (\<lambda>(str, delim). length str)") (auto simp: length_tail_dropWhile simp del: length_drop)

declare explode.simps [simp del]

text \<open>
  \<open>ostream_iterator\<close> writes every token followed by \<open>sdelim.c_str()\<close>; the last character of
  the result is then cut off. (A NUL delimiter is an empty C string.)
\<close>

definition implode :: "string list \<Rightarrow> char \<Rightarrow> string" where
  "implode tokens delim =
     (let sdelim = takeWhile (\<lambda>c. c \<noteq> CHR 0x00) [delim];
          result = concat (map (\<lambda>t. t @ sdelim) tokens)
      in if length result > 0 then take (length result - 1) result else result)"

lemma explode_Nil [simp]: "explode [] d = []"
  by (simp add: explode.simps)

lemma explode_last: "t \<noteq> [] \<Longrightarrow> d \<notin> set t \<Longrightarrow> explode t d = [t]"
proof -
  assume t: "t \<noteq> []" "d \<notin> set t"
  then have "takeWhile (\<lambda>c. c \<noteq> d) t = t" "dropWhile (\<lambda>c. c \<noteq> d) t = []"
    by (auto simp: takeWhile_eq_all_conv dropWhile_eq_Nil_conv)
  then show ?thesis using t(1) by (simp only: explode.simps [of t]) simp
qed

lemma explode_token: "d \<notin> set t \<Longrightarrow> explode (t @ d # rest) d = t # explode rest d"
proof -
  assume "d \<notin> set t"
  then have "takeWhile (\<lambda>c. c \<noteq> d) (t @ d # rest) = t"
    "dropWhile (\<lambda>c. c \<noteq> d) (t @ d # rest) = d # rest"
    by (induction t) auto
  then show ?thesis by (simp add: explode.simps [of "t @ d # rest"])
qed

lemma implode_Nil [simp]: "implode [] d = []"
  by (simp add: implode_def)

lemma implode_single [simp]: "d \<noteq> CHR 0x00 \<Longrightarrow> implode [t] d = t"
  by (simp add: implode_def)

lemma implode_Cons: "d \<noteq> CHR 0x00 \<Longrightarrow> ts \<noteq> [] \<Longrightarrow> implode (t # ts) d = t @ d # implode ts d"
  by (cases ts) (auto simp: implode_def Let_def)

text \<open>No token contains the delimiter and the last one is not empty: what \<open>explode\<close> can return.\<close>

definition clean_tokens :: "char \<Rightarrow> string list \<Rightarrow> bool" where
  "clean_tokens d ts \<longleftrightarrow> list_all (\<lambda>t. d \<notin> set t) ts \<and> (ts = [] \<or> last ts \<noteq> [])"

lemma explode_implode:
  "d \<noteq> CHR 0x00 \<Longrightarrow> clean_tokens d ts \<Longrightarrow> explode (implode ts d) d = ts"
proof (induction ts)
  case (Cons t ts)
  then show ?case
    by (cases "ts = []") (auto simp: clean_tokens_def explode_last explode_token implode_Cons)
qed simp

lemma implode_explode_no_delim: "d \<notin> set t \<Longrightarrow> t \<noteq> [] \<Longrightarrow> d \<noteq> CHR 0x00 \<Longrightarrow> implode (explode t d) d = t"
  by (simp add: explode_last)

lemma set_implode: "d \<noteq> CHR 0x00 \<Longrightarrow> set (implode ts d) \<subseteq> insert d (\<Union> (set ` set ts))"
proof (induction ts)
  case (Cons t ts)
  then show ?case by (cases "ts = []") (auto simp: implode_Cons)
qed simp

section \<open>Percent decoding\<close>

text \<open>
  \<open>value\<close> is the next two characters; if they are two hexadecimal digits they are consumed,
  otherwise the percent sign itself is copied and scanning goes on right after it.
\<close>

fun url_decode :: "string \<Rightarrow> string" where
  "url_decode [] = []"
| "url_decode (c # str) =
     (if c = CHR ''%'' then
        (let value = take 2 str
         in if length value \<noteq> 2 \<or> \<not> isxdigit (value ! 0) \<or> \<not> isxdigit (value ! 1)
            then c # url_decode str
            else char_of (16 * xdigit_value (value ! 0) + xdigit_value (value ! 1))
                 # url_decode (drop 2 str))
      else c # url_decode str)"

text \<open>A reference encoder: the characters of \<open>P\<close> are written as a percent sign and two digits.\<close>

definition hex_digit :: "nat \<Rightarrow> char" where
  "hex_digit n = (if n < 10 then char_of (48 + n) else char_of (55 + n))"

definition percent_encode :: "(char \<Rightarrow> bool) \<Rightarrow> string \<Rightarrow> string" where
  "percent_encode P str = concat (map (\<lambda>c.
     if P c then [CHR ''%'', hex_digit (of_char c div 16), hex_digit (of_char c mod 16)]
     else [c]) str)"

lemma hex_digit_xdigit: "n < 16 \<Longrightarrow> isxdigit (hex_digit n) \<and> xdigit_value (hex_digit n) = n"
  by (auto simp: hex_digit_def isxdigit_def xdigit_value_def Let_def)

lemma of_char_div_16: "(of_char c :: nat) div 16 < 16"
  using of_char_less_256 [of c] by linarith

lemma url_decode_percent_encode:
  "P (CHR ''%'') \<Longrightarrow> url_decode (percent_encode P str) = str"
proof (induction str)
  case (Cons c str)
  have "16 * ((of_char c :: nat) div 16) + of_char c mod 16 = of_char c" by simp
  with Cons show ?case
    by (auto simp: percent_encode_def hex_digit_xdigit of_char_div_16 Let_def)
qed (simp add: percent_encode_def)

lemma url_decode_id: "CHR ''%'' \<notin> set str \<Longrightarrow> url_decode str = str"
  by (induction str) auto

lemma length_url_decode: "length (url_decode str) \<le> length str"
  by (induction str rule: url_decode.induct) (auto simp: Let_def)

section \<open>Base64\<close>

definition tab :: string where
  "tab = ''ABCDEFGHIJKLMNOPQRSTUVWXYZabcdefghijklmnopqrstuvwxyz0123456789+/''"

fun base64_encode :: "binary \<Rightarrow> string" where
  "base64_encode (d0 # d1 # d2 # data) =
     tab ! unat (drop_bit 2 d0)
     # tab ! unat (push_bit 4 (d0 AND 3) OR drop_bit 4 d1)
     # tab ! unat (push_bit 2 (d1 AND 0x0F) OR drop_bit 6 d2)
     # tab ! unat (d2 AND 0x3F)
     # base64_encode data"
| "base64_encode [] = []"
| "base64_encode [d0] =
     [tab ! unat (drop_bit 2 d0), tab ! unat (push_bit 4 (d0 AND 3)), CHR ''='', CHR ''='']"
| "base64_encode [d0, d1] =
     [tab ! unat (drop_bit 2 d0), tab ! unat (push_bit 4 (d0 AND 3) OR drop_bit 4 d1),
      tab ! unat (push_bit 2 (d1 AND 0x0F)), CHR ''='']"

text \<open>The reference decoder of RFC 4648, section 4.\<close>

definition b64_value :: "char \<Rightarrow> byte" where
  "b64_value c = word_of_nat (length (takeWhile (\<lambda>x. x \<noteq> c) tab))"

fun base64_decode :: "string \<Rightarrow> binary" where
  "base64_decode (a # b # c # d # cs) =
     (let v0 = b64_value a; v1 = b64_value b; v2 = b64_value c; v3 = b64_value d;
          o0 = push_bit 2 v0 OR drop_bit 4 v1;
          o1 = push_bit 4 v1 OR drop_bit 2 v2;
          o2 = push_bit 6 v2 OR v3
      in if c = CHR ''='' then [o0] else if d = CHR ''='' then [o0, o1]
         else o0 # o1 # o2 # base64_decode cs)"
| "base64_decode _ = []"

lemma length_tab: "length tab = 64"
  by (simp add: tab_def)

lemma distinct_tab: "distinct tab"
  by (simp add: tab_def)

lemma pad_notin_tab: "CHR ''='' \<notin> set tab"
  by (simp add: tab_def)

lemma takeWhile_neq_nth:
  "distinct xs \<Longrightarrow> n < length xs \<Longrightarrow> length (takeWhile (\<lambda>x. x \<noteq> xs ! n) xs) = n"
proof (induction xs arbitrary: n)
  case (Cons x xs)
  then show ?case by (cases n) auto
qed simp

lemma b64_value_tab: "unat w < 64 \<Longrightarrow> b64_value (tab ! unat w) = (w :: byte)"
  by (simp add: b64_value_def takeWhile_neq_nth distinct_tab length_tab)

lemma tab_not_pad: "unat (w :: byte) < 64 \<Longrightarrow> tab ! unat w \<noteq> CHR ''=''"
  using pad_notin_tab nth_mem [of "unat w" tab] by (metis length_tab)

lemma take_bit_6_unat: "take_bit 6 w = w \<Longrightarrow> unat w < 64" for w :: byte
proof -
  assume "take_bit 6 w = w"
  then have "unat w = take_bit 6 (unat w)" by (metis unsigned_take_bit_eq)
  then show ?thesis using take_bit_nat_less_exp [of 6 "unat w"] by simp
qed

lemma b64_masks: "(3::byte) = mask 2" "(0x0F::byte) = mask 4" "(0x3F::byte) = mask 6"
  by (simp_all add: mask_eq_exp_minus_1)

text \<open>Every table index the encoder computes is a six-bit value.\<close>

lemma b64_index_less:
  fixes d0 d1 d2 :: byte
  shows "unat (drop_bit 2 d0) < 64"
    "unat (push_bit 4 (d0 AND 3) OR drop_bit 4 d1) < 64"
    "unat (push_bit 2 (d1 AND 0x0F) OR drop_bit 6 d2) < 64"
    "unat (d2 AND 0x3F) < 64"
    "unat (push_bit 4 (d0 AND 3)) < 64"
    "unat (push_bit 2 (d1 AND 0x0F)) < 64"
  unfolding b64_masks
  by ((rule take_bit_6_unat, rule byte_eqI; simp add: bit_simps))+

text \<open>The decoder's shifts undo the encoder's, one octet at a time.\<close>

lemma b64_octets:
  fixes d0 d1 d2 :: byte
  shows "push_bit 2 (drop_bit 2 d0) OR drop_bit 4 (push_bit 4 (d0 AND 3) OR drop_bit 4 d1) = d0"
    "push_bit 4 (push_bit 4 (d0 AND 3) OR drop_bit 4 d1)
       OR drop_bit 2 (push_bit 2 (d1 AND 0x0F) OR drop_bit 6 d2) = d1"
    "push_bit 6 (push_bit 2 (d1 AND 0x0F) OR drop_bit 6 d2) OR (d2 AND 0x3F) = d2"
    "push_bit 2 (drop_bit 2 d0) OR drop_bit 4 (push_bit 4 (d0 AND 3)) = d0"
    "push_bit 4 (push_bit 4 (d0 AND 3) OR drop_bit 4 d1) OR drop_bit 2 (push_bit 2 (d1 AND 0x0F)) = d1"
  unfolding b64_masks by ((rule byte_eqI; simp add: bit_simps))+

lemmas b64_decode_simps = b64_value_tab tab_not_pad b64_index_less b64_octets

lemma base64_decode_encode: "base64_decode (base64_encode d) = d"
  by (induction d rule: base64_encode.induct)
    (simp_all add: b64_decode_simps del: push_bit_and push_bit_or drop_bit_or drop_bit_and)

lemma length_base64_encode: "length (base64_encode d) = 4 * ((length d + 2) div 3)"
proof (induction d rule: base64_encode.induct)
  case (1 d0 d1 d2 data)
  have "(length data + 2 + 3) div 3 = (length data + 2) div 3 + 1" by simp
  with 1 show ?case by (simp add: add.commute)
qed auto

lemma tab_mem: "unat (w :: byte) < 64 \<Longrightarrow> tab ! unat w \<in> set tab"
  by (simp add: length_tab)

lemma set_base64_encode: "set (base64_encode d) \<subseteq> insert (CHR ''='') (set tab)"
  by (induction d rule: base64_encode.induct)
    (simp_all add: tab_mem b64_index_less del: push_bit_and push_bit_or)

lemma tab_clean: "c \<in> set tab \<Longrightarrow> c \<noteq> CR \<and> c \<noteq> LF \<and> c \<noteq> CHR '' ''"
  by (auto simp: tab_def)

lemma base64_encode_clean:
  "c \<in> set (base64_encode d) \<Longrightarrow> c \<noteq> CR \<and> c \<noteq> LF \<and> c \<noteq> CHR '' ''"
  using set_base64_encode [of d] tab_clean [of c] by auto

section \<open>The seed of the random engines\<close>

text \<open>
  \<open>random_seed\<close>: up to four numbers of the random device, as many as it gives before it throws (the constructor of the
  device may throw too), then the time and a hash of the thread, each cut to 32 bits.
\<close>

definition random_seed :: "bool \<Rightarrow> (nat \<Rightarrow> (32 word) option) \<Rightarrow> nat \<Rightarrow> nat \<Rightarrow> (32 word) list" where
  "random_seed opened device now thread_hash =
     (if opened then map the (takeWhile (\<lambda>x. x \<noteq> None) (map device [0..<4])) else [])
     @ [word_of_nat now, word_of_nat thread_hash]"

lemma random_seed_length: "2 \<le> length (random_seed opened device now h) \<and> length (random_seed opened device now h) \<le> 6"
proof -
  have "length (takeWhile (\<lambda>x. x \<noteq> None) (map device [0..<4])) \<le> length (map device [0..<4])" by (rule length_takeWhile_le)
  then show ?thesis by (simp add: random_seed_def)
qed

lemma random_seed_device: "(\<And>i. device i \<noteq> None) \<Longrightarrow> length (random_seed True device now h) = 6"
proof -
  assume d: "\<And>i. device i \<noteq> None"
  have "takeWhile (\<lambda>x. x \<noteq> None) (map device [0..<4]) = map device [0..<4]"
    by (rule iffD2 [OF takeWhile_eq_all_conv]) (use d in auto)
  then show ?thesis by (simp only: random_seed_def if_True length_append length_map length_upt) simp
qed

section \<open>Checked conversions\<close>

text \<open>\<open>to_uint16\<close> and \<open>to_uint32\<close> of \<open>utils.hpp\<close>, for an argument of any integer type.\<close>

definition to_uint16 :: "int \<Rightarrow> (16 word) res" where
  "to_uint16 i = (if i \<ge> 0 \<and> i \<le> 0xFFFF then Inr (word_of_int i)
                  else Inl (invalid_argument ''Integer out of range''))"

definition to_uint32 :: "int \<Rightarrow> (32 word) res" where
  "to_uint32 i = (if i \<ge> 0 \<and> i \<le> 0xFFFFFFFF then Inr (word_of_int i)
                  else Inl (invalid_argument ''Integer out of range''))"

lemma to_uint16_exact: "to_uint16 i = Inr w \<Longrightarrow> uint w = i"
  by (auto simp: to_uint16_def uint_word_of_int take_bit_int_eq_self_iff split: if_splits)

lemma to_uint32_exact: "to_uint32 i = Inr w \<Longrightarrow> uint w = i"
  by (auto simp: to_uint32_def uint_word_of_int take_bit_int_eq_self_iff split: if_splits)

end
