(* ===== verification/Wsc_WsHandshake.thy ===== *)
theory Wsc_WsHandshake
  imports Wsc_Http Wsc_Utils
begin

text \<open>
  The opening handshake of \<open>src/impl/wshandshake.cpp\<close>: the request and response generators and
  their parsers. SHA-1 comes from a TLS library and is the parameter \<open>sha1\<close>; the 16 random
  bytes of a key are the argument \<open>nonce\<close>. A parser returns its result or exception together
  with the handshake object, because a field assigned before an exception stays assigned.
\<close>

record WsHandshake =
  mHost :: string
  mPath :: string
  mProtocols :: "string list"
  mKey :: string

definition WsHandshake_default :: WsHandshake where
  "WsHandshake_default = \<lparr>mHost = [], mPath = [], mProtocols = [], mKey = []\<rparr>"

definition WsHandshake_new :: "string \<Rightarrow> string \<Rightarrow> string list \<Rightarrow> WsHandshake res" where
  "WsHandshake_new host path protocols =
     (if host = [] then Inl (invalid_argument ''WebSocket HTTP host cannot be empty'')
      else if path = [] then Inl (invalid_argument ''WebSocket HTTP path cannot be empty'')
      else Inr \<lparr>mHost = host, mPath = path, mProtocols = protocols, mKey = []\<rparr>)"

definition generateKey :: "binary \<Rightarrow> string" where
  "generateKey nonce = base64_encode nonce"

definition computeAcceptKey :: "(binary \<Rightarrow> binary) \<Rightarrow> string \<Rightarrow> string" where
  "computeAcceptKey sha1 key =
     base64_encode (sha1 (bytes_of_string (key @ ''258EAFA5-E914-47DA-95CA-C5AB0DC85B11'')))"

definition generateHttpRequest :: "binary \<Rightarrow> WsHandshake \<Rightarrow> string \<times> WsHandshake" where
  "generateHttpRequest nonce h =
     (let h = h\<lparr>mKey := generateKey nonce\<rparr>;
          out = ''GET '' @ mPath h @ '' HTTP/1.1'' @ CRLF
                @ ''Host: '' @ mHost h @ CRLF
                @ ''Connection: Upgrade'' @ CRLF
                @ ''Upgrade: websocket'' @ CRLF
                @ ''Sec-WebSocket-Version: 13'' @ CRLF
                @ ''Sec-WebSocket-Key: '' @ mKey h @ CRLF;
          out = (if mProtocols h \<noteq> []
                 then out @ ''Sec-WebSocket-Protocol: '' @ implode (mProtocols h) (CHR '','') @ CRLF
                 else out)
      in (out @ CRLF, h))"

definition generateHttpResponse :: "(binary \<Rightarrow> binary) \<Rightarrow> WsHandshake \<Rightarrow> string" where
  "generateHttpResponse sha1 h =
     (let out = ''HTTP/1.1 101 Switching Protocols'' @ CRLF
                @ ''Server: libdatachannel'' @ CRLF
                @ ''Connection: Upgrade'' @ CRLF
                @ ''Upgrade: websocket'' @ CRLF
                @ ''Sec-WebSocket-Accept: '' @ computeAcceptKey sha1 (mKey h) @ CRLF;
          out = (if mProtocols h \<noteq> []
                 then out @ ''Sec-WebSocket-Protocol: '' @ implode (mProtocols h) (CHR '','') @ CRLF
                 else out)
      in out @ CRLF)"

definition GetHttpErrorName :: "nat \<Rightarrow> string" where
  "GetHttpErrorName responseCode =
     (if responseCode = 400 then ''Bad Request''
      else if responseCode = 404 then ''Not Found''
      else if responseCode = 405 then ''Method Not Allowed''
      else if responseCode = 426 then ''Upgrade Required''
      else if responseCode = 500 then ''Internal Server Error''
      else ''Error'')"

definition generateHttpError :: "nat \<Rightarrow> string" where
  "generateHttpError responseCode =
     (let error = to_string responseCode @ '' '' @ GetHttpErrorName responseCode
      in ''HTTP/1.1 '' @ error @ CRLF
         @ ''Server: libdatachannel'' @ CRLF
         @ ''Content-Type: text/plain'' @ CRLF
         @ ''Content-Length: '' @ to_string (length error) @ CRLF
         @ ''Access-Control-Allow-Origin: *'' @ CRLF @ CRLF
         @ error)"

text \<open>
  The server side. Each guard throws a \<open>RequestError\<close> with the HTTP status to answer; path and
  host are assigned as soon as they are known.
\<close>

definition parseHttpRequest :: "string \<Rightarrow> WsHandshake \<Rightarrow> nat res \<times> WsHandshake" where
  "parseHttpRequest buffer h =
     (if \<not> isHttpRequest buffer
      then (Inl (RequestError ''Invalid HTTP request for WebSocket'' 400), h)
      else case parseHttpLines buffer of (len, lines) \<Rightarrow>
        if len = 0 then (Inr 0, h)
        else case lines of
          [] \<Rightarrow> (Inl (RequestError ''Invalid HTTP request for WebSocket'' 400), h)
        | requestLine # lines \<Rightarrow>
          let (method, s1) = read_word requestLine;
              (path, s2) = read_word s1
          in if method \<noteq> ''GET''
             then (Inl (RequestError (''Invalid request method '' @ CHR 0x22 # method @ CHR 0x22 # '' for WebSocket'') 405), h)
             else
               let h = h\<lparr>mPath := path\<rparr>; headers = parseHttpHeaders lines
               in case map_of headers ''host'' of
                 None \<Rightarrow> (Inl (RequestError ''WebSocket host header missing in request'' 400), h)
               | Some host \<Rightarrow>
                 let h = h\<lparr>mHost := host\<rparr>
                 in case map_of headers ''upgrade'' of
                   None \<Rightarrow> (Inl (RequestError ''WebSocket upgrade header missing in request'' 426), h)
                 | Some upgrade \<Rightarrow>
                   if map tolower upgrade \<noteq> ''websocket''
                   then (Inl (RequestError ''WebSocket upgrade header mismatching'' 426), h)
                   else case map_of headers ''sec-websocket-key'' of
                     None \<Rightarrow> (Inl (RequestError ''WebSocket key header missing in request'' 400), h)
                   | Some key \<Rightarrow>
                     let h = h\<lparr>mKey := key\<rparr>
                     in case map_of headers ''sec-websocket-protocol'' of
                       None \<Rightarrow> (Inr len, h)
                     | Some protocols \<Rightarrow> (Inr len, h\<lparr>mProtocols := explode protocols (CHR '','')\<rparr>))"

definition parseHttpResponse :: "(binary \<Rightarrow> binary) \<Rightarrow> string \<Rightarrow> WsHandshake \<Rightarrow> nat res" where
  "parseHttpResponse sha1 buffer h =
     (case parseHttpLines buffer of (len, lines) \<Rightarrow>
        if len = 0 then Inr 0
        else case lines of
          [] \<Rightarrow> Inl (WsError ''Invalid HTTP response for WebSocket'')
        | status # lines \<Rightarrow>
          let code = status_code status
          in if code \<noteq> 101
             then Inl (runtime_error (''Unexpected response code '' @ to_string code @ '' for WebSocket''))
             else
               let headers = parseHttpHeaders lines
               in case map_of headers ''upgrade'' of
                 None \<Rightarrow> Inl (WsError ''WebSocket update header missing'')
               | Some upgrade \<Rightarrow>
                 if map tolower upgrade \<noteq> ''websocket''
                 then Inl (WsError ''WebSocket update header mismatching'')
                 else case map_of headers ''sec-websocket-accept'' of
                   None \<Rightarrow> Inl (WsError ''WebSocket accept header missing'')
                 | Some accept \<Rightarrow>
                   if accept \<noteq> computeAcceptKey sha1 (mKey h)
                   then Inl (WsError ''WebSocket accept header is invalid'')
                   else Inr len)"

section \<open>The generated messages as header blocks\<close>

definition protocol_lines :: "string list \<Rightarrow> string list" where
  "protocol_lines ps =
     (if ps \<noteq> [] then [''Sec-WebSocket-Protocol: '' @ implode ps (CHR '','')] else [])"

definition request_lines :: "string \<Rightarrow> string \<Rightarrow> string list \<Rightarrow> string \<Rightarrow> string list" where
  "request_lines host path ps key =
     [''GET '' @ path @ '' HTTP/1.1'', ''Host: '' @ host, ''Connection: Upgrade'',
      ''Upgrade: websocket'', ''Sec-WebSocket-Version: 13'', ''Sec-WebSocket-Key: '' @ key]
     @ protocol_lines ps"

definition response_lines :: "string list \<Rightarrow> string \<Rightarrow> string list" where
  "response_lines ps accept =
     [''HTTP/1.1 101 Switching Protocols'', ''Server: libdatachannel'', ''Connection: Upgrade'',
      ''Upgrade: websocket'', ''Sec-WebSocket-Accept: '' @ accept] @ protocol_lines ps"

lemma generateHttpRequest_block:
  "generateHttpRequest nonce h =
     (http_block (request_lines (mHost h) (mPath h) (mProtocols h) (generateKey nonce)),
      h\<lparr>mKey := generateKey nonce\<rparr>)"
  by (simp add: generateHttpRequest_def request_lines_def protocol_lines_def Let_def)

lemma generateHttpResponse_block:
  "generateHttpResponse sha1 h =
     http_block (response_lines (mProtocols h) (computeAcceptKey sha1 (mKey h)))"
  by (simp add: generateHttpResponse_def response_lines_def protocol_lines_def Let_def)

text \<open>
  What an application must pass for the request to be well formed HTTP: a host that is not empty,
  does not begin with a space and has no line feed; a path that is not empty and has no white
  space; protocol names without commas, line feeds or a leading space, the last one not empty.
\<close>

definition header_value :: "string \<Rightarrow> bool" where
  "header_value v \<longleftrightarrow> LF \<notin> set v \<and> (v = [] \<or> hd v \<noteq> CHR '' '')"

definition handshake_ok :: "string \<Rightarrow> string \<Rightarrow> string list \<Rightarrow> bool" where
  "handshake_ok host path ps \<longleftrightarrow>
     host \<noteq> [] \<and> header_value host \<and> path \<noteq> [] \<and> list_all (\<lambda>c. \<not> isspace c) path \<and>
     clean_tokens (CHR '','') ps \<and> list_all header_value ps"

section \<open>The server accepts what the client generates\<close>

lemma parseHttpHeader_value:
  assumes "CHR '':'' \<notin> set k" "v = [] \<or> hd v \<noteq> CHR '' ''"
  shows "parseHttpHeader (k @ CHR '':'' # CHR '' '' # v) = (map tolower k, v)"
proof -
  have "takeWhile (\<lambda>x. x \<noteq> CHR '':'') (k @ CHR '':'' # CHR '' '' # v) = k"
    using assms(1) by (induction k) auto
  moreover have "dropWhile (\<lambda>c. c = CHR '' '') v = v"
    using assms(2) by (cases v) auto
  ultimately show ?thesis
    by (simp add: parseHttpHeader_def find_first_of_def)
qed

lemma header_value_base64: "header_value (base64_encode d)"
proof (cases "base64_encode d")
  case (Cons c cs)
  then show ?thesis using base64_encode_clean [of _ d] by (auto simp: header_value_def)
qed (simp add: header_value_def)

lemma header_value_implode:
  "clean_tokens (CHR '','') ps \<Longrightarrow> list_all header_value ps \<Longrightarrow> header_value (implode ps (CHR '',''))"
proof (induction ps)
  case (Cons p ps)
  then show ?case
    by (cases "ps = []"; cases p)
      (auto simp: header_value_def implode_Cons clean_tokens_def split: if_splits)
qed (simp add: header_value_def)

lemma isspace_space [simp]: "isspace (CHR '' '')"
  by (simp add: isspace_def)

lemma dropWhile_nospace: "list_all (\<lambda>c. \<not> isspace c) p \<Longrightarrow> p \<noteq> [] \<Longrightarrow> dropWhile isspace (p @ s) = p @ s"
  by (cases p) auto

lemma read_word_token:
  assumes "list_all (\<lambda>c. \<not> isspace c) p" "p \<noteq> []"
  shows "read_word (p @ CHR '' '' # s) = (p, CHR '' '' # s)" "read_word (CHR '' '' # p @ CHR '' '' # s) = (p, CHR '' '' # s)"
proof -
  have "takeWhile (\<lambda>c. \<not> isspace c) (p @ CHR '' '' # s) = p" "dropWhile (\<lambda>c. \<not> isspace c) (p @ CHR '' '' # s) = CHR '' '' # s"
    using assms(1) by (induction p) auto
  then show "read_word (p @ CHR '' '' # s) = (p, CHR '' '' # s)" "read_word (CHR '' '' # p @ CHR '' '' # s) = (p, CHR '' '' # s)"
    using assms by (simp_all add: read_word_def dropWhile_nospace Let_def)
qed

lemma request_lines_http:
  "handshake_ok host path ps \<Longrightarrow> list_all http_line (request_lines host path ps (generateKey nonce))"
  using header_value_base64 [of nonce] header_value_implode [of ps]
  by (auto simp: request_lines_def http_line_def handshake_ok_def header_value_def protocol_lines_def generateKey_def isspace_def list_all_iff)


lemma parse_headers:
  "header_value v \<Longrightarrow> parseHttpHeader (''Host: '' @ v) = (''host'', v)"
  "header_value v \<Longrightarrow> parseHttpHeader (''Server: '' @ v) = (''server'', v)"
  "header_value v \<Longrightarrow> parseHttpHeader (''Connection: '' @ v) = (''connection'', v)"
  "header_value v \<Longrightarrow> parseHttpHeader (''Upgrade: '' @ v) = (''upgrade'', v)"
  "header_value v \<Longrightarrow> parseHttpHeader (''Sec-WebSocket-Version: '' @ v) = (''sec-websocket-version'', v)"
  "header_value v \<Longrightarrow> parseHttpHeader (''Sec-WebSocket-Key: '' @ v) = (''sec-websocket-key'', v)"
  "header_value v \<Longrightarrow> parseHttpHeader (''Sec-WebSocket-Accept: '' @ v) = (''sec-websocket-accept'', v)"
  "header_value v \<Longrightarrow> parseHttpHeader (''Sec-WebSocket-Protocol: '' @ v) = (''sec-websocket-protocol'', v)"
  using parseHttpHeader_value [of "''Host''" v] parseHttpHeader_value [of "''Server''" v]
    parseHttpHeader_value [of "''Connection''" v] parseHttpHeader_value [of "''Upgrade''" v]
    parseHttpHeader_value [of "''Sec-WebSocket-Version''" v] parseHttpHeader_value [of "''Sec-WebSocket-Key''" v]
    parseHttpHeader_value [of "''Sec-WebSocket-Accept''" v] parseHttpHeader_value [of "''Sec-WebSocket-Protocol''" v]
  by (simp_all add: header_value_def tolower_def char_of_def bit_0)

lemma const_headers:
  "parseHttpHeader ''Connection: Upgrade'' = (''connection'', ''Upgrade'')"
  "parseHttpHeader ''Upgrade: websocket'' = (''upgrade'', ''websocket'')"
  "parseHttpHeader ''Server: libdatachannel'' = (''server'', ''libdatachannel'')"
  "parseHttpHeader ''Sec-WebSocket-Version: 13'' = (''sec-websocket-version'', ''13'')"
  using parse_headers(2-5) [of "''Upgrade''"] parse_headers(4) [of "''websocket''"]
    parse_headers(2) [of "''libdatachannel''"] parse_headers(5) [of "''13''"]
  by (simp_all add: header_value_def)

lemma request_headers:
  assumes "handshake_ok host path ps"
  shows "parseHttpHeaders (tl (request_lines host path ps (generateKey nonce))) =
    [(''host'', host), (''connection'', ''Upgrade''), (''upgrade'', ''websocket''),
     (''sec-websocket-version'', ''13''), (''sec-websocket-key'', generateKey nonce)]
    @ (if ps \<noteq> [] then [(''sec-websocket-protocol'', implode ps (CHR '',''))] else [])"
proof -
  have h: "header_value host" "header_value (generateKey nonce)" "header_value (implode ps (CHR '',''))"
    using assms by (auto simp: handshake_ok_def generateKey_def header_value_base64 header_value_implode)
  then show ?thesis
    using parse_headers(1) [OF h(1)] parse_headers(6) [OF h(2)] parse_headers(8) [OF h(3)] const_headers
    by (simp add: parseHttpHeaders_def request_lines_def protocol_lines_def)
qed

lemma isHttpRequest_GET: "isHttpRequest (''GET '' @ s)"
  by (simp add: isHttpRequest_def)

lemma parseHttpRequest_generated:
  assumes ok: "handshake_ok (mHost c) (mPath c) (mProtocols c)"
    and gen: "generateHttpRequest nonce c = (request, c')"
  shows "parseHttpRequest (request @ rest) s =
    (Inr (length request), s\<lparr>mPath := mPath c, mHost := mHost c, mKey := mKey c',
       mProtocols := (if mProtocols c = [] then mProtocols s else mProtocols c)\<rparr>)"
proof -
  let ?ls = "request_lines (mHost c) (mPath c) (mProtocols c) (generateKey nonce)"
  from gen have r: "request = http_block ?ls" "c' = c\<lparr>mKey := generateKey nonce\<rparr>"
    by (simp_all add: generateHttpRequest_block)
  have lines: "parseHttpLines (request @ rest) = (length request, ?ls)"
    using parseHttpLines_block [OF request_lines_http [OF ok]] r by simp
  obtain tl_ls where tl: "?ls = (''GET '' @ mPath c @ '' HTTP/1.1'') # tl_ls" "tl_ls = tl ?ls"
    by (simp add: request_lines_def)
  have len: "length request \<noteq> 0" by (simp add: r http_block_def)
  have req: "isHttpRequest (request @ rest)"
    using isHttpRequest_GET by (simp add: r request_lines_def)
  have m: "read_word (''GET '' @ mPath c @ '' HTTP/1.1'') = (''GET'', '' '' @ mPath c @ '' HTTP/1.1'')"
    using read_word_token(1) [of "''GET''" "mPath c @ '' HTTP/1.1''"] by (simp add: isspace_def)
  have p: "read_word ('' '' @ mPath c @ '' HTTP/1.1'') = (mPath c, '' HTTP/1.1'')"
    using read_word_token(2) [of "mPath c" "''HTTP/1.1''"] ok by (simp add: handshake_ok_def)
  have e: "explode (implode (mProtocols c) (CHR '','')) (CHR '','') = mProtocols c"
    using ok by (intro explode_implode) (auto simp: handshake_ok_def)
  note hs = request_headers [OF ok, of nonce, folded tl(2)]
  show ?thesis
    by (simp only: parseHttpRequest_def req lines len tl(1) m p hs not_True_eq_False if_False prod.case list.case Let_def)
      (simp add: e r tolower_def char_of_def bit_0)
qed

section \<open>The client accepts what the server answers\<close>

lemma response_lines_http:
  assumes "clean_tokens (CHR '','') ps" "list_all header_value ps"
  shows "list_all http_line (response_lines ps (computeAcceptKey sha1 key))"
  using header_value_base64 header_value_implode [OF assms]
  by (auto simp: response_lines_def http_line_def header_value_def protocol_lines_def computeAcceptKey_def)

lemma status_code_101: "status_code ''HTTP/1.1 101 Switching Protocols'' = 101"
  by (simp add: status_code_def read_word_def read_unsigned_def isspace_def isdigit_def)

lemma response_headers:
  assumes "clean_tokens (CHR '','') ps" "list_all header_value ps"
  shows "parseHttpHeaders (tl (response_lines ps (computeAcceptKey sha1 key))) =
    [(''server'', ''libdatachannel''), (''connection'', ''Upgrade''), (''upgrade'', ''websocket''),
     (''sec-websocket-accept'', computeAcceptKey sha1 key)]
    @ (if ps \<noteq> [] then [(''sec-websocket-protocol'', implode ps (CHR '',''))] else [])"
proof -
  have h: "header_value (computeAcceptKey sha1 key)" "header_value (implode ps (CHR '',''))"
    using assms by (auto simp: computeAcceptKey_def header_value_base64 header_value_implode)
  then show ?thesis
    using parse_headers(7) [OF h(1)] parse_headers(8) [OF h(2)] const_headers
    by (simp add: parseHttpHeaders_def response_lines_def protocol_lines_def)
qed

lemma parseHttpResponse_generated:
  assumes ok: "clean_tokens (CHR '','') (mProtocols s)" "list_all header_value (mProtocols s)"
    and key: "mKey c = mKey s"
  shows "parseHttpResponse sha1 (generateHttpResponse sha1 s @ rest) c =
    Inr (length (generateHttpResponse sha1 s))"
proof -
  let ?ls = "response_lines (mProtocols s) (computeAcceptKey sha1 (mKey s))"
  let ?r = "generateHttpResponse sha1 s"
  have lines: "parseHttpLines (?r @ rest) = (length ?r, ?ls)"
    using parseHttpLines_block [OF response_lines_http [OF ok]] by (simp add: generateHttpResponse_block)
  obtain tl_ls where tl: "?ls = ''HTTP/1.1 101 Switching Protocols'' # tl_ls" "tl_ls = tl ?ls"
    by (simp add: response_lines_def)
  have len: "length ?r \<noteq> 0" by (simp add: generateHttpResponse_block http_block_def)
  note hs = response_headers [OF ok, of sha1 "mKey s", folded tl(2)]
  show ?thesis
    by (simp only: parseHttpResponse_def lines len tl(1) hs status_code_101 not_True_eq_False
        if_False prod.case list.case Let_def)
      (simp add: key tolower_def char_of_def bit_0)
qed

lemma isHttpRequest_prefix: "isHttpRequest (p @ q) \<Longrightarrow> isHttpRequest p"
proof -
  have "isHttpRequest_from i (p @ q) \<Longrightarrow> isHttpRequest_from i p" for i
    by (induction p arbitrary: i) (auto split: if_splits)
  then show "isHttpRequest (p @ q) \<Longrightarrow> isHttpRequest p" by (simp add: isHttpRequest_def)
qed

text \<open>Until the last byte of the header has arrived, both parsers ask for more.\<close>

lemma http_request_prefix:
  assumes "handshake_ok (mHost c) (mPath c) (mProtocols c)" "fst (generateHttpRequest nonce c) = p @ q" "q \<noteq> []"
  shows "parseHttpRequest p s = (Inr 0, s)"
proof -
  let ?ls = "request_lines (mHost c) (mPath c) (mProtocols c) (generateKey nonce)"
  have r: "p @ q = http_block ?ls" using assms(2) by (simp add: generateHttpRequest_block)
  have "isHttpRequest (http_block ?ls)"
    using isHttpRequest_GET by (simp add: request_lines_def)
  then have "isHttpRequest p" using r isHttpRequest_prefix by metis
  moreover have "fst (parseHttpLines p) = 0"
    using parseHttpLines_prefix [OF request_lines_http [OF assms(1)] r assms(3)] .
  ultimately show ?thesis by (cases "parseHttpLines p") (simp add: parseHttpRequest_def)
qed

lemma http_response_prefix:
  assumes "clean_tokens (CHR '','') (mProtocols s)" "list_all header_value (mProtocols s)"
    and "generateHttpResponse sha1 s = p @ q" "q \<noteq> []"
  shows "parseHttpResponse sha1 p c = Inr 0"
proof -
  have "fst (parseHttpLines p) = 0"
    by (rule parseHttpLines_prefix [OF response_lines_http [OF assms(1,2), of sha1 "mKey s"] _ assms(4)])
      (use assms(3) in \<open>simp add: generateHttpResponse_block\<close>)
  then show ?thesis by (cases "parseHttpLines p") (simp add: parseHttpResponse_def)
qed

text \<open>What a client has checked when it accepts a response.\<close>

lemma parseHttpResponse_accepts:
  assumes "parseHttpResponse sha1 buffer h = Inr len" "len > 0"
  obtains status hs upgrade where "parseHttpLines buffer = (len, status # hs)" "status_code status = 101"
    "map_of (parseHttpHeaders hs) ''upgrade'' = Some upgrade" "map tolower upgrade = ''websocket''"
    "map_of (parseHttpHeaders hs) ''sec-websocket-accept'' = Some (computeAcceptKey sha1 (mKey h))"
  using assms
  by (auto simp: parseHttpResponse_def Let_def split: prod.splits list.splits if_splits option.splits)

lemma parseHttpRequest_frame:
  "parseHttpRequest buffer h = (Inr len, h') \<Longrightarrow> len = 0 \<Longrightarrow> h' = h"
  by (auto simp: parseHttpRequest_def Let_def split: prod.splits list.splits if_splits option.splits)

lemma parseHttpRequest_code:
  "parseHttpRequest buffer h = (Inl e, h') \<Longrightarrow> \<exists>msg code. e = RequestError msg code \<and> code \<in> {400, 405, 426}"
  by (auto simp: parseHttpRequest_def Let_def split: prod.splits list.splits if_splits option.splits)

end
