(* ===== verification/Wsc_WsTransport.thy ===== *)
theory Wsc_WsTransport
  imports Wsc_Transport Wsc_WsFrame Wsc_WsHandshake
begin

text \<open>
  The WebSocket transport of \<open>src/impl/wstransport.cpp\<close>: the opening handshake over the lower
  transport, framing and masking of outgoing messages, reassembly of incoming fragments, ping and
  pong, and the closing handshake.

  The environment of the transport is \<open>ws_env\<close>: the methods of the lower transport, SHA-1, and
  the random engine, as the \<open>i\<close>-th byte of its \<open>n\<close>-th draw; \<open>mDraws\<close> counts the draws. Calls that
  may throw return \<open>Inl\<close> of the exception with the state at that point.
\<close>

record 'l ws_env =
  env_ops :: "'l lower_ops"
  env_sha1 :: "binary \<Rightarrow> binary"
  env_random :: "nat \<Rightarrow> nat \<Rightarrow> byte"

record 'l WsTransport = "'l Transport" +
  mHandshake :: WsHandshake
  mIsClient :: bool
  mMaxMessageSize :: nat
  mMaxOutstandingPings :: int
  mBuffer :: binary
  mPartial :: binary
  mPartialOpcode :: Opcode
  mIgnoreLength :: nat
  mOutstandingPings :: int
  mCloseSent :: bool
  mDraws :: nat

definition DEFAULT_WS_MAX_MESSAGE_SIZE :: nat where
  "DEFAULT_WS_MAX_MESSAGE_SIZE = 256 * 1024"

text \<open>
  The constructor. \<open>mPartialOpcode\<close> has no initialiser in the source: its first value is the
  argument \<open>junk\<close>.
\<close>

definition WsTransport_new ::
  "'l \<Rightarrow> bool \<Rightarrow> WsHandshake \<Rightarrow> nat option \<Rightarrow> int option \<Rightarrow> bool \<Rightarrow> Opcode \<Rightarrow> 'l WsTransport" where
  "WsTransport_new lower isActive handshake maxMessageSize maxOutstandingPings callbacks junk =
     Transport.extend ((Transport_new (Some lower) callbacks)\<lparr>mRecvCallback := callbacks\<rparr>)
       (WsTransport.fields handshake isActive
          (case maxMessageSize of Some n \<Rightarrow> n | None \<Rightarrow> DEFAULT_WS_MAX_MESSAGE_SIZE)
          (case maxOutstandingPings of Some n \<Rightarrow> n | None \<Rightarrow> 0)
          [] [] junk 0 0 False 0)"

definition draw :: "'l ws_env \<Rightarrow> nat \<Rightarrow> 'l WsTransport \<Rightarrow> binary \<times> 'l WsTransport" where
  "draw E n t = (map (env_random E (mDraws t)) [0..<n], t\<lparr>mDraws := mDraws t + 1\<rparr>)"

definition WsTransport_sendFrame ::
  "'l ws_env \<Rightarrow> binary Frame \<Rightarrow> 'l WsTransport \<Rightarrow> bool res \<times> binary \<times> 'l WsTransport" where
  "WsTransport_sendFrame E frame t =
     (let (maskingKey, t) = (if frame_mask frame then draw E 4 t else ([], t));
          message = make_message (encodeFrame maskingKey frame) Binary;
          (r, t) = Transport_outgoing (env_ops E) (Some message) t
      in (r, sent_payload maskingKey frame, t))"

abbreviation mk_frame :: "Opcode \<Rightarrow> binary \<Rightarrow> bool \<Rightarrow> binary Frame" where
  "mk_frame op p m \<equiv> \<lparr>opcode = op, payload = p, frame_length = length p, fin = True, frame_mask = m\<rparr>"

definition WsTransport_send ::
  "'l ws_env \<Rightarrow> message_ptr \<Rightarrow> 'l WsTransport \<Rightarrow> bool res \<times> 'l WsTransport" where
  "WsTransport_send E message t =
     (if mState t \<noteq> Connected then (Inl (runtime_error ''WebSocket is not open''), t)
      else case message of
        None \<Rightarrow> (Inr False, t)
      | Some m \<Rightarrow>
          (case WsTransport_sendFrame E
                  (mk_frame (if type m = String then TEXT_FRAME else BINARY_FRAME) (data m) (mIsClient t)) t
           of (r, _, t) \<Rightarrow> (r, t)))"

definition WsTransport_close :: "'l ws_env \<Rightarrow> 'l WsTransport \<Rightarrow> 'l WsTransport" where
  "WsTransport_close E t =
     (if mState t \<noteq> Connected then t
      else if mCloseSent t then t
      else
        (case WsTransport_sendFrame E (mk_frame CLOSE [] (mIsClient t)) (t\<lparr>mCloseSent := True\<rparr>) of
           (Inl e, _, t) \<Rightarrow> Transport_changeState Disconnected t
         | (Inr _, _, t) \<Rightarrow> schedule_in 10 t))"

text \<open>The task that \<open>close\<close> schedules, run if the transport still exists.\<close>

definition WsTransport_closeTimeout :: "'l WsTransport \<Rightarrow> 'l WsTransport" where
  "WsTransport_closeTimeout t = Transport_changeState Disconnected t"

definition WsTransport_stop :: "'l ws_env \<Rightarrow> 'l WsTransport \<Rightarrow> 'l WsTransport" where
  "WsTransport_stop E t = WsTransport_close E t"

definition WsTransport_sendHttpRequest :: "'l ws_env \<Rightarrow> 'l WsTransport \<Rightarrow> bool res \<times> 'l WsTransport" where
  "WsTransport_sendHttpRequest E t =
     (let (nonce, t) = draw E 16 t;
          (request, h) = generateHttpRequest nonce (mHandshake t);
          t = t\<lparr>mHandshake := h\<rparr>
      in Transport_outgoing (env_ops E) (Some (make_message (bytes_of_string request) Binary)) t)"

definition WsTransport_sendHttpResponse :: "'l ws_env \<Rightarrow> 'l WsTransport \<Rightarrow> bool res \<times> 'l WsTransport" where
  "WsTransport_sendHttpResponse E t =
     (let response = generateHttpResponse (env_sha1 E) (mHandshake t)
      in Transport_outgoing (env_ops E) (Some (make_message (bytes_of_string response) Binary)) t)"

definition WsTransport_sendHttpError :: "'l ws_env \<Rightarrow> nat \<Rightarrow> 'l WsTransport \<Rightarrow> bool res \<times> 'l WsTransport" where
  "WsTransport_sendHttpError E code t =
     Transport_outgoing (env_ops E)
       (Some (make_message (bytes_of_string (generateHttpError code)) Binary)) t"

definition WsTransport_start :: "'l ws_env \<Rightarrow> 'l WsTransport \<Rightarrow> unit res \<times> 'l WsTransport" where
  "WsTransport_start E t =
     (let t = Transport_registerIncoming (env_ops E) t;
          t = Transport_changeState Connecting t
      in if mIsClient t then
           (case WsTransport_sendHttpRequest E t of
              (Inl e, t) \<Rightarrow> (Inl e, t) | (Inr _, t) \<Rightarrow> (Inr (), t))
         else (Inr (), t))"

definition WsTransport_addOutstandingPing :: "'l WsTransport \<Rightarrow> 'l WsTransport" where
  "WsTransport_addOutstandingPing t =
     (let t = t\<lparr>mOutstandingPings := mOutstandingPings t + 1\<rparr>
      in if mMaxOutstandingPings t > 0 \<and> mOutstandingPings t > mMaxOutstandingPings t
         then Transport_changeState Failed t else t)"

abbreviation frame_type :: "Opcode \<Rightarrow> Type" where
  "frame_type op \<equiv> (if op = TEXT_FRAME then String else Binary)"

text \<open>
  The handler of one frame, whose payload lies in \<open>mBuffer\<close>. Answering a ping masks that part of
  the buffer in place when the transport is a client.
\<close>

definition WsTransport_recvFrame ::
  "'l ws_env \<Rightarrow> nat Frame \<Rightarrow> 'l WsTransport \<Rightarrow> unit res \<times> 'l WsTransport" where
  "WsTransport_recvFrame E frame t =
     (let p = take (frame_length frame) (drop (payload frame) (mBuffer t))
      in if opcode frame = TEXT_FRAME \<or> opcode frame = BINARY_FRAME then
           (let size = (if frame_length frame > mMaxMessageSize t then mMaxMessageSize t else frame_length frame);
                t = (if mPartial t \<noteq> [] then
                       (Transport_recv (Some (make_message (mPartial t) (frame_type (mPartialOpcode t)))) t)
                         \<lparr>mPartial := []\<rparr>
                     else t);
                t = t\<lparr>mPartialOpcode := opcode frame\<rparr>
            in if fin frame then
                 (Inr (), Transport_recv (Some (make_message (take size p) (frame_type (opcode frame)))) t)
               else (Inr (), t\<lparr>mPartial := mPartial t @ take size p\<rparr>))
         else if opcode frame = CONTINUATION then
           (let t = t\<lparr>mPartial := mPartial t @ p\<rparr>;
                t = (if length (mPartial t) > mMaxMessageSize t
                     then t\<lparr>mPartial := take (mMaxMessageSize t) (mPartial t)\<rparr> else t)
            in if fin frame then
                 (Inr (), (Transport_recv (Some (make_message (mPartial t) (frame_type (mPartialOpcode t)))) t)
                            \<lparr>mPartial := []\<rparr>)
               else (Inr (), t))
         else if opcode frame = PING then
           (case WsTransport_sendFrame E (mk_frame PONG p (mIsClient t)) t of
              (r, p', t) \<Rightarrow>
                (map_sum id (\<lambda>_. ()) r,
                 t\<lparr>mBuffer := take (payload frame) (mBuffer t) @ p'
                             @ drop (payload frame + frame_length frame) (mBuffer t)\<rparr>))
         else if opcode frame = PONG then (Inr (), t\<lparr>mOutstandingPings := 0\<rparr>)
         else if opcode frame = CLOSE then
           (Inr (), Transport_changeState Disconnected (WsTransport_close E t))
         else (Inr (), WsTransport_close E t))"

section \<open>What sending keeps\<close>

lemma Transport_outgoing_ws:
  fixes t :: "'l WsTransport"
  assumes "Transport_outgoing ops m t = (r, t')"
  shows "\<exists>l. t' = t\<lparr>mLower := l\<rparr>"
  using assms
  by (auto simp: Transport_outgoing_def split: option.splits prod.splits intro: exI [of _ "mLower t"])

text \<open>Sending changes the lower transport and the number of draws, and nothing else.\<close>

lemma WsTransport_sendFrame_frame:
  assumes "WsTransport_sendFrame E f t = (r, p, t')"
  shows "\<exists>l n. t' = t\<lparr>mDraws := n, mLower := l\<rparr>" "length p = length (payload f)"
proof -
  obtain key t1 where d: "(if frame_mask f then draw E 4 t else ([], t)) = (key, t1)" by fastforce
  then have t1: "\<exists>n. t1 = t\<lparr>mDraws := n\<rparr>"
    by (auto simp: draw_def split: if_splits intro: exI [of _ "mDraws t"])
  obtain r2 t2 where o: "Transport_outgoing (env_ops E) (Some (make_message (encodeFrame key f) Binary)) t1 = (r2, t2)"
    by fastforce
  from assms d o have r: "r = r2" "p = sent_payload key f" "t' = t2"
    by (auto simp: WsTransport_sendFrame_def Let_def)
  from Transport_outgoing_ws [OF o] t1 r(3) show "\<exists>l n. t' = t\<lparr>mDraws := n, mLower := l\<rparr>"
    by auto
  from r(2) show "length p = length (payload f)" by simp
qed

lemma WsTransport_close_frame:
  "\<exists>l n s c tr. WsTransport_close E t = t\<lparr>mCloseSent := c, mDraws := n, mLower := l, mState := s, trace := tr\<rparr>"
proof (cases "mState t \<noteq> Connected \<or> mCloseSent t")
  case True
  then have "WsTransport_close E t = t" by (auto simp: WsTransport_close_def)
  then have "WsTransport_close E t = t\<lparr>mCloseSent := mCloseSent t, mDraws := mDraws t, mLower := mLower t,
      mState := mState t, trace := trace t\<rparr>" by simp
  then show ?thesis by blast
next
  case False
  let ?t = "t\<lparr>mCloseSent := True\<rparr>"
  obtain r p t' where s: "WsTransport_sendFrame E (mk_frame CLOSE [] (mIsClient t)) ?t = (r, p, t')"
    by (metis prod_cases3)
  obtain l n where t': "t' = ?t\<lparr>mDraws := n, mLower := l\<rparr>" using WsTransport_sendFrame_frame(1) [OF s] by blast
  have "WsTransport_close E t = (case r of Inl e \<Rightarrow> Transport_changeState Disconnected t' | Inr _ \<Rightarrow> schedule_in 10 t')"
    using False s by (simp add: WsTransport_close_def split: sum.splits)
  then have "\<exists>s tr. WsTransport_close E t = t'\<lparr>mState := s, trace := tr\<rparr>"
    using Transport_changeState_eq [of Disconnected t'] schedule_in_eq [of 10 t']
    by (cases r) (metis sum.case)+
  then show ?thesis unfolding t' by blast
qed

lemma WsTransport_close_buffer [simp]: "mBuffer (WsTransport_close E t) = mBuffer t"
  using WsTransport_close_frame [of E t] by auto

lemma WsTransport_recvFrame_buffer:
  assumes "payload f + frame_length f \<le> length (mBuffer t)"
  shows "length (mBuffer (snd (WsTransport_recvFrame E f t))) = length (mBuffer t)"
proof (cases "opcode f = PING")
  case True
  let ?p = "take (frame_length f) (drop (payload f) (mBuffer t))"
  obtain r p' t' where s: "WsTransport_sendFrame E (mk_frame PONG ?p (mIsClient t)) t = (r, p', t')"
    by (metis prod_cases3)
  note fr = WsTransport_sendFrame_frame [OF s]
  from fr(1) have "mBuffer t' = mBuffer t" by auto
  with True s fr(2) assms show ?thesis by (simp add: WsTransport_recvFrame_def)
next
  case False
  then show ?thesis by (simp add: WsTransport_recvFrame_def Let_def Transport_recv_def Transport_changeState_def)
qed

section \<open>Receiving\<close>

text \<open>The loop over the frames in the buffer.\<close>

function WsTransport_frames :: "'l ws_env \<Rightarrow> 'l WsTransport \<Rightarrow> unit res \<times> 'l WsTransport" where
  "WsTransport_frames E t =
     (case parseFrame (mMaxMessageSize t) (mBuffer t) of
        None \<Rightarrow> (Inr (), t)
      | Some (len, frame, buffer) \<Rightarrow>
          let t = t\<lparr>mBuffer := buffer\<rparr>
          in if len = 0 then (Inr (), t)
             else case WsTransport_recvFrame E frame t of
               (Inl e, t) \<Rightarrow> (Inl e, t)
             | (Inr _, t) \<Rightarrow>
                 if len > length (mBuffer t)
                 then (Inr (), t\<lparr>mIgnoreLength := len - length (mBuffer t), mBuffer := []\<rparr>)
                 else WsTransport_frames E (t\<lparr>mBuffer := drop len (mBuffer t)\<rparr>))"
  by pat_completeness auto
termination
proof (relation "measure (\<lambda>(E, t). length (mBuffer t))", goal_cases)
  case (2 E t x len y frame buffer u r t' v)
  let ?u = "t\<lparr>mBuffer := buffer\<rparr>"
  have p: "parseFrame (mMaxMessageSize t) (mBuffer t) = Some (len, frame, buffer)" using 2 by simp
  have "WsTransport_recvFrame E frame ?u = (Inr (), t')" using 2 by simp
  then have "length (mBuffer t') = length (mBuffer (snd (WsTransport_recvFrame E frame ?u)))" by simp
  also have "\<dots> = length (mBuffer t)"
    using parseFrame_bounds(1,2) [OF p] by (simp add: WsTransport_recvFrame_buffer)
  finally show ?case using 2 by simp
qed simp

declare WsTransport_frames.simps [simp del]

text \<open>The opening handshake, tried on the bytes received so far.\<close>

definition WsTransport_handshake :: "'l ws_env \<Rightarrow> 'l WsTransport \<Rightarrow> unit res \<times> 'l WsTransport" where
  "WsTransport_handshake E t =
     (if mState t \<noteq> Connecting then (Inr (), t)
      else if mIsClient t then
        (case parseHttpResponse (env_sha1 E) (string_of_bytes (mBuffer t)) (mHandshake t) of
           Inl e \<Rightarrow> (Inl e, t)
         | Inr len \<Rightarrow>
             if len = 0 then (Inr (), t)
             else (Inr (), (Transport_changeState Connected t)\<lparr>mBuffer := drop len (mBuffer t)\<rparr>))
      else
        (case parseHttpRequest (string_of_bytes (mBuffer t)) (mHandshake t) of
           (Inl e, h) \<Rightarrow> (Inl e, t\<lparr>mHandshake := h\<rparr>)
         | (Inr len, h) \<Rightarrow>
             let t = t\<lparr>mHandshake := h\<rparr>
             in if len = 0 then (Inr (), t)
                else case WsTransport_sendHttpResponse E t of
                  (Inl e, t) \<Rightarrow> (Inl e, t)
                | (Inr _, t) \<Rightarrow>
                    (Inr (), (Transport_changeState Connected t)\<lparr>mBuffer := drop len (mBuffer t)\<rparr>)))"

text \<open>What is done with the buffer once the transport is connected.\<close>

definition WsTransport_stream :: "'l ws_env \<Rightarrow> bool \<Rightarrow> 'l WsTransport \<Rightarrow> unit res \<times> 'l WsTransport" where
  "WsTransport_stream E idle t =
     (if mState t \<noteq> Connected then (Inr (), t)
      else if idle then
        (case WsTransport_sendFrame E (mk_frame PING [0, 0, 0, 0] (mIsClient t)) t of
           (Inl e, _, t) \<Rightarrow> (Inl e, t)
         | (Inr _, _, t) \<Rightarrow> (Inr (), WsTransport_addOutstandingPing t))
      else
        let t = (if mIgnoreLength t > 0 then
                   (let len = min (mIgnoreLength t) (length (mBuffer t))
                    in t\<lparr>mBuffer := drop len (mBuffer t), mIgnoreLength := mIgnoreLength t - len\<rparr>)
                 else t)
        in if mIgnoreLength t = 0 then WsTransport_frames E t else (Inr (), t))"

text \<open>The body of the \<open>try\<close> block of \<open>incoming\<close>.\<close>

definition WsTransport_incoming_try :: "'l ws_env \<Rightarrow> Message \<Rightarrow> 'l WsTransport \<Rightarrow> unit res \<times> 'l WsTransport" where
  "WsTransport_incoming_try E message t =
     (case WsTransport_handshake E (t\<lparr>mBuffer := mBuffer t @ data message\<rparr>) of
        (Inl e, t) \<Rightarrow> (Inl e, t)
      | (Inr _, t) \<Rightarrow> WsTransport_stream E (length (data message) = 0) t)"

text \<open>What \<open>incoming\<close> does after an exception or on the end of the stream.\<close>

definition WsTransport_incoming_end :: "'l WsTransport \<Rightarrow> 'l WsTransport" where
  "WsTransport_incoming_end t =
     (if mState t = Connected
      then Transport_recv None (Transport_changeState Disconnected t)
      else Transport_changeState Failed t)"

definition WsTransport_incoming :: "'l ws_env \<Rightarrow> message_ptr \<Rightarrow> 'l WsTransport \<Rightarrow> 'l WsTransport" where
  "WsTransport_incoming E message t =
     (if mState t \<noteq> Connecting \<and> mState t \<noteq> Connected then t
      else case message of
        None \<Rightarrow> WsTransport_incoming_end t
      | Some m \<Rightarrow>
          (case WsTransport_incoming_try E m t of
             (Inr _, t) \<Rightarrow> t
           | (Inl e, t) \<Rightarrow>
               (case e of
                  RequestError _ code \<Rightarrow> WsTransport_incoming_end (snd (WsTransport_sendHttpError E code t))
                | _ \<Rightarrow> WsTransport_incoming_end t)))"

section \<open>A frame is handled independently of what surrounds it in the buffer\<close>

lemma WsTransport_sendFrame_mBuffer:
  "WsTransport_sendFrame E f (t\<lparr>mBuffer := b\<rparr>) =
     (case WsTransport_sendFrame E f t of (r, p, u) \<Rightarrow> (r, p, u\<lparr>mBuffer := b\<rparr>))"
  by (simp add: WsTransport_sendFrame_def draw_def Transport_outgoing_def split: prod.splits option.splits)

lemma Transport_changeState_mBuffer:
  "Transport_changeState s (t\<lparr>mBuffer := b\<rparr>) = (Transport_changeState s t)\<lparr>mBuffer := b\<rparr>"
  by (simp add: Transport_changeState_def)

lemma Transport_recv_mBuffer: "Transport_recv m (t\<lparr>mBuffer := b\<rparr>) = (Transport_recv m t)\<lparr>mBuffer := b\<rparr>"
  by (simp add: Transport_recv_def)

lemma WsTransport_close_mBuffer: "WsTransport_close E (t\<lparr>mBuffer := b\<rparr>) = (WsTransport_close E t)\<lparr>mBuffer := b\<rparr>"
  by (simp add: WsTransport_close_def WsTransport_sendFrame_def draw_def Transport_outgoing_def
      Transport_changeState_def schedule_in_def split: prod.splits option.splits sum.splits)

lemmas mBuffer_commute = WsTransport_sendFrame_mBuffer Transport_changeState_mBuffer
  Transport_recv_mBuffer WsTransport_close_mBuffer

text \<open>The frame with its payload, taken out of the buffer: what the handler does with it.\<close>

definition WsTransport_handle :: "'l ws_env \<Rightarrow> binary Frame \<Rightarrow> 'l WsTransport \<Rightarrow> unit res \<times> 'l WsTransport" where
  "WsTransport_handle E f t =
     WsTransport_recvFrame E \<lparr>opcode = opcode f, payload = 0, frame_length = frame_length f, fin = fin f,
                              frame_mask = frame_mask f\<rparr> (t\<lparr>mBuffer := payload f\<rparr>)"

lemma WsTransport_recvFrame_local:
  assumes "frame_length f = length (payload f)" "a = length h"
  shows "WsTransport_recvFrame E \<lparr>opcode = opcode f, payload = a, frame_length = frame_length f, fin = fin f,
                              frame_mask = frame_mask f\<rparr> (t\<lparr>mBuffer := h @ payload f @ rest\<rparr>) =
     (case WsTransport_handle E f t of (r, u) \<Rightarrow> (r, u\<lparr>mBuffer := h @ mBuffer u @ rest\<rparr>))"
  using assms
  by (simp add: WsTransport_handle_def WsTransport_recvFrame_def Let_def mBuffer_commute
      Transport_changeState_def Transport_recv_def split: prod.splits)

end
