(* ===== verification/Wsc_WsReceive.thy ===== *)
theory Wsc_WsReceive
  imports Wsc_WsTransport
begin

text \<open>
  What \<open>WsTransport::incoming\<close> makes of a stream of frames: however the lower transport cuts the
  stream into chunks, every frame is handled once and in order, and the messages handed to the
  owner are the ones that RFC 6455 assigns to the sequence of frames.
\<close>

section \<open>The frame loop on encoded frames\<close>

type_synonym keyed_frame = "binary \<times> binary Frame"

abbreviation enc :: "keyed_frame \<Rightarrow> binary" where
  "enc kf \<equiv> encodeFrame (fst kf) (snd kf)"

definition frame_ok :: "nat \<Rightarrow> keyed_frame \<Rightarrow> bool" where
  "frame_ok m kf \<longleftrightarrow> length (fst kf) = 4 \<and> wf_frame (snd kf)
     \<and> frame_length (snd kf) \<le> max maxControlFrameLength m"

lemma WsTransport_handle_mBuffer [simp]: "WsTransport_handle E f (t\<lparr>mBuffer := b\<rparr>) = WsTransport_handle E f t"
  by (simp add: WsTransport_handle_def)

lemma WsTransport_handle_length:
  "frame_length f = length (payload f) \<Longrightarrow> length (mBuffer (snd (WsTransport_handle E f t))) = length (payload f)"
  by (simp add: WsTransport_handle_def WsTransport_recvFrame_buffer)

lemma WsTransport_frames_encoded:
  assumes ok: "frame_ok (mMaxMessageSize t) kf" and h: "WsTransport_handle E (snd kf) t = (Inr (), u)"
  shows "WsTransport_frames E (t\<lparr>mBuffer := enc kf @ rest\<rparr>) = WsTransport_frames E (u\<lparr>mBuffer := rest\<rparr>)"
proof -
  obtain k f where kf: "kf = (k, f)" by fastforce
  let ?n = "length (encodeFrame k f)"
  let ?fr = "\<lparr>opcode = opcode f, payload = header_size f, frame_length = frame_length f,
           fin = fin f, frame_mask = frame_mask f\<rparr>"
  have k: "length k = 4" and wf: "wf_frame f" "frame_length f \<le> max maxControlFrameLength (mMaxMessageSize t)"
    using ok by (simp_all add: frame_ok_def kf)
  note parse = parseFrame_encodeFrame [OF k wf, of rest]
  have hs: "header_size f = length (frame_header k f)" by (simp add: length_frame_header [OF k])
  have len: "frame_length f = length (payload f)" using wf by (simp add: wf_frame_def)
  have recv: "WsTransport_recvFrame E ?fr (t\<lparr>mBuffer := frame_header k f @ payload f @ rest\<rparr>) =
      (Inr (), u\<lparr>mBuffer := frame_header k f @ mBuffer u @ rest\<rparr>)"
    using WsTransport_recvFrame_local [OF len hs, of E rest t] h by (simp add: kf)
  have lu: "length (mBuffer u) = length (payload f)"
    using WsTransport_handle_length [OF len, of E t] h by (simp add: kf)
  have n: "?n = length (frame_header k f) + length (payload f)" by (simp add: encodeFrame_def)
  have "frame_header k f \<noteq> []" by (simp add: frame_header_def Let_def)
  then show ?thesis
    by (subst WsTransport_frames.simps) (simp add: kf parse recv n lu Let_def)
qed

lemma WsTransport_frames_None:
  "parseFrame (mMaxMessageSize t) (mBuffer t) = None \<Longrightarrow> WsTransport_frames E t = (Inr (), t)"
  by (subst WsTransport_frames.simps) simp

section \<open>Cutting a stream into chunks\<close>

lemma stream_split:
  assumes "a @ b = concat (map enc kfs)"
  obtains k1 k2 r where "kfs = k1 @ k2" "a = concat (map enc k1) @ r" "r @ b = concat (map enc k2)"
    "r = [] \<or> (\<exists>q. k2 \<noteq> [] \<and> q \<noteq> [] \<and> r @ q = enc (hd k2))"
proof -
  have "\<exists>k1 k2 r. kfs = k1 @ k2 \<and> a = concat (map enc k1) @ r \<and> r @ b = concat (map enc k2) \<and>
    (r = [] \<or> (\<exists>q. k2 \<noteq> [] \<and> q \<noteq> [] \<and> r @ q = enc (hd k2)))" using assms
  proof (induction kfs arbitrary: a)
    case Nil
    then show ?case by auto
  next
    case (Cons kf kfs)
    show ?case
    proof (cases "length (enc kf) \<le> length a")
      case True
      with Cons.prems prefix_split [of a b "enc kf"]
      obtain a' where "a = enc kf @ a'" by auto
      with Cons.prems have a': "a = enc kf @ a'" "a' @ b = concat (map enc kfs)" by simp_all
      from Cons.IH [OF a'(2)] obtain k1 k2 r where *: "kfs = k1 @ k2" "a' = concat (map enc k1) @ r"
        "r @ b = concat (map enc k2)" "r = [] \<or> (\<exists>q. k2 \<noteq> [] \<and> q \<noteq> [] \<and> r @ q = enc (hd k2))" by blast
      have "kf # kfs = (kf # k1) @ k2" "a = concat (map enc (kf # k1)) @ r" using * a' by simp_all
      with *(3,4) show ?thesis by blast
    next
      case False
      have "enc kf @ concat (map enc kfs) = a @ b" using Cons.prems by simp
      from prefix_split [OF this] False obtain q where "a @ q = enc kf" "q \<noteq> []"
        by (metis append_self_conv le_cases)
      then have "kf # kfs = [] @ kf # kfs" "a = concat (map enc []) @ a" "a @ b = concat (map enc (kf # kfs))"
        "\<exists>q. kf # kfs \<noteq> [] \<and> q \<noteq> [] \<and> a @ q = enc (hd (kf # kfs))"
        using Cons.prems by auto
      then show ?thesis by blast
    qed
  qed
  then show thesis using that by blast
qed

lemma incomplete_parse:
  assumes "list_all (frame_ok m) kfs" "r = [] \<or> (\<exists>q. kfs \<noteq> [] \<and> q \<noteq> [] \<and> r @ q = enc (hd kfs))"
  shows "parseFrame m r = None"
  using assms(2)
proof
  assume "\<exists>q. kfs \<noteq> [] \<and> q \<noteq> [] \<and> r @ q = enc (hd kfs)"
  then obtain q where q: "kfs \<noteq> []" "q \<noteq> []" "r @ q = enc (hd kfs)" by blast
  then have "frame_ok m (hd kfs)" using assms(1) by (cases kfs) auto
  with q parseFrame_prefix [of "fst (hd kfs)" "snd (hd kfs)" m r q] show ?thesis by (simp add: frame_ok_def)
qed (simp add: parseFrame_def)

text \<open>Handing the chunks of a stream to \<open>incoming\<close>, one after the other.\<close>

definition WsTransport_feed :: "'l ws_env \<Rightarrow> binary list \<Rightarrow> 'l WsTransport \<Rightarrow> 'l WsTransport" where
  "WsTransport_feed E cs t = fold (\<lambda>c. WsTransport_incoming E (Some (make_message c Binary))) cs t"

lemma WsTransport_incoming_data:
  assumes "mState t = Connected" "mIgnoreLength t = 0" "c \<noteq> []"
    and "WsTransport_frames E (t\<lparr>mBuffer := mBuffer t @ c\<rparr>) = (Inr (), u)"
  shows "WsTransport_incoming E (Some (make_message c Binary)) t = u"
  using assms
  by (simp add: WsTransport_incoming_def WsTransport_incoming_try_def WsTransport_handshake_def
      WsTransport_stream_def)

section \<open>The messages of a sequence of frames\<close>

text \<open>
  RFC 6455, section 5.4: a message is one final data frame, or a data frame that is not final
  followed by continuation frames of which the last is final; control frames may come in between.
  \<open>reassemble m pending frames\<close> is the list of complete messages and the message that is still
  unfinished; \<open>None\<close> if the sequence violates these rules, if a message is larger than \<open>m\<close> bytes or
  a control frame larger than 125, or if it has a frame that closes the connection.
\<close>

fun reassemble :: "nat \<Rightarrow> (Type \<times> binary) option \<Rightarrow> binary Frame list
    \<Rightarrow> ((Type \<times> binary) list \<times> (Type \<times> binary) option) option" where
  "reassemble m pending [] = Some ([], pending)"
| "reassemble m pending (f # fs) =
     (if opcode f \<in> {PING, PONG} then
        (if length (payload f) \<le> maxControlFrameLength then reassemble m pending fs else None)
      else
        let next = (case pending of
            None \<Rightarrow> if opcode f \<in> {TEXT_FRAME, BINARY_FRAME} then Some (frame_type (opcode f), payload f) else None
          | Some (ty, p) \<Rightarrow> if opcode f = CONTINUATION then Some (ty, p @ payload f) else None)
        in case next of
             None \<Rightarrow> None
           | Some (ty, p) \<Rightarrow>
               if length p > m then None
               else if fin f then map_option (\<lambda>(ms, q). ((ty, p) # ms, q)) (reassemble m None fs)
               else reassemble m (Some (ty, p)) fs)"

lemma reassemble_append:
  "reassemble m pend (a @ b) = Some (ms, q) \<Longrightarrow>
   \<exists>ms1 ms2 p. reassemble m pend a = Some (ms1, p) \<and> reassemble m p b = Some (ms2, q) \<and> ms = ms1 @ ms2"
proof (induction m pend a arbitrary: ms rule: reassemble.induct)
  case (2 m pend f fs)
  then show ?case
    by (fastforce simp: Let_def split: if_splits option.splits prod.splits)
qed auto

text \<open>The bytes of the pongs that answer the pings among the frames, from the \<open>n\<close>-th draw on.\<close>

definition mask_key :: "'l ws_env \<Rightarrow> bool \<Rightarrow> nat \<Rightarrow> binary" where
  "mask_key E masked n = (if masked then map (env_random E n) [0..<4] else [])"

fun pongs :: "'l ws_env \<Rightarrow> bool \<Rightarrow> nat \<Rightarrow> binary Frame list \<Rightarrow> binary" where
  "pongs E client n [] = []"
| "pongs E client n (f # fs) =
     (if opcode f = PING then
        encodeFrame (mask_key E client n) (mk_frame PONG (payload f) client)
        @ pongs E client (if client then n + 1 else n) fs
      else pongs E client n fs)"

definition pending_rel :: "(Type \<times> binary) option \<Rightarrow> 'l WsTransport \<Rightarrow> bool" where
  "pending_rel pending t \<longleftrightarrow> (case pending of None \<Rightarrow> mPartial t = []
     | Some (ty, p) \<Rightarrow> mPartial t = p \<and> frame_type (mPartialOpcode t) = ty)"

lemma pending_rel_cong:
  "mPartial u = mPartial t \<Longrightarrow> mPartialOpcode u = mPartialOpcode t \<Longrightarrow> pending_rel pend u = pending_rel pend t"
  by (simp add: pending_rel_def split: option.splits)

definition message_of :: "Type \<times> binary \<Rightarrow> message_ptr" where
  "message_of = (\<lambda>(ty, p). Some (make_message p ty))"

fun handle_all :: "'l ws_env \<Rightarrow> binary Frame list \<Rightarrow> 'l WsTransport \<Rightarrow> 'l WsTransport" where
  "handle_all E [] t = t"
| "handle_all E (f # fs) t = handle_all E fs (snd (WsTransport_handle E f t))"

lemma handle_all_append: "handle_all E (a @ b) t = handle_all E b (handle_all E a t)"
  by (induction a arbitrary: t) auto

definition open_with :: "('l \<Rightarrow> bool) \<Rightarrow> 'l WsTransport \<Rightarrow> bool" where
  "open_with usable t \<longleftrightarrow> mState t = Connected \<and> (\<exists>l. mLower t = Some l \<and> usable l)"

definition stream_frame :: "binary Frame \<Rightarrow> bool" where
  "stream_frame f \<longleftrightarrow> opcode f \<in> {CONTINUATION, TEXT_FRAME, BINARY_FRAME, PING, PONG}
     \<and> frame_length f = length (payload f)"

context byte_stream
begin

lemma sendFrame_open:
  assumes "env_ops E = ops" "mLower t = Some l" "usable l"
    and k: "k = mask_key E (frame_mask f) (mDraws t)" and n: "n = (if frame_mask f then mDraws t + 1 else mDraws t)"
  shows "\<exists>b l'. WsTransport_sendFrame E f t = (Inr b, sent_payload k f, t\<lparr>mDraws := n, mLower := Some l'\<rparr>)
    \<and> usable l' \<and> sent l' = sent l @ encodeFrame k f"
proof -
  let ?m = "make_message (encodeFrame k f) Binary"
  have "mLower (t\<lparr>mDraws := n\<rparr>) = Some l" using assms by simp
  from outgoing_accepts [OF this assms(3), of ?m] obtain b l' where
    o: "Transport_outgoing ops (Some ?m) (t\<lparr>mDraws := n\<rparr>) = (Inr b, t\<lparr>mDraws := n, mLower := Some l'\<rparr>)"
      "usable l'" "sent l' = sent l @ encodeFrame k f" by auto
  have "(if frame_mask f then draw E 4 t else ([], t)) = (k, t\<lparr>mDraws := n\<rparr>)"
    by (simp add: k n draw_def mask_key_def)
  then have "WsTransport_sendFrame E f t = (Inr b, sent_payload k f, t\<lparr>mDraws := n, mLower := Some l'\<rparr>)"
    using o(1) assms(1) by (simp add: WsTransport_sendFrame_def)
  with o show ?thesis by blast
qed

lemma handle_ping:
  assumes "env_ops E = ops" "open_with usable t" "opcode f = PING" "frame_length f = length (payload f)"
  obtains u where "WsTransport_handle E f t = (Inr (), u)" "open_with usable u"
    "sent (the (mLower u)) @ pongs E (mIsClient t) (mDraws u) fs = sent (the (mLower t)) @ pongs E (mIsClient t) (mDraws t) (f # fs)"
    "\<exists>n l b. u = t\<lparr>mDraws := n, mLower := l, mBuffer := b\<rparr>"
proof -
  let ?c = "mIsClient t"
  let ?k = "mask_key E ?c (mDraws t)"
  let ?n = "if ?c then mDraws t + 1 else mDraws t"
  let ?f = "mk_frame PONG (payload f) ?c"
  let ?t = "t\<lparr>mBuffer := payload f\<rparr>"
  from assms(2) obtain l where l: "mLower ?t = Some l" "usable l" by (auto simp: open_with_def)
  have "?k = mask_key E (frame_mask ?f) (mDraws ?t)" "?n = (if frame_mask ?f then mDraws ?t + 1 else mDraws ?t)"
    by simp_all
  from sendFrame_open [OF assms(1) l this]
  obtain b l' where s: "WsTransport_sendFrame E ?f ?t = (Inr b, sent_payload ?k ?f, ?t\<lparr>mDraws := ?n, mLower := Some l'\<rparr>)"
    "usable l'" "sent l' = sent l @ encodeFrame ?k ?f" by blast
  define u where "u = t\<lparr>mDraws := ?n, mLower := Some l', mBuffer := sent_payload ?k ?f\<rparr>"
  have "WsTransport_handle E f t = (Inr (), u)"
    using s(1) assms(3,4) by (simp add: WsTransport_handle_def WsTransport_recvFrame_def u_def Let_def)
  moreover have "open_with usable u" using s(2) assms(2) by (simp add: u_def open_with_def)
  moreover have "sent (the (mLower u)) @ pongs E (mIsClient t) (mDraws u) fs = sent (the (mLower t)) @ pongs E (mIsClient t) (mDraws t) (f # fs)"
    using s(3) l(1) assms(3) by (simp add: u_def)
  ultimately show thesis using that u_def by blast
qed

end

text \<open>The frames that carry data, and pongs, do not touch the lower transport.\<close>

lemma recv_ws_simps [simp]:
  fixes t :: "'l WsTransport"
  shows "mHandshake (Transport_recv m t) = mHandshake t" "mIsClient (Transport_recv m t) = mIsClient t"
    "mMaxMessageSize (Transport_recv m t) = mMaxMessageSize t"
    "mMaxOutstandingPings (Transport_recv m t) = mMaxOutstandingPings t"
    "mBuffer (Transport_recv m t) = mBuffer t" "mPartial (Transport_recv m t) = mPartial t"
    "mPartialOpcode (Transport_recv m t) = mPartialOpcode t" "mIgnoreLength (Transport_recv m t) = mIgnoreLength t"
    "mOutstandingPings (Transport_recv m t) = mOutstandingPings t" "mCloseSent (Transport_recv m t) = mCloseSent t"
    "mDraws (Transport_recv m t) = mDraws t"
  by (simp_all add: Transport_recv_def)

lemma handle_quiet:
  assumes "opcode f \<in> {CONTINUATION, TEXT_FRAME, BINARY_FRAME, PONG}"
  shows "fst (WsTransport_handle E f t) = Inr ()"
    "\<And>u. u = snd (WsTransport_handle E f t) \<Longrightarrow> mLower u = mLower t \<and> mState u = mState t \<and>
       mMaxMessageSize u = mMaxMessageSize t \<and> mIsClient u = mIsClient t \<and> mRecvCallback u = mRecvCallback t
       \<and> mIgnoreLength u = mIgnoreLength t \<and> mDraws u = mDraws t"
  using assms by (auto simp: WsTransport_handle_def WsTransport_recvFrame_def Let_def)

text \<open>A data frame that fits in the message it belongs to.\<close>

lemma handle_data:
  assumes "opcode f \<in> {TEXT_FRAME, BINARY_FRAME}" "frame_length f = length (payload f)"
    "mPartial t = []" "length (payload f) \<le> mMaxMessageSize t" "mRecvCallback t"
    and u: "u = snd (WsTransport_handle E f t)"
  shows "received (trace u) = received (trace t) @ (if fin f then [message_of (frame_type (opcode f), payload f)] else [])"
    "mPartial u = (if fin f then [] else payload f)" "mPartialOpcode u = opcode f"
  using assms
  by (auto simp: WsTransport_handle_def WsTransport_recvFrame_def Let_def message_of_def)

lemma handle_continuation:
  assumes "opcode f = CONTINUATION" "frame_length f = length (payload f)"
    "length (mPartial t @ payload f) \<le> mMaxMessageSize t" "mRecvCallback t"
    and u: "u = snd (WsTransport_handle E f t)"
  shows "received (trace u) = received (trace t) @
       (if fin f then [message_of (frame_type (mPartialOpcode t), mPartial t @ payload f)] else [])"
    "mPartial u = (if fin f then [] else mPartial t @ payload f)" "mPartialOpcode u = mPartialOpcode t"
  using assms
  by (auto simp: WsTransport_handle_def WsTransport_recvFrame_def Let_def message_of_def)

definition same_setup :: "'l WsTransport \<Rightarrow> 'l WsTransport \<Rightarrow> bool" where
  "same_setup t u \<longleftrightarrow> mMaxMessageSize u = mMaxMessageSize t \<and> mIsClient u = mIsClient t
     \<and> mRecvCallback u = mRecvCallback t \<and> mIgnoreLength u = mIgnoreLength t"

text \<open>One frame of a lawful sequence: what it completes, and what is left to receive.\<close>

lemma handle_reassemble:
  assumes re: "reassemble (mMaxMessageSize t) pend (f # fs) = Some (ms, q)"
    and len: "frame_length f = length (payload f)" and rel: "pending_rel pend t" and cb: "mRecvCallback t"
    and op: "opcode f \<in> {CONTINUATION, TEXT_FRAME, BINARY_FRAME, PONG}"
    and u: "u = snd (WsTransport_handle E f t)"
  shows "\<exists>ms1 ms2 pend'. ms = ms1 @ ms2 \<and> reassemble (mMaxMessageSize t) pend' fs = Some (ms2, q)
    \<and> pending_rel pend' u \<and> received (trace u) = received (trace t) @ map message_of ms1"
proof (cases "opcode f = PONG")
  case True
  then have "trace u = trace t" "mPartial u = mPartial t" "mPartialOpcode u = mPartialOpcode t"
    by (simp_all add: u WsTransport_handle_def WsTransport_recvFrame_def Let_def)
  moreover have "reassemble (mMaxMessageSize t) pend fs = Some (ms, q)"
    using re True by (simp split: if_splits)
  moreover have "pending_rel pend u = pending_rel pend t" using calculation(2,3) by (rule pending_rel_cong)
  ultimately have "ms = [] @ ms" "reassemble (mMaxMessageSize t) pend fs = Some (ms, q)" "pending_rel pend u"
    "received (trace u) = received (trace t) @ map message_of []" using rel by simp_all
  then show ?thesis by blast
next
  case False
  have ex: "?thesis" if "ms = ms1 @ ms2" "reassemble (mMaxMessageSize t) pend' fs = Some (ms2, q)"
    "pending_rel pend' u" "received (trace u) = received (trace t) @ map message_of ms1" for ms1 ms2 pend'
    using that by blast
  from False have op': "opcode f \<in> {CONTINUATION, TEXT_FRAME, BINARY_FRAME}" "opcode f \<notin> {PING, PONG}" using op by auto
  show ?thesis
  proof (cases pend)
    case None
    then have d: "opcode f \<in> {TEXT_FRAME, BINARY_FRAME}" "length (payload f) \<le> mMaxMessageSize t"
      using re op'(2) by (auto simp: Let_def split: if_splits)
    have "mPartial t = []" using rel None by (simp add: pending_rel_def)
    note h = handle_data [OF d(1) len this d(2) cb u]
    let ?m = "(frame_type (opcode f), payload f)"
    show ?thesis
    proof (cases "fin f")
      case True
      with re None d op' obtain ms2 where r: "ms = [?m] @ ms2" "reassemble (mMaxMessageSize t) None fs = Some (ms2, q)"
        by (auto split: prod.splits)
      show ?thesis by (rule ex [OF r]) (use h True in \<open>simp_all add: pending_rel_def\<close>)
    next
      case False
      with re None d op' have r: "ms = [] @ ms" "reassemble (mMaxMessageSize t) (Some ?m) fs = Some (ms, q)" by auto
      show ?thesis by (rule ex [OF r]) (use h False in \<open>simp_all add: pending_rel_def\<close>)
    qed
  next
    case (Some x)
    obtain ty p where p: "x = (ty, p)" by fastforce
    have d: "opcode f = CONTINUATION" "length (p @ payload f) \<le> mMaxMessageSize t"
      using re op'(2) Some p by (auto simp: Let_def split: if_splits)
    have tp: "mPartial t = p" "frame_type (mPartialOpcode t) = ty"
      using rel Some p by (simp_all add: pending_rel_def)
    note h = handle_continuation [OF d(1) len, of t, unfolded tp, OF d(2) cb u]
    let ?m = "(ty, p @ payload f)"
    show ?thesis
    proof (cases "fin f")
      case True
      with re Some p d obtain ms2 where r: "ms = [?m] @ ms2" "reassemble (mMaxMessageSize t) None fs = Some (ms2, q)"
        by (auto split: prod.splits)
      show ?thesis by (rule ex [OF r]) (use h True in \<open>simp_all add: pending_rel_def\<close>)
    next
      case False
      with re Some p d have r: "ms = [] @ ms" "reassemble (mMaxMessageSize t) (Some ?m) fs = Some (ms, q)" by auto
      show ?thesis by (rule ex [OF r]) (use h False tp in \<open>simp_all add: pending_rel_def\<close>)
    qed
  qed
qed

section \<open>A stream of frames\<close>

context byte_stream
begin

text \<open>One frame of any kind that keeps the connection open.\<close>

lemma handle_open:
  assumes E: "env_ops E = ops" and t: "open_with usable t" "mRecvCallback t" and f: "stream_frame f"
    and re: "reassemble (mMaxMessageSize t) pend (f # fs) = Some (ms, q)" and rel: "pending_rel pend t"
  obtains u ms1 ms2 pend' where "WsTransport_handle E f t = (Inr (), u)" "open_with usable u" "same_setup t u"
    "ms = ms1 @ ms2" "reassemble (mMaxMessageSize t) pend' fs = Some (ms2, q)" "pending_rel pend' u"
    "received (trace u) = received (trace t) @ map message_of ms1"
    "sent (the (mLower u)) @ pongs E (mIsClient t) (mDraws u) fs = sent (the (mLower t)) @ pongs E (mIsClient t) (mDraws t) (f # fs)"
proof (cases "opcode f = PING")
  case True
  have len: "frame_length f = length (payload f)" using f by (simp add: stream_frame_def)
  from handle_ping [OF E t(1) True len, of fs] obtain u where u: "WsTransport_handle E f t = (Inr (), u)" "open_with usable u"
    "sent (the (mLower u)) @ pongs E (mIsClient t) (mDraws u) fs = sent (the (mLower t)) @ pongs E (mIsClient t) (mDraws t) (f # fs)"
    "\<exists>n l b. u = t\<lparr>mDraws := n, mLower := l, mBuffer := b\<rparr>" by blast
  from u(4) have same: "same_setup t u" "received (trace u) = received (trace t) @ map message_of []"
    "mPartial u = mPartial t" "mPartialOpcode u = mPartialOpcode t" by (auto simp: same_setup_def)
  have "pending_rel pend u" using pending_rel_cong [OF same(3,4)] rel by simp
  have "reassemble (mMaxMessageSize t) pend fs = Some (ms, q)" using re True by (simp split: if_splits)
  with that [OF u(1,2) same(1), of "[]" ms pend] same u(3) \<open>pending_rel pend u\<close> show thesis by simp
next
  case False
  then have op: "opcode f \<in> {CONTINUATION, TEXT_FRAME, BINARY_FRAME, PONG}" and len: "frame_length f = length (payload f)"
    using f by (auto simp: stream_frame_def)
  obtain u where u: "u = snd (WsTransport_handle E f t)" by blast
  have h: "WsTransport_handle E f t = (Inr (), u)" using handle_quiet(1) [OF op, of E t] u by (metis prod.collapse)
  note k = handle_quiet(2) [OF op u]
  have "open_with usable u" "same_setup t u" using k t by (auto simp: open_with_def same_setup_def)
  moreover have "sent (the (mLower u)) @ pongs E (mIsClient t) (mDraws u) fs = sent (the (mLower t)) @ pongs E (mIsClient t) (mDraws t) (f # fs)"
    using k False by simp
  ultimately show thesis using handle_reassemble [OF re len rel t(2) op u] that h by blast
qed

lemma handle_all_open:
  assumes "env_ops E = ops" "open_with usable t" "mRecvCallback t" "list_all stream_frame fs"
    "reassemble (mMaxMessageSize t) pend fs = Some (ms, q)" "pending_rel pend t"
  shows "open_with usable (handle_all E fs t) \<and> same_setup t (handle_all E fs t)
    \<and> pending_rel q (handle_all E fs t)
    \<and> received (trace (handle_all E fs t)) = received (trace t) @ map message_of ms
    \<and> sent (the (mLower (handle_all E fs t))) = sent (the (mLower t)) @ pongs E (mIsClient t) (mDraws t) fs"
  using assms
proof (induction fs arbitrary: t pend ms)
  case Nil
  then show ?case by (simp add: same_setup_def)
next
  case (Cons f fs)
  from Cons.prems have "stream_frame f" "list_all stream_frame fs" by simp_all
  from handle_open [OF Cons.prems(1-3) this(1) Cons.prems(5,6)] obtain u ms1 ms2 pend' where
    h: "WsTransport_handle E f t = (Inr (), u)" "open_with usable u" "same_setup t u"
    "ms = ms1 @ ms2" "reassemble (mMaxMessageSize t) pend' fs = Some (ms2, q)" "pending_rel pend' u"
    "received (trace u) = received (trace t) @ map message_of ms1"
    "sent (the (mLower u)) @ pongs E (mIsClient t) (mDraws u) fs = sent (the (mLower t)) @ pongs E (mIsClient t) (mDraws t) (f # fs)"
    by metis
  have s: "mRecvCallback u" "mMaxMessageSize u = mMaxMessageSize t" "mIsClient u = mIsClient t"
    using h(3) Cons.prems(3) by (simp_all add: same_setup_def)
  from Cons.IH [OF Cons.prems(1) h(2) s(1) \<open>list_all stream_frame fs\<close> _ h(6), of ms2] h(5) s(2)
  have IH: "open_with usable (handle_all E fs u) \<and> same_setup u (handle_all E fs u)
    \<and> pending_rel q (handle_all E fs u)
    \<and> received (trace (handle_all E fs u)) = received (trace u) @ map message_of ms2
    \<and> sent (the (mLower (handle_all E fs u))) = sent (the (mLower u)) @ pongs E (mIsClient u) (mDraws u) fs"
    by simp
  have "same_setup t (handle_all E fs u)" using IH h(3) by (simp add: same_setup_def)
  with IH h s(3) show ?case by simp
qed

lemma frames_all:
  assumes "env_ops E = ops" "open_with usable t" "mRecvCallback t" "list_all stream_frame (map snd kfs)"
    "reassemble (mMaxMessageSize t) pend (map snd kfs @ fs) = Some (ms, q)" "pending_rel pend t"
    "list_all (frame_ok (mMaxMessageSize t)) kfs" "parseFrame (mMaxMessageSize t) rest = None"
  shows "WsTransport_frames E (t\<lparr>mBuffer := concat (map enc kfs) @ rest\<rparr>) =
     (Inr (), (handle_all E (map snd kfs) t)\<lparr>mBuffer := rest\<rparr>)"
  using assms
proof (induction kfs arbitrary: t pend ms)
  case Nil
  then show ?case by (simp add: WsTransport_frames_None)
next
  case (Cons kf kfs)
  have f: "stream_frame (snd kf)" "list_all stream_frame (map snd kfs)"
    "reassemble (mMaxMessageSize t) pend (snd kf # (map snd kfs @ fs)) = Some (ms, q)"
    using Cons.prems(4,5) by (simp_all del: reassemble.simps)
  from handle_open [OF Cons.prems(1-3) f(1,3) Cons.prems(6)] obtain u ms2 pend' where
    h: "WsTransport_handle E (snd kf) t = (Inr (), u)" "open_with usable u" "same_setup t u"
    "reassemble (mMaxMessageSize t) pend' (map snd kfs @ fs) = Some (ms2, q)" "pending_rel pend' u" by metis
  have s: "mRecvCallback u" "mMaxMessageSize u = mMaxMessageSize t"
    using h(3) Cons.prems(3) by (simp_all add: same_setup_def)
  have "WsTransport_frames E (u\<lparr>mBuffer := concat (map enc kfs) @ rest\<rparr>) =
     (Inr (), (handle_all E (map snd kfs) u)\<lparr>mBuffer := rest\<rparr>)"
    by (rule Cons.IH [OF Cons.prems(1) h(2) s(1) f(2) _ h(5)]) (use h(4) s(2) Cons.prems(7,8) in simp_all)
  moreover have "frame_ok (mMaxMessageSize t) kf" using Cons.prems(7) by simp
  ultimately show ?case using WsTransport_frames_encoded [OF _ h(1)] h(1) by simp
qed

text \<open>Cutting the stream into chunks makes no difference.\<close>

lemma feed_stream:
  assumes "env_ops E = ops" "open_with usable t" "mRecvCallback t" "mIgnoreLength t = 0"
    "list_all stream_frame (map snd kfs)" "list_all (frame_ok (mMaxMessageSize t)) kfs"
    "reassemble (mMaxMessageSize t) pend (map snd kfs) = Some (ms, q)" "pending_rel pend t"
    "parseFrame (mMaxMessageSize t) r = None" "r @ concat cs = concat (map enc kfs)" "[] \<notin> set cs"
  shows "WsTransport_feed E cs (t\<lparr>mBuffer := r\<rparr>) = (handle_all E (map snd kfs) t)\<lparr>mBuffer := []\<rparr>"
  using assms
proof (induction cs arbitrary: t r kfs pend ms)
  case Nil
  have "kfs = []"
  proof (cases kfs)
    case (Cons kf kfs')
    then have "frame_ok (mMaxMessageSize t) kf" "r = enc kf @ concat (map enc kfs')" using Nil.prems(6,10) by simp_all
    then have "parseFrame (mMaxMessageSize t) r \<noteq> None" by (simp add: frame_ok_def parseFrame_encodeFrame)
    with Nil.prems(9) show ?thesis by simp
  qed simp
  with Nil.prems(10) show ?case by (simp add: WsTransport_feed_def)
next
  case (Cons c cs)
  have "(r @ c) @ concat cs = concat (map enc kfs)" using Cons.prems(10) by simp
  from stream_split [OF this] obtain k1 k2 r' where k: "kfs = k1 @ k2" "r @ c = concat (map enc k1) @ r'"
    "r' @ concat cs = concat (map enc k2)" "r' = [] \<or> (\<exists>q. k2 \<noteq> [] \<and> q \<noteq> [] \<and> r' @ q = enc (hd k2))" by blast
  have ok: "list_all (frame_ok (mMaxMessageSize t)) k1" "list_all (frame_ok (mMaxMessageSize t)) k2"
    "list_all stream_frame (map snd k1)" "list_all stream_frame (map snd k2)"
    using Cons.prems(5,6) k(1) by simp_all
  have r': "parseFrame (mMaxMessageSize t) r' = None" by (rule incomplete_parse [OF ok(2) k(4)])
  have re: "reassemble (mMaxMessageSize t) pend (map snd k1 @ map snd k2) = Some (ms, q)"
    using Cons.prems(7) k(1) by simp
  from reassemble_append [OF re] obtain ms1 ms2 p where
    p: "reassemble (mMaxMessageSize t) pend (map snd k1) = Some (ms1, p)"
       "reassemble (mMaxMessageSize t) p (map snd k2) = Some (ms2, q)" by blast
  define u where "u = handle_all E (map snd k1) t"
  note h = handle_all_open [OF Cons.prems(1-3) ok(3) p(1) Cons.prems(8), folded u_def]
  have u: "mMaxMessageSize u = mMaxMessageSize t" "mIgnoreLength u = 0" "mRecvCallback u"
    using h Cons.prems(3,4) by (simp_all add: same_setup_def)
  have fr: "WsTransport_frames E (t\<lparr>mBuffer := r @ c\<rparr>) = (Inr (), u\<lparr>mBuffer := r'\<rparr>)"
    using frames_all [OF Cons.prems(1-3) ok(3) re Cons.prems(8) ok(1) r'] k(2) by (simp add: u_def)
  have "WsTransport_incoming E (Some (make_message c Binary)) (t\<lparr>mBuffer := r\<rparr>) = u\<lparr>mBuffer := r'\<rparr>"
    by (rule WsTransport_incoming_data) (use Cons.prems(2,4,11) fr in \<open>auto simp: open_with_def\<close>)
  then have "WsTransport_feed E (c # cs) (t\<lparr>mBuffer := r\<rparr>) = WsTransport_feed E cs (u\<lparr>mBuffer := r'\<rparr>)"
    by (simp add: WsTransport_feed_def)
  also have "\<dots> = (handle_all E (map snd k2) u)\<lparr>mBuffer := []\<rparr>"
    by (rule Cons.IH [OF Cons.prems(1)]) (use h u ok p r' k(3) Cons.prems(11) in auto)
  also have "handle_all E (map snd k2) u = handle_all E (map snd kfs) t"
    using k(1) by (simp add: u_def handle_all_append)
  finally show ?case .
qed

text \<open>
  The reception theorem: from an open connection with an empty buffer, the chunks of any lawful
  sequence of frames deliver exactly its messages, leave the connection open with an empty buffer,
  and send exactly the pongs.
\<close>

lemma feed_delivers:
  assumes "env_ops E = ops" "open_with usable t" "mRecvCallback t" "mIgnoreLength t = 0" "mBuffer t = []" "mPartial t = []"
    and "list_all stream_frame (map snd kfs)" "list_all (frame_ok (mMaxMessageSize t)) kfs"
    and "reassemble (mMaxMessageSize t) None (map snd kfs) = Some (ms, q)"
    and "concat cs = concat (map enc kfs)" "[] \<notin> set cs"
    and u: "u = WsTransport_feed E cs t"
  shows "open_with usable u" "mBuffer u = []" "pending_rel q u"
    "received (trace u) = received (trace t) @ map message_of ms"
    "sent (the (mLower u)) = sent (the (mLower t)) @ pongs E (mIsClient t) (mDraws t) (map snd kfs)"
proof -
  have pr: "pending_rel None t" using assms(6) by (simp add: pending_rel_def)
  have none: "parseFrame (mMaxMessageSize t) [] = None" by (simp add: parseFrame_def)
  have "t\<lparr>mBuffer := []\<rparr> = t" using assms(5) by simp
  then have u': "u = (handle_all E (map snd kfs) t)\<lparr>mBuffer := []\<rparr>"
    using feed_stream [OF assms(1-4,7-9) pr none _ assms(11)] assms(10) u by simp
  note h = handle_all_open [OF assms(1-3,7,9) pr]
  show "open_with usable u" "mBuffer u = []" "received (trace u) = received (trace t) @ map message_of ms"
    "sent (the (mLower u)) = sent (the (mLower t)) @ pongs E (mIsClient t) (mDraws t) (map snd kfs)"
    using h u' by (simp_all add: open_with_def)
  have "pending_rel q u = pending_rel q (handle_all E (map snd kfs) t)"
    using u' by (intro pending_rel_cong) simp_all
  with h show "pending_rel q u" by simp
qed

end

section \<open>What is sent\<close>

definition data_opcode :: "Message \<Rightarrow> Opcode" where
  "data_opcode m = (if type m = String then TEXT_FRAME else BINARY_FRAME)"

text \<open>The frames of a list of messages; the key of a frame that is not masked is not used.\<close>

fun send_frames :: "'l ws_env \<Rightarrow> bool \<Rightarrow> nat \<Rightarrow> Message list \<Rightarrow> keyed_frame list" where
  "send_frames E client n [] = []"
| "send_frames E client n (m # ms) =
     (map (env_random E n) [0..<4], mk_frame (data_opcode m) (data m) client)
     # send_frames E client (if client then n + 1 else n) ms"

definition WsTransport_send_all :: "'l ws_env \<Rightarrow> Message list \<Rightarrow> 'l WsTransport \<Rightarrow> 'l WsTransport" where
  "WsTransport_send_all E ms t = fold (\<lambda>m t. snd (WsTransport_send E (Some m) t)) ms t"

lemma encodeFrame_mask_key:
  "encodeFrame (mask_key E (frame_mask f) n) f = encodeFrame (map (env_random E n) [0..<4]) f"
  by (simp add: encodeFrame_def frame_header_def sent_payload_def mask_key_def)

lemma data_opcode_cases: "data_opcode m = TEXT_FRAME \<or> data_opcode m = BINARY_FRAME"
  by (simp add: data_opcode_def)

lemma send_frames_ok:
  assumes "\<forall>m \<in> set ms. length (data m) \<le> mx \<and> length (data m) < 2 ^ 63"
  shows "list_all stream_frame (map snd (send_frames E c n ms))" "list_all (frame_ok mx) (send_frames E c n ms)"
    "reassemble mx None (map snd (send_frames E c n ms)) =
       Some (map (\<lambda>m. (if type m = String then String else Binary, data m)) ms, None)"
  using assms
  by (induction ms arbitrary: n)
    (auto simp: stream_frame_def frame_ok_def wf_frame_def data_opcode_def)

context byte_stream
begin

lemma send_open:
  assumes "env_ops E = ops" "open_with usable t"
  obtains b u where "WsTransport_send E (Some m) t = (Inr b, u)" "open_with usable u" "mIsClient u = mIsClient t"
    "mDraws u = (if mIsClient t then mDraws t + 1 else mDraws t)"
    "sent (the (mLower u)) = sent (the (mLower t)) @
       encodeFrame (map (env_random E (mDraws t)) [0..<4]) (mk_frame (data_opcode m) (data m) (mIsClient t))"
proof -
  from assms(2) obtain l where l: "mLower t = Some l" "usable l" "mState t = Connected" by (auto simp: open_with_def)
  let ?f = "mk_frame (data_opcode m) (data m) (mIsClient t)"
  from sendFrame_open [OF assms(1) l(1,2) refl refl, of ?f]
  obtain b l' where s: "WsTransport_sendFrame E ?f t = (Inr b, sent_payload (mask_key E (frame_mask ?f) (mDraws t)) ?f,
      t\<lparr>mDraws := if frame_mask ?f then mDraws t + 1 else mDraws t, mLower := Some l'\<rparr>)"
    "usable l'" "sent l' = sent l @ encodeFrame (mask_key E (frame_mask ?f) (mDraws t)) ?f" by blast
  let ?u = "t\<lparr>mDraws := if frame_mask ?f then mDraws t + 1 else mDraws t, mLower := Some l'\<rparr>"
  have "WsTransport_send E (Some m) t = (Inr b, ?u)" using l(3) s(1) by (simp add: WsTransport_send_def data_opcode_def)
  moreover have "open_with usable ?u" "mIsClient ?u = mIsClient t"
    "mDraws ?u = (if mIsClient t then mDraws t + 1 else mDraws t)"
    using l s by (simp_all add: open_with_def)
  moreover have "sent (the (mLower ?u)) = sent (the (mLower t)) @ encodeFrame (map (env_random E (mDraws t)) [0..<4]) ?f"
    using l s(3) encodeFrame_mask_key [of E ?f "mDraws t"] by simp
  ultimately show thesis by (rule that)
qed

lemma send_all_open:
  assumes "env_ops E = ops" "open_with usable t"
  shows "open_with usable (WsTransport_send_all E ms t) \<and>
    sent (the (mLower (WsTransport_send_all E ms t))) =
      sent (the (mLower t)) @ concat (map enc (send_frames E (mIsClient t) (mDraws t) ms))"
  using assms(2)
proof (induction ms arbitrary: t)
  case (Cons m ms)
  from send_open [OF assms(1) Cons.prems, of m] obtain b u where u: "WsTransport_send E (Some m) t = (Inr b, u)"
    "open_with usable u" "mIsClient u = mIsClient t" "mDraws u = (if mIsClient t then mDraws t + 1 else mDraws t)"
    "sent (the (mLower u)) = sent (the (mLower t)) @
       encodeFrame (map (env_random E (mDraws t)) [0..<4]) (mk_frame (data_opcode m) (data m) (mIsClient t))" by metis
  have "WsTransport_send_all E (m # ms) t = WsTransport_send_all E ms u" using u(1) by (simp add: WsTransport_send_all_def)
  with Cons.IH [OF u(2)] u show ?case by simp
qed (simp add: WsTransport_send_all_def)

end

end
