(* ===== verification/Wsc_WsLife.thy ===== *)
theory Wsc_WsLife
  imports Wsc_WsReceive
begin

text \<open>
  The life of a WebSocket transport: the operations as a step relation from the moment it has been
  started, the bounds on what it buffers and delivers, the states it can go through, the stall
  that a wrapped frame length causes, and the opening handshake over a byte stream.
\<close>

section \<open>Bounds on messages\<close>

definition ws_sizes :: "'l WsTransport \<Rightarrow> bool" where
  "ws_sizes t \<longleftrightarrow> length (mPartial t) \<le> mMaxMessageSize t
     \<and> (\<forall>m. Some m \<in> set (received (trace t)) \<longrightarrow> length (data m) \<le> mMaxMessageSize t)"

text \<open>What the operations that receive nothing leave alone.\<close>

definition quiet :: "'l WsTransport \<Rightarrow> 'l WsTransport \<Rightarrow> bool" where
  "quiet t u \<longleftrightarrow> mPartial u = mPartial t \<and> mMaxMessageSize u = mMaxMessageSize t
     \<and> (\<forall>m. Some m \<in> set (received (trace u)) \<longleftrightarrow> Some m \<in> set (received (trace t)))
     \<and> (mCloseSent t \<longrightarrow> mCloseSent u)"

lemma quiet_refl [simp]: "quiet t t"
  by (simp add: quiet_def)

lemma quiet_trans [trans]: "quiet a b \<Longrightarrow> quiet b c \<Longrightarrow> quiet a c"
  by (simp add: quiet_def)

lemma quiet_sizes: "quiet t u \<Longrightarrow> ws_sizes t \<Longrightarrow> ws_sizes u"
  by (simp add: quiet_def ws_sizes_def)

lemma quiet_keeps:
  "quiet t u \<Longrightarrow> ws_sizes t \<Longrightarrow> ws_sizes u \<and> mMaxMessageSize u = mMaxMessageSize t \<and> (mCloseSent t \<longrightarrow> mCloseSent u)"
  by (simp add: quiet_def ws_sizes_def)

lemma quiet_sendFrame: "WsTransport_sendFrame E f t = (r, p, u) \<Longrightarrow> quiet t u \<and> mState u = mState t"
  using WsTransport_sendFrame_frame(1) by (fastforce simp: quiet_def)

lemma quiet_outgoing:
  fixes t :: "'l WsTransport"
  shows "Transport_outgoing ops m t = (r, u) \<Longrightarrow> quiet t u \<and> mState u = mState t"
  using Transport_outgoing_ws by (fastforce simp: quiet_def)

lemma quiet_calls [simp]:
  "quiet t (Transport_changeState s u) = quiet t u" "quiet t (schedule_in n u) = quiet t u"
  "quiet t (Transport_recv None u) = quiet t u"
  by (auto simp: quiet_def Transport_changeState_def schedule_in_def Transport_recv_def)

lemma quiet_fields [simp]:
  "quiet t (u\<lparr>mBuffer := b\<rparr>) = quiet t u" "quiet t (u\<lparr>mHandshake := h\<rparr>) = quiet t u"
  "quiet t (u\<lparr>mIgnoreLength := n\<rparr>) = quiet t u" "quiet t (u\<lparr>mOutstandingPings := i\<rparr>) = quiet t u"
  "quiet t (u\<lparr>mDraws := n\<rparr>) = quiet t u"
  by (simp_all add: quiet_def)

lemma quiet_fields_left [simp]: "quiet (t\<lparr>mBuffer := b\<rparr>) u = quiet t u" "quiet (t\<lparr>mHandshake := h\<rparr>) u = quiet t u"
  by (simp_all add: quiet_def)

lemma quiet_close: "quiet t (WsTransport_close E t)"
proof (cases "mState t \<noteq> Connected \<or> mCloseSent t")
  case True
  then show ?thesis by (auto simp: WsTransport_close_def)
next
  case False
  let ?t = "t\<lparr>mCloseSent := True\<rparr>"
  obtain r p u where s: "WsTransport_sendFrame E (mk_frame CLOSE [] (mIsClient t)) ?t = (r, p, u)" by (metis prod_cases3)
  have "quiet t ?t" using False by (simp add: quiet_def)
  then have q: "quiet t u" using quiet_sendFrame [OF s] quiet_trans by blast
  have "WsTransport_close E t = (case r of Inl e \<Rightarrow> Transport_changeState Disconnected u | Inr _ \<Rightarrow> schedule_in 10 u)"
    using False s by (simp add: WsTransport_close_def split: sum.splits)
  then show ?thesis using q by (simp split: sum.splits)
qed

lemma recvFrame_sizes:
  assumes "ws_sizes t"
  shows "ws_sizes (snd (WsTransport_recvFrame E f t))"
    "mMaxMessageSize (snd (WsTransport_recvFrame E f t)) = mMaxMessageSize t"
    "mCloseSent t \<Longrightarrow> mCloseSent (snd (WsTransport_recvFrame E f t))"
proof -
  let ?u = "snd (WsTransport_recvFrame E f t)"
  consider "opcode f = TEXT_FRAME \<or> opcode f = BINARY_FRAME" | "opcode f = CONTINUATION"
    | "opcode f \<notin> {TEXT_FRAME, BINARY_FRAME, CONTINUATION}" by auto
  then have "ws_sizes ?u \<and> mMaxMessageSize ?u = mMaxMessageSize t \<and> (mCloseSent t \<longrightarrow> mCloseSent ?u)"
  proof cases
    case 1
    with assms show ?thesis
      by (auto simp: WsTransport_recvFrame_def Let_def ws_sizes_def min_def)
  next
    case 2
    with assms show ?thesis
      by (auto simp: WsTransport_recvFrame_def Let_def ws_sizes_def)
  next
    case 3
    obtain r p v where s: "WsTransport_sendFrame E (mk_frame PONG (take (frame_length f) (drop (payload f) (mBuffer t)))
        (mIsClient t)) t = (r, p, v)" by (metis prod_cases3)
    have "quiet t ?u"
      using 3 quiet_sendFrame [OF s] s quiet_close [of t E]
      by (auto simp: WsTransport_recvFrame_def Let_def)
    with assms show ?thesis using quiet_sizes by (auto simp: quiet_def)
  qed
  then show "ws_sizes ?u" "mMaxMessageSize ?u = mMaxMessageSize t" "mCloseSent t \<Longrightarrow> mCloseSent ?u" by simp_all
qed

lemma frames_sizes:
  "ws_sizes t \<Longrightarrow> ws_sizes (snd (WsTransport_frames E t)) \<and> mMaxMessageSize (snd (WsTransport_frames E t)) = mMaxMessageSize t
     \<and> (mCloseSent t \<longrightarrow> mCloseSent (snd (WsTransport_frames E t)))"
proof (induction E t rule: WsTransport_frames.induct)
  case (1 E t)
  show ?case
  proof (cases "parseFrame (mMaxMessageSize t) (mBuffer t)")
    case None
    then show ?thesis using "1.prems" by (simp add: WsTransport_frames_None)
  next
    case (Some x)
    obtain len fr b where x: "x = (len, fr, b)" by (metis prod_cases3)
    let ?t = "t\<lparr>mBuffer := b\<rparr>"
    have t: "ws_sizes ?t" "mMaxMessageSize ?t = mMaxMessageSize t" "mCloseSent ?t = mCloseSent t"
      using "1.prems" by (simp_all add: ws_sizes_def)
    obtain r u where r: "WsTransport_recvFrame E fr ?t = (r, u)" by fastforce
    have u: "ws_sizes u" "mMaxMessageSize u = mMaxMessageSize t" "mCloseSent t \<longrightarrow> mCloseSent u"
      using recvFrame_sizes [OF t(1), of E fr] t r by simp_all
    have upd: "ws_sizes (u\<lparr>mBuffer := c\<rparr>)" "ws_sizes (u\<lparr>mIgnoreLength := n, mBuffer := c\<rparr>)" for c n
      using u(1) by (simp_all add: ws_sizes_def)
    have IH: "len \<noteq> 0 \<Longrightarrow> r = Inr () \<Longrightarrow> \<not> length (mBuffer u) < len \<Longrightarrow>
      ws_sizes (snd (WsTransport_frames E (u\<lparr>mBuffer := drop len (mBuffer u)\<rparr>))) \<and>
      mMaxMessageSize (snd (WsTransport_frames E (u\<lparr>mBuffer := drop len (mBuffer u)\<rparr>))) = mMaxMessageSize u \<and>
      (mCloseSent u \<longrightarrow> mCloseSent (snd (WsTransport_frames E (u\<lparr>mBuffer := drop len (mBuffer u)\<rparr>))))"
      using "1.IH" [OF Some x [symmetric] refl refl, of r u "()"] r upd by simp
    show ?thesis
      by (subst (1 2 3) WsTransport_frames.simps)
        (use Some x t r u upd IH in \<open>simp add: Let_def split: sum.splits\<close>)
  qed
qed

lemma handshake_quiet:
  assumes "WsTransport_handshake E t = (r, u)"
  shows "quiet t u \<and> mState u \<in> {mState t, Connected}"
proof -
  obtain rp h where p: "parseHttpRequest (string_of_bytes (mBuffer t)) (mHandshake t) = (rp, h)" by fastforce
  obtain rs v where s: "WsTransport_sendHttpResponse E (t\<lparr>mHandshake := h\<rparr>) = (rs, v)" by fastforce
  have "quiet t v \<and> mState v = mState t"
    using s quiet_outgoing [of _ _ "t\<lparr>mHandshake := h\<rparr>"] by (auto simp: WsTransport_sendHttpResponse_def Let_def)
  then show ?thesis using assms p s
    by (auto simp: WsTransport_handshake_def Let_def split: if_splits sum.splits)
qed

lemma stream_sizes:
  assumes "WsTransport_stream E idle t = (r, u)" "ws_sizes t"
  shows "ws_sizes u \<and> mMaxMessageSize u = mMaxMessageSize t \<and> (mCloseSent t \<longrightarrow> mCloseSent u)"
proof -
  obtain rs p v where s: "WsTransport_sendFrame E (mk_frame PING [0, 0, 0, 0] (mIsClient t)) t = (rs, p, v)" by (metis prod_cases3)
  have v: "quiet t v" "quiet t (WsTransport_addOutstandingPing v)"
    using quiet_sendFrame [OF s] by (simp_all add: WsTransport_addOutstandingPing_def Let_def)
  let ?t = "t\<lparr>mBuffer := drop (min (mIgnoreLength t) (length (mBuffer t))) (mBuffer t),
      mIgnoreLength := mIgnoreLength t - min (mIgnoreLength t) (length (mBuffer t))\<rparr>"
  have t': "ws_sizes ?t" "mMaxMessageSize ?t = mMaxMessageSize t" "mCloseSent ?t = mCloseSent t"
    using assms(2) by (simp_all add: ws_sizes_def)
  have q: "ws_sizes w \<and> mMaxMessageSize w = mMaxMessageSize t \<and> (mCloseSent t \<longrightarrow> mCloseSent w)" if "quiet t w" for w
    using quiet_sizes [OF that assms(2)] that by (simp add: quiet_def)
  consider "mState t \<noteq> Connected" | "mState t = Connected" idle | "mState t = Connected" "\<not> idle" by blast
  then show ?thesis
  proof cases
    case 1
    then show ?thesis using assms by (auto simp: WsTransport_stream_def)
  next
    case 2
    then have "u = v \<or> u = WsTransport_addOutstandingPing v"
      using assms(1) s by (cases rs) (simp_all add: WsTransport_stream_def)
    then show ?thesis using q v by blast
  next
    case 3
    define w where "w = (if mIgnoreLength t > 0 then ?t else t)"
    have w: "ws_sizes w" "mMaxMessageSize w = mMaxMessageSize t" "mCloseSent w = mCloseSent t"
      using t' assms(2) by (simp_all add: w_def)
    have "WsTransport_stream E idle t = (if mIgnoreLength w = 0 then WsTransport_frames E w else (Inr (), w))"
      unfolding WsTransport_stream_def Let_def w_def using 3 by (simp only: simp_thms if_True if_False)
    then have "u = snd (WsTransport_frames E w) \<or> u = w"
      using assms(1) by (cases "mIgnoreLength w = 0") (simp_all, metis snd_conv)
    then show ?thesis
    proof
      assume "u = snd (WsTransport_frames E w)"
      then show ?thesis using frames_sizes [OF w(1), of E] w(2,3) by simp
    qed (use w in simp)
  qed
qed

lemma incoming_sizes:
  assumes "ws_sizes t"
  shows "ws_sizes (WsTransport_incoming E m t) \<and> mMaxMessageSize (WsTransport_incoming E m t) = mMaxMessageSize t
    \<and> (mCloseSent t \<longrightarrow> mCloseSent (WsTransport_incoming E m t))"
proof -
  have fin: "ws_sizes v \<and> mMaxMessageSize v = mMaxMessageSize t \<and> (mCloseSent t \<longrightarrow> mCloseSent v)"
    if "quiet u v" "ws_sizes u" "mMaxMessageSize u = mMaxMessageSize t" "mCloseSent t \<longrightarrow> mCloseSent u" for u v
    using quiet_sizes [OF that(1,2)] that by (simp add: quiet_def)
  have fin2: "quiet u (WsTransport_incoming_end u)" for u :: "'a WsTransport"
    by (simp add: WsTransport_incoming_end_def)
  have err: "quiet u (snd (WsTransport_sendHttpError E code u))" for u :: "'a WsTransport" and code
    using quiet_outgoing [of "env_ops E" _ u] by (cases "WsTransport_sendHttpError E code u") (auto simp: WsTransport_sendHttpError_def)
  have tried: "ws_sizes u \<and> mMaxMessageSize u = mMaxMessageSize t \<and> (mCloseSent t \<longrightarrow> mCloseSent u)"
    if tr: "WsTransport_incoming_try E msg t = (r, u)" for msg r u
  proof -
    let ?t = "t\<lparr>mBuffer := mBuffer t @ data msg\<rparr>"
    obtain rh v where h: "WsTransport_handshake E ?t = (rh, v)" by fastforce
    then have v: "quiet t v" using handshake_quiet [OF h] by simp
    have sv: "ws_sizes v" "mMaxMessageSize v = mMaxMessageSize t" "mCloseSent t \<longrightarrow> mCloseSent v"
      using quiet_sizes [OF v assms] v by (simp_all add: quiet_def)
    show ?thesis
    proof (cases rh)
      case (Inl e)
      then have "u = v" using tr h by (simp add: WsTransport_incoming_try_def)
      with sv show ?thesis by simp
    next
      case (Inr x)
      then have "WsTransport_stream E (length (data msg) = 0) v = (r, u)" using tr h by (simp add: WsTransport_incoming_try_def)
      from stream_sizes [OF this sv(1)] sv show ?thesis by simp
    qed
  qed
  show ?thesis
  proof (cases "(mState t \<noteq> Connecting \<and> mState t \<noteq> Connected) \<or> m = None")
    case True
    then have "WsTransport_incoming E m t = t \<or> WsTransport_incoming E m t = WsTransport_incoming_end t"
      by (auto simp: WsTransport_incoming_def)
    then show ?thesis using assms fin [OF fin2, of t] by auto
  next
    case False
    then obtain msg where m: "m = Some msg" by auto
    obtain r u where t: "WsTransport_incoming_try E msg t = (r, u)" by fastforce
    note su = tried [OF t]
    have "WsTransport_incoming E m t = u \<or> WsTransport_incoming E m t = WsTransport_incoming_end u \<or>
      (\<exists>code. WsTransport_incoming E m t = WsTransport_incoming_end (snd (WsTransport_sendHttpError E code u)))"
      using False m t by (auto simp: WsTransport_incoming_def split: sum.splits exn.splits)
    moreover have "quiet u (WsTransport_incoming_end (snd (WsTransport_sendHttpError E code u)))" for code
      using quiet_trans [OF err fin2] .
    ultimately show ?thesis using su fin fin2 by metis
  qed
qed

section \<open>Operations as steps\<close>

text \<open>
  The steps of a transport that has been started: the owner sends and closes, the lower transport
  delivers, and the task of the closing timeout runs.
\<close>

inductive ws_step :: "'l ws_env \<Rightarrow> 'l WsTransport \<Rightarrow> 'l WsTransport \<Rightarrow> bool" for E where
  send: "ws_step E t (snd (WsTransport_send E m t))"
| close: "ws_step E t (WsTransport_close E t)"
| incoming: "ws_step E t (WsTransport_incoming E m t)"
| timeout: "ws_step E t (WsTransport_closeTimeout t)"

inductive_cases ws_stepE: "ws_step E t u"

lemma send_quiet: "quiet t (snd (WsTransport_send E m t)) \<and> mState (snd (WsTransport_send E m t)) = mState t"
proof (cases m)
  case (Some msg)
  let ?f = "mk_frame (if type msg = String then TEXT_FRAME else BINARY_FRAME) (data msg) (mIsClient t)"
  obtain r p u where s: "WsTransport_sendFrame E ?f t = (r, p, u)" by (metis prod_cases3)
  from quiet_sendFrame [OF s] show ?thesis using s Some by (simp add: WsTransport_send_def)
qed (simp add: WsTransport_send_def)

lemma ws_step_sizes:
  "ws_step E t u \<Longrightarrow> ws_sizes t \<Longrightarrow> ws_sizes u \<and> mMaxMessageSize u = mMaxMessageSize t \<and> (mCloseSent t \<longrightarrow> mCloseSent u)"
proof (induction rule: ws_step.induct)
  case (send t m)
  then show ?case using quiet_keeps send_quiet by blast
next
  case (close t)
  then show ?case using quiet_keeps quiet_close by blast
next
  case (incoming t m)
  then show ?case by (rule incoming_sizes)
next
  case (timeout t)
  then show ?case using quiet_keeps [of t "WsTransport_closeTimeout t"] by (simp add: WsTransport_closeTimeout_def)
qed

lemma ws_steps_sizes:
  "(ws_step E)\<^sup>*\<^sup>* t u \<Longrightarrow> ws_sizes t \<Longrightarrow> ws_sizes u \<and> mMaxMessageSize u = mMaxMessageSize t \<and> (mCloseSent t \<longrightarrow> mCloseSent u)"
proof (induction rule: rtranclp_induct)
  case (step u v)
  then show ?case using ws_step_sizes [OF step.hyps(2)] by auto
qed simp

text \<open>Once the connection is gone, nothing is delivered any more and it does not come back.\<close>

lemma ws_step_gone:
  "ws_step E t u \<Longrightarrow> mState t \<in> {Disconnected, Failed} \<Longrightarrow>
   mState u \<in> {Disconnected, Failed} \<and> received (trace u) = received (trace t) \<and> mLower u = mLower t"
  by (induction rule: ws_step.induct)
    (auto simp: WsTransport_send_def WsTransport_close_def WsTransport_incoming_def WsTransport_closeTimeout_def
      Transport_changeState_trace)

lemma ws_steps_gone:
  assumes "(ws_step E)\<^sup>*\<^sup>* t u" "mState t \<in> {Disconnected, Failed}"
  shows "mState u \<in> {Disconnected, Failed} \<and> received (trace u) = received (trace t) \<and> mLower u = mLower t"
  using assms
proof (induction rule: rtranclp_induct)
  case (step u v)
  then show ?case using ws_step_gone [OF step.hyps(2)] by auto
qed simp

section \<open>Bounds on the buffer\<close>

lemma parseFrame_None_bound:
  assumes "parseFrame m buf = None"
  shows "length buf < 14 + max maxControlFrameLength m"
proof (rule ccontr)
  assume long: "\<not> ?thesis"
  then obtain len cur where l: "parseFrame_length buf = Some (len, cur)" "cur \<le> 10"
    by (cases "parseFrame_length buf") (auto simp: parseFrame_length_def Let_def split: if_splits)
  moreover obtain key cur' where k: "parseFrame_key buf (buf ! 1 AND 0x80 \<noteq> 0) cur = Some (key, cur')" "cur' \<le> 14"
  proof -
    have "\<not> length buf - cur < 4" using l(2) long by simp
    then show thesis using that l(2) by (cases "buf ! 1 AND 0x80 \<noteq> 0") (simp_all add: parseFrame_key_def)
  qed
  ultimately have "parseFrame m buf \<noteq> None"
    using long parseFrame_Some_iff [of m buf] by (auto simp: min_def)
  with assms show False by simp
qed

text \<open>
  When the loop over the frames ends without an exception, what is left in the buffer is less than
  one frame, unless the header at its front has a length whose sum with the header size wraps to 0.
\<close>

definition stalled :: "nat \<Rightarrow> binary \<Rightarrow> bool" where
  "stalled m buf \<longleftrightarrow> (\<exists>fr b. parseFrame m buf = Some (0, fr, b))"

text \<open>Unmasking the payload in place does not change what the header says.\<close>

lemma parseFrame_again:
  assumes "parseFrame m buf = Some (n, fr, buf')"
  shows "\<exists>buf''. parseFrame m buf' = Some (n, fr, buf'')"
proof (rule parseFrame_SomeE [OF assms])
  fix len cur0 key cur flen
  assume p: "2 \<le> length buf" "parseFrame_length buf = Some (len, cur0)"
     "parseFrame_key buf (buf ! 1 AND 0x80 \<noteq> 0) cur0 = Some (key, cur)"
     "flen = min len (max maxControlFrameLength m)" "flen \<le> length buf - cur" "n = (cur + len) mod 2 ^ 64"
     "fr = \<lparr>opcode = buf ! 0 AND 0x0F, payload = cur, frame_length = flen,
           fin = (buf ! 0 AND 0x80 \<noteq> 0), frame_mask = (buf ! 1 AND 0x80 \<noteq> 0)\<rparr>"
     "buf' = (case key of None \<Rightarrow> buf
             | Some k \<Rightarrow> take cur buf @ apply_mask k (take flen (drop cur buf)) @ drop (cur + flen) buf)"
  have c: "2 \<le> cur0" "cur0 \<le> cur" "cur \<le> length buf"
    using parseFrame_length_cases [OF p(1,2)] parseFrame_key_cases [OF _ p(3)] by auto
  have len: "length buf' = length buf" by (rule parseFrame_bounds(2) [OF assms])
  have hd: "take cur buf' = take cur buf" using p(8) c by (auto split: option.splits)
  have nth: "buf' ! i = buf ! i" if "i < cur" for i using hd that by (metis nth_take)
  have l: "parseFrame_length (take cur buf @ x) = Some (len, cur0)" for x
  proof -
    have "parseFrame_length (take cur buf) = Some (len, cur0)"
      using p(2) c by (auto simp: parseFrame_length_def Let_def take_drop min_def split: if_splits)
    then show ?thesis using c by (intro parseFrame_length_append) simp_all
  qed
  have k: "parseFrame_key (take cur buf @ x) (buf ! 1 AND 0x80 \<noteq> 0) cur0 = Some (key, cur)" for x
  proof -
    have "parseFrame_key (take cur buf) (buf ! 1 AND 0x80 \<noteq> 0) cur0 = Some (key, cur)"
      using p(3) c by (auto simp: parseFrame_key_def take_drop min_def split: if_splits)
    then show ?thesis using c by (intro parseFrame_key_append) simp_all
  qed
  have b: "buf' = take cur buf @ drop cur buf'" using hd by (metis append_take_drop_id)
  have "parseFrame_length buf' = Some (len, cur0)" "parseFrame_key buf' (buf' ! 1 AND 0x80 \<noteq> 0) cur0 = Some (key, cur)"
    using l [of "drop cur buf'"] k [of "drop cur buf'"] b nth [of 1] c by simp_all
  then show ?thesis
    using parseFrame_Some_iff [of m buf' n fr] p(1,4-7) len nth [of 0] nth [of 1] c by auto
qed

lemma stalled_append: "stalled m buf \<Longrightarrow> stalled m (buf @ extra)"
  unfolding stalled_def using parseFrame_append by blast

lemma frames_stalled:
  assumes "stalled (mMaxMessageSize t) (mBuffer t)"
  shows "\<exists>b. WsTransport_frames E t = (Inr (), t\<lparr>mBuffer := b\<rparr>) \<and> length b = length (mBuffer t) \<and> stalled (mMaxMessageSize t) b"
proof -
  from assms obtain fr b where p: "parseFrame (mMaxMessageSize t) (mBuffer t) = Some (0, fr, b)" by (auto simp: stalled_def)
  then have "WsTransport_frames E t = (Inr (), t\<lparr>mBuffer := b\<rparr>)" by (subst WsTransport_frames.simps) simp
  with parseFrame_bounds(2) [OF p] parseFrame_again [OF p] show ?thesis by (auto simp: stalled_def)
qed

lemma frames_rest:
  "WsTransport_frames E t = (Inr (), u) \<Longrightarrow>
   length (mBuffer u) < 14 + max maxControlFrameLength (mMaxMessageSize u) \<or> stalled (mMaxMessageSize u) (mBuffer u)"
proof (induction E t rule: WsTransport_frames.induct)
  case (1 E t)
  show ?case
  proof (cases "parseFrame (mMaxMessageSize t) (mBuffer t)")
    case None
    then show ?thesis using "1.prems" parseFrame_None_bound by (simp add: WsTransport_frames_None)
  next
    case (Some x)
    obtain len fr b where x: "x = (len, fr, b)" by (metis prod_cases3)
    let ?t = "t\<lparr>mBuffer := b\<rparr>"
    obtain r v where r: "WsTransport_recvFrame E fr ?t = (r, v)" by fastforce
    show ?thesis
    proof (cases "len = 0")
      case True
      then have "stalled (mMaxMessageSize t) (mBuffer t)" using Some x by (auto simp: stalled_def)
      from frames_stalled [OF this, of E] "1.prems" show ?thesis by auto
    next
      case False
      have eq: "WsTransport_frames E t = (case r of Inl e \<Rightarrow> (Inl e, v) | Inr _ \<Rightarrow>
          if len > length (mBuffer v) then (Inr (), v\<lparr>mIgnoreLength := len - length (mBuffer v), mBuffer := []\<rparr>)
          else WsTransport_frames E (v\<lparr>mBuffer := drop len (mBuffer v)\<rparr>))"
        by (subst WsTransport_frames.simps) (use Some x False r in \<open>simp add: Let_def split: sum.splits\<close>)
      then obtain y where "r = Inr y" using "1.prems" by (cases r) simp_all
      show ?thesis
      proof (cases "len > length (mBuffer v)")
        case True
        then show ?thesis using eq "1.prems" \<open>r = Inr y\<close> by auto
      next
        case False2: False
        then have "WsTransport_frames E (v\<lparr>mBuffer := drop len (mBuffer v)\<rparr>) = (Inr (), u)"
          using eq "1.prems" \<open>r = Inr y\<close> by simp
        with "1.IH" [OF Some x [symmetric] refl refl False r [symmetric] \<open>r = Inr y\<close> False2] show ?thesis by simp
      qed
    qed
  qed
qed

text \<open>
  A stalled transport stays connected, delivers nothing any more, and keeps everything it receives:
  its buffer grows by every chunk.
\<close>

lemma stalled_feed:
  assumes "mState t = Connected" "mIgnoreLength t = 0" "stalled (mMaxMessageSize t) (mBuffer t)" "[] \<notin> set cs"
  shows "\<exists>b. WsTransport_feed E cs t = t\<lparr>mBuffer := b\<rparr> \<and> length b = length (mBuffer t) + length (concat cs)
    \<and> stalled (mMaxMessageSize t) b"
  using assms
proof (induction cs arbitrary: t)
  case Nil
  then show ?case by (intro exI [of _ "mBuffer t"]) (simp add: WsTransport_feed_def)
next
  case (Cons c cs)
  let ?t = "t\<lparr>mBuffer := mBuffer t @ c\<rparr>"
  have "stalled (mMaxMessageSize ?t) (mBuffer ?t)" using stalled_append [OF Cons.prems(3)] by simp
  from frames_stalled [OF this, of E] obtain b where
    b: "WsTransport_frames E ?t = (Inr (), t\<lparr>mBuffer := b\<rparr>)" "length b = length (mBuffer t @ c)" "stalled (mMaxMessageSize t) b"
    by auto
  have "WsTransport_incoming E (Some (make_message c Binary)) t = t\<lparr>mBuffer := b\<rparr>"
    by (rule WsTransport_incoming_data) (use Cons.prems b(1) in auto)
  then have f: "WsTransport_feed E (c # cs) t = WsTransport_feed E cs (t\<lparr>mBuffer := b\<rparr>)"
    by (simp add: WsTransport_feed_def)
  from Cons.IH [of "t\<lparr>mBuffer := b\<rparr>"] Cons.prems b(2,3) show ?case unfolding f by auto
qed

section \<open>Keeping the connection alive\<close>

definition idle :: "'l ws_env \<Rightarrow> 'l WsTransport \<Rightarrow> 'l WsTransport" where
  "idle E = WsTransport_incoming E (Some (make_message_size 0 Binary 0 None))"

context byte_stream
begin

lemma idle_open:
  assumes "env_ops E = ops" "open_with usable t"
  shows "mOutstandingPings (idle E t) = mOutstandingPings t + 1" "mMaxOutstandingPings (idle E t) = mMaxOutstandingPings t"
    "if mMaxOutstandingPings t > 0 \<and> mOutstandingPings t + 1 > mMaxOutstandingPings t
     then mState (idle E t) = Failed else open_with usable (idle E t)"
    "sent (the (mLower (idle E t))) = sent (the (mLower t)) @
       encodeFrame (mask_key E (mIsClient t) (mDraws t)) (mk_frame PING [0, 0, 0, 0] (mIsClient t))"
proof -
  from assms(2) obtain l where l: "mState t = Connected" "mLower t = Some l" "usable l" by (auto simp: open_with_def)
  let ?f = "mk_frame PING [0, 0, 0, 0] (mIsClient t)"
  let ?k = "mask_key E (frame_mask ?f) (mDraws t)"
  let ?n = "if frame_mask ?f then mDraws t + 1 else mDraws t"
  from sendFrame_open [OF assms(1) l(2,3) refl refl, of ?f] obtain b l' where
    s: "WsTransport_sendFrame E ?f t = (Inr b, sent_payload ?k ?f, t\<lparr>mDraws := ?n, mLower := Some l'\<rparr>)"
    "usable l'" "sent l' = sent l @ encodeFrame ?k ?f" by blast
  have t: "t\<lparr>mBuffer := mBuffer t\<rparr> = t" by simp
  have "idle E t = WsTransport_addOutstandingPing (t\<lparr>mDraws := ?n, mLower := Some l'\<rparr>)"
    using l s(1) by (simp add: idle_def make_message_size_def WsTransport_incoming_def WsTransport_incoming_try_def
        WsTransport_handshake_def WsTransport_stream_def)
  with l s(2,3) show "mOutstandingPings (idle E t) = mOutstandingPings t + 1"
    "mMaxOutstandingPings (idle E t) = mMaxOutstandingPings t"
    "if mMaxOutstandingPings t > 0 \<and> mOutstandingPings t + 1 > mMaxOutstandingPings t
     then mState (idle E t) = Failed else open_with usable (idle E t)"
    "sent (the (mLower (idle E t))) = sent (the (mLower t)) @
       encodeFrame (mask_key E (mIsClient t) (mDraws t)) (mk_frame PING [0, 0, 0, 0] (mIsClient t))"
    by (simp_all add: WsTransport_addOutstandingPing_def Let_def Transport_changeState_def open_with_def)
qed

text \<open>
  With a limit of \<open>n\<close> outstanding pings, an open connection survives \<open>n\<close> idle periods without a
  pong and fails on the next one.
\<close>

lemma idle_survives:
  assumes "env_ops E = ops" "open_with usable t" "mOutstandingPings t = 0" "mMaxOutstandingPings t = int n" "k \<le> n"
  shows "open_with usable ((idle E ^^ k) t) \<and> mOutstandingPings ((idle E ^^ k) t) = int k
    \<and> mMaxOutstandingPings ((idle E ^^ k) t) = int n"
  using assms(5)
proof (induction k)
  case (Suc k)
  then have IH: "open_with usable ((idle E ^^ k) t)" "mOutstandingPings ((idle E ^^ k) t) = int k"
    "mMaxOutstandingPings ((idle E ^^ k) t) = int n" by simp_all
  from idle_open [OF assms(1) IH(1)] IH(2,3) Suc.prems show ?case by simp
qed (use assms in simp)

lemma idle_fails:
  assumes "env_ops E = ops" "open_with usable t" "mOutstandingPings t = 0" "mMaxOutstandingPings t = int n" "n > 0"
  shows "mState ((idle E ^^ (n + 1)) t) = Failed"
proof -
  from idle_survives [OF assms(1-4) order_refl] have u: "open_with usable ((idle E ^^ n) t)"
    "mOutstandingPings ((idle E ^^ n) t) = int n" "mMaxOutstandingPings ((idle E ^^ n) t) = int n" by simp_all
  from idle_open(3) [OF assms(1) u(1)] u(2,3) assms(5) show ?thesis by simp
qed

text \<open>A pong resets the count.\<close>

end

lemma pong_resets: "opcode f = PONG \<Longrightarrow> WsTransport_recvFrame E f t = (Inr (), t\<lparr>mOutstandingPings := 0\<rparr>)"
  by (simp add: WsTransport_recvFrame_def Let_def)

section \<open>The opening handshake\<close>

definition awaiting :: "('l \<Rightarrow> bool) \<Rightarrow> 'l WsTransport \<Rightarrow> bool" where
  "awaiting usable t \<longleftrightarrow> mState t = Connecting \<and> mIgnoreLength t = 0 \<and> (\<exists>l. mLower t = Some l \<and> usable l)"

text \<open>
  The end of the handshake within \<open>incoming\<close>: what the chunk holds beyond the header is handled as if it had
  arrived by itself.
\<close>

lemma WsTransport_feed_append: "WsTransport_feed E (xs @ ys) t = WsTransport_feed E ys (WsTransport_feed E xs t)"
  by (simp add: WsTransport_feed_def)

lemma feed_nothing: "concat cs = [] \<Longrightarrow> [] \<notin> set cs \<Longrightarrow> WsTransport_feed E cs t = t"
  by (cases cs) (auto simp: WsTransport_feed_def)

lemma incoming_opens:
  assumes "mState t = Connecting" "c \<noteq> []"
    and "WsTransport_handshake E (t\<lparr>mBuffer := mBuffer t @ c\<rparr>) = (Inr (), u\<lparr>mBuffer := r\<rparr>)" "mState u = Connected"
  shows "WsTransport_incoming E (Some (make_message c Binary)) t =
    WsTransport_feed E (if r = [] then [] else [r]) (u\<lparr>mBuffer := []\<rparr>)"
proof (cases "r = []")
  case True
  have "WsTransport_frames E (v\<lparr>mBuffer := []\<rparr>) = (Inr (), v\<lparr>mBuffer := []\<rparr>)" for v
    by (rule WsTransport_frames_None) (simp add: parseFrame_def)
  with True assms show ?thesis
    by (simp add: WsTransport_incoming_def WsTransport_incoming_try_def WsTransport_stream_def WsTransport_feed_def)
next
  case False
  with assms show ?thesis
    by (simp add: WsTransport_incoming_def WsTransport_incoming_try_def WsTransport_feed_def
        WsTransport_handshake_def [of E "u\<lparr>mBuffer := r\<rparr>"])
qed

lemma incoming_waits:
  assumes "mState t = Connecting" "WsTransport_handshake E (t\<lparr>mBuffer := mBuffer t @ c\<rparr>) = (Inr (), u)" "mState u = Connecting"
  shows "WsTransport_incoming E (Some (make_message c Binary)) t = u"
  using assms by (simp add: WsTransport_incoming_def WsTransport_incoming_try_def WsTransport_stream_def)

text \<open>How a header and what follows it lie in the first chunk.\<close>

lemma chunk_cases:
  assumes "b @ concat (c # cs) = hdr @ tail"
  obtains (ends) r where "b @ c = hdr @ r" "tail = r @ concat cs"
    | (goes_on) q where "hdr = (b @ c) @ q" "q \<noteq> []" "concat cs = q @ tail" "length (b @ c) < length hdr"
proof (cases "length hdr \<le> length (b @ c)")
  case True
  have "(b @ c) @ concat cs = hdr @ tail" using assms by simp
  with True obtain r where "b @ c = hdr @ r" "tail = r @ concat cs" by (metis append_eq_append_conv_if append_take_drop_id)
  with ends show ?thesis by blast
next
  case False
  have "(b @ c) @ concat cs = hdr @ tail" using assms by simp
  with False obtain q where q: "hdr = (b @ c) @ q" "concat cs = q @ tail" by (metis append_eq_append_conv2 append_eq_append_conv_if linear append_take_drop_id)
  with False have "q \<noteq> []" by auto
  with q False goes_on show ?thesis by auto
qed

text \<open>
  The client reads the response of a server, however it is cut into chunks and whatever follows it; what
  follows is handled by the open transport, as if it had come in chunks of its own.
\<close>

lemma client_opens_then:
  assumes srv: "clean_tokens (CHR '','') (mProtocols s)" "list_all header_value (mProtocols s)"
    and resp: "resp = bytes_of_string (generateHttpResponse (env_sha1 E) s)"
    and t: "mState t = Connecting" "mIsClient t" "mIgnoreLength t = 0" "mKey (mHandshake t) = mKey s"
    and st: "mBuffer t @ concat cs = resp @ tail" "length (mBuffer t) < length resp" "[] \<notin> set cs"
  shows "\<exists>cs'. concat cs' = tail \<and> [] \<notin> set cs' \<and>
    WsTransport_feed E cs t = WsTransport_feed E cs' ((Transport_changeState Connected t)\<lparr>mBuffer := []\<rparr>)"
  using t st
proof (induction cs arbitrary: t)
  case Nil
  then have "length (mBuffer t) = length resp + length tail" by (metis append_Nil2 concat.simps(1) length_append)
  with Nil.prems(6) show ?case by simp
next
  case (Cons c cs)
  let ?b = "mBuffer t @ c"
  let ?t = "t\<lparr>mBuffer := ?b\<rparr>"
  have feed: "WsTransport_feed E (c # cs) t = WsTransport_feed E cs (WsTransport_incoming E (Some (make_message c Binary)) t)"
    by (simp add: WsTransport_feed_def)
  from Cons.prems(5) show ?case
  proof (cases rule: chunk_cases)
    case (ends r)
    let ?u = "Transport_changeState Connected ?t"
    have "string_of_bytes ?b = generateHttpResponse (env_sha1 E) s @ string_of_bytes r" unfolding ends(1) by (simp add: resp)
    then have "parseHttpResponse (env_sha1 E) (string_of_bytes ?b) (mHandshake t) = Inr (length resp)"
      using parseHttpResponse_generated [OF srv Cons.prems(4)] resp by simp
    then have "WsTransport_handshake E ?t = (Inr (), ?u\<lparr>mBuffer := r\<rparr>)"
      using Cons.prems ends by (auto simp: WsTransport_handshake_def)
    moreover have "mState ?u = Connected" by (simp add: Transport_changeState_def)
    moreover have "c \<noteq> []" using Cons.prems(7) by auto
    ultimately
    have u: "WsTransport_incoming E (Some (make_message c Binary)) t =
        WsTransport_feed E (if r = [] then [] else [r]) ((Transport_changeState Connected t)\<lparr>mBuffer := []\<rparr>)"
      using incoming_opens [OF Cons.prems(1), of c E r ?u] by (simp add: Transport_changeState_mBuffer)
    show ?thesis unfolding feed u
      by (rule exI [of _ "(if r = [] then [] else [r]) @ cs"])
        (use Cons.prems(7) ends(2) in \<open>simp add: WsTransport_feed_append\<close>)
  next
    case (goes_on q)
    have "generateHttpResponse (env_sha1 E) s = string_of_bytes ?b @ string_of_bytes q"
      using goes_on(1) resp by (metis map_append string_of_bytes_of_string)
    then have "parseHttpResponse (env_sha1 E) (string_of_bytes ?b) (mHandshake t) = Inr 0"
      using http_response_prefix [OF srv] goes_on(2) by simp
    then have "WsTransport_handshake E ?t = (Inr (), ?t)" using Cons.prems by (simp add: WsTransport_handshake_def)
    from incoming_waits [OF Cons.prems(1) this] Cons.prems(1)
    have u: "WsTransport_incoming E (Some (make_message c Binary)) t = ?t" by simp
    from Cons.IH [of ?t] Cons.prems goes_on(4) show ?thesis unfolding feed u by (simp add: Transport_changeState_mBuffer)
  qed
qed

lemma client_opens:
  assumes "clean_tokens (CHR '','') (mProtocols s)" "list_all header_value (mProtocols s)"
    and "resp = bytes_of_string (generateHttpResponse (env_sha1 E) s)"
    and "mState t = Connecting" "mIsClient t" "mIgnoreLength t = 0" "mKey (mHandshake t) = mKey s"
    and "mBuffer t @ concat cs = resp" "length (mBuffer t) < length resp" "[] \<notin> set cs"
  shows "WsTransport_feed E cs t = (Transport_changeState Connected t)\<lparr>mBuffer := []\<rparr>"
proof -
  from assms(8) have "mBuffer t @ concat cs = resp @ []" by simp
  from client_opens_then [OF assms(1-7) this assms(9,10)] obtain cs' where
    c: "concat cs' = []" "[] \<notin> set cs'" "WsTransport_feed E cs t = WsTransport_feed E cs' ((Transport_changeState Connected t)\<lparr>mBuffer := []\<rparr>)"
    by blast
  with feed_nothing [OF c(1,2)] show ?thesis by simp
qed

context byte_stream
begin

text \<open>The server reads the request of a client and answers it; what follows the request is handled as above.\<close>

lemma server_opens_then:
  assumes E: "env_ops E = ops" and ok: "handshake_ok (mHost c) (mPath c) (mProtocols c)"
    and gen: "generateHttpRequest nonce c = (request, c')" and req: "req = bytes_of_string request"
    and h: "h = (mHandshake t)\<lparr>mPath := mPath c, mHost := mHost c, mKey := mKey c',
              mProtocols := (if mProtocols c = [] then mProtocols (mHandshake t) else mProtocols c)\<rparr>"
    and t: "mState t = Connecting" "\<not> mIsClient t" "mIgnoreLength t = 0" "mLower t = Some l" "usable l"
    and st: "mBuffer t @ concat cs = req @ tail" "length (mBuffer t) < length req" "[] \<notin> set cs"
  shows "\<exists>l' cs'. concat cs' = tail \<and> [] \<notin> set cs' \<and> WsTransport_feed E cs t =
      WsTransport_feed E cs' ((Transport_changeState Connected (t\<lparr>mHandshake := h, mLower := Some l'\<rparr>))\<lparr>mBuffer := []\<rparr>)
    \<and> usable l' \<and> sent l' = sent l @ bytes_of_string (generateHttpResponse (env_sha1 E) h)"
  using h t st
proof (induction cs arbitrary: t)
  case Nil
  then have "length (mBuffer t) = length req + length tail" by (metis append_Nil2 concat.simps(1) length_append)
  with Nil.prems(8) show ?case by simp
next
  case (Cons d cs)
  let ?b = "mBuffer t @ d"
  let ?t = "t\<lparr>mBuffer := ?b\<rparr>"
  have feed: "WsTransport_feed E (d # cs) t = WsTransport_feed E cs (WsTransport_incoming E (Some (make_message d Binary)) t)"
    by (simp add: WsTransport_feed_def)
  from Cons.prems(7) show ?case
  proof (cases rule: chunk_cases)
    case (ends r)
    have "string_of_bytes ?b = request @ string_of_bytes r" unfolding ends(1) by (simp add: req)
    then have p: "parseHttpRequest (string_of_bytes ?b) (mHandshake t) = (Inr (length req), h)"
      using parseHttpRequest_generated [OF ok gen, of _ "mHandshake t"] req Cons.prems(1) by simp
    let ?u = "?t\<lparr>mHandshake := h\<rparr>"
    let ?m = "make_message (bytes_of_string (generateHttpResponse (env_sha1 E) h)) Binary"
    have "mLower ?u = Some l" using Cons.prems(5) by simp
    from outgoing_accepts [OF this Cons.prems(6), of ?m] obtain b l' where
      o: "Transport_outgoing ops (Some ?m) ?u = (Inr b, ?u\<lparr>mLower := Some l'\<rparr>)" "usable l'" "sent l' = sent l @ data ?m"
      by metis
    let ?v = "Transport_changeState Connected (?u\<lparr>mLower := Some l'\<rparr>)"
    have "WsTransport_handshake E ?t = (Inr (), ?v\<lparr>mBuffer := r\<rparr>)"
      using Cons.prems ends p o(1) E by (auto simp: WsTransport_handshake_def WsTransport_sendHttpResponse_def Let_def)
    moreover have "mState ?v = Connected" by (simp add: Transport_changeState_def)
    moreover have "d \<noteq> []" using Cons.prems(9) by auto
    moreover have "?v\<lparr>mBuffer := []\<rparr> = (Transport_changeState Connected (t\<lparr>mHandshake := h, mLower := Some l'\<rparr>))\<lparr>mBuffer := []\<rparr>"
      by (simp add: Transport_changeState_def)
    ultimately
    have u: "WsTransport_incoming E (Some (make_message d Binary)) t = WsTransport_feed E (if r = [] then [] else [r])
        ((Transport_changeState Connected (t\<lparr>mHandshake := h, mLower := Some l'\<rparr>))\<lparr>mBuffer := []\<rparr>)"
      using incoming_opens [OF Cons.prems(2), of d E r ?v] by simp
    show ?thesis unfolding feed u
      by (rule exI [of _ l'], rule exI [of _ "(if r = [] then [] else [r]) @ cs"])
        (use Cons.prems(9) ends(2) o(2,3) in \<open>simp add: WsTransport_feed_append\<close>)
  next
    case (goes_on q)
    have "request = string_of_bytes ?b @ string_of_bytes q"
      using goes_on(1) req by (metis map_append string_of_bytes_of_string)
    then have "parseHttpRequest (string_of_bytes ?b) (mHandshake t) = (Inr 0, mHandshake t)"
      using http_request_prefix [OF ok, of nonce "string_of_bytes ?b"] gen goes_on(2) by simp
    then have "WsTransport_handshake E ?t = (Inr (), ?t)" using Cons.prems by (simp add: WsTransport_handshake_def)
    from incoming_waits [OF Cons.prems(2) this] Cons.prems(2)
    have u: "WsTransport_incoming E (Some (make_message d Binary)) t = ?t" by simp
    have e: "(Transport_changeState Connected (?t\<lparr>mHandshake := h, mLower := Some l'\<rparr>))\<lparr>mBuffer := []\<rparr> =
        (Transport_changeState Connected (t\<lparr>mHandshake := h, mLower := Some l'\<rparr>))\<lparr>mBuffer := []\<rparr>" for l'
      by (simp add: Transport_changeState_def)
    show ?thesis unfolding feed u e [symmetric]
      by (rule Cons.IH [of ?t]) (use Cons.prems goes_on(3,4) in simp_all)
  qed
qed

lemma server_opens:
  assumes "env_ops E = ops" "handshake_ok (mHost c) (mPath c) (mProtocols c)"
    and "generateHttpRequest nonce c = (request, c')" "req = bytes_of_string request"
    and "h = (mHandshake t)\<lparr>mPath := mPath c, mHost := mHost c, mKey := mKey c',
              mProtocols := (if mProtocols c = [] then mProtocols (mHandshake t) else mProtocols c)\<rparr>"
    and "mState t = Connecting" "\<not> mIsClient t" "mIgnoreLength t = 0" "mLower t = Some l" "usable l"
    and "mBuffer t @ concat cs = req" "length (mBuffer t) < length req" "[] \<notin> set cs"
  shows "\<exists>l'. WsTransport_feed E cs t = (Transport_changeState Connected (t\<lparr>mHandshake := h, mLower := Some l'\<rparr>))\<lparr>mBuffer := []\<rparr>
    \<and> usable l' \<and> sent l' = sent l @ bytes_of_string (generateHttpResponse (env_sha1 E) h)"
proof -
  from assms(11) have "mBuffer t @ concat cs = req @ []" by simp
  from server_opens_then [OF assms(1-10) this assms(12,13)] obtain l' cs' where
    c: "concat cs' = []" "[] \<notin> set cs'" "WsTransport_feed E cs t =
      WsTransport_feed E cs' ((Transport_changeState Connected (t\<lparr>mHandshake := h, mLower := Some l'\<rparr>))\<lparr>mBuffer := []\<rparr>)"
      "usable l'" "sent l' = sent l @ bytes_of_string (generateHttpResponse (env_sha1 E) h)" by blast
  with feed_nothing [OF c(1,2)] show ?thesis by auto
qed

text \<open>A client that is started sends its request and waits.\<close>

lemma client_starts:
  assumes "env_ops E = ops" "mLower t = Some l" "usable l" "mIsClient t" "mState t = Disconnected"
    and gen: "generateHttpRequest (map (env_random E (mDraws t)) [0..<16]) (mHandshake t) = (request, h)"
  shows "\<exists>l'. WsTransport_start E t = (Inr (), (Transport_changeState Connecting t)
      \<lparr>mDraws := mDraws t + 1, mHandshake := h, mLower := Some l'\<rparr>)
    \<and> usable l' \<and> sent l' = sent l @ bytes_of_string request"
proof -
  let ?l = "lower_onRecv ops l True"
  let ?t = "(Transport_changeState Connecting (t\<lparr>mLower := Some ?l\<rparr>))\<lparr>mDraws := mDraws t + 1, mHandshake := h\<rparr>"
  let ?m = "make_message (bytes_of_string request) Binary"
  have l: "mLower ?t = Some ?l" "usable ?l" using listen_usable [OF assms(3)] by simp_all
  from outgoing_accepts [OF l, of ?m] obtain b l' where
    o: "Transport_outgoing ops (Some ?m) ?t = (Inr b, ?t\<lparr>mLower := Some l'\<rparr>)" "usable l'" "sent l' = sent ?l @ data ?m"
    by metis
  have "WsTransport_start E t = (Inr (), ?t\<lparr>mLower := Some l'\<rparr>)"
    using assms o(1) by (simp add: WsTransport_start_def Transport_registerIncoming_def WsTransport_sendHttpRequest_def
        draw_def Let_def Transport_changeState_def)
  then have "WsTransport_start E t = (Inr (), (Transport_changeState Connecting t)
      \<lparr>mDraws := mDraws t + 1, mHandshake := h, mLower := Some l'\<rparr>)" by (simp add: Transport_changeState_def)
  with o(2,3) listen_sent show ?thesis by auto
qed

end

text \<open>A client opens only on a response that carries the accept key of its own nonce.\<close>

lemma client_open_accepts:
  assumes "mIsClient t" "mState t = Connecting" "WsTransport_handshake E t = (r, u)" "mState u = Connected"
  shows "\<exists>n. n > 0 \<and> parseHttpResponse (env_sha1 E) (string_of_bytes (mBuffer t)) (mHandshake t) = Inr n"
  using assms by (auto simp: WsTransport_handshake_def split: sum.splits if_splits)

end
