(* ===== verification/Wsc_Queue.thy ===== *)
theory Wsc_Queue
  imports Wsc_Prelude
begin

text \<open>
  The bounded queue template of \<open>src/impl/queue.hpp\<close>, used by the receive queue of a WebSocket,
  the send queue of the TCP transport, the incoming queue of the TLS transport and the task
  queue of a processor.

  Every operation runs under the queue's mutex, so an operation is one function on the queue.
  \<open>push\<close> waits on a condition variable while a limited queue is full and not stopping: the
  model's \<open>Queue_push\<close> is \<open>None\<close> in exactly those states, in which the caller stays blocked.
  The total \<open>mAmount\<close> is a \<open>size_t\<close> that wraps.
\<close>

record 'a Queue =
  mLimit :: nat
  mAmount :: "64 word"
  mQueue :: "'a list"
  mAmountFunction :: "'a \<Rightarrow> nat"
  mStopping :: bool

definition Queue_new :: "nat \<Rightarrow> ('a \<Rightarrow> nat) option \<Rightarrow> 'a Queue" where
  "Queue_new limit func = \<lparr>mLimit = limit, mAmount = 0, mQueue = [],
     mAmountFunction = (case func of Some f \<Rightarrow> f | None \<Rightarrow> (\<lambda>element. 1)), mStopping = False\<rparr>"

definition Queue_stop :: "'a Queue \<Rightarrow> 'a Queue" where
  "Queue_stop q = q\<lparr>mStopping := True\<rparr>"

definition Queue_running :: "'a Queue \<Rightarrow> bool" where
  "Queue_running q \<longleftrightarrow> mQueue q \<noteq> [] \<or> \<not> mStopping q"

definition Queue_empty :: "'a Queue \<Rightarrow> bool" where
  "Queue_empty q \<longleftrightarrow> mQueue q = []"

definition Queue_full :: "'a Queue \<Rightarrow> bool" where
  "Queue_full q \<longleftrightarrow> mLimit q > 0 \<and> length (mQueue q) \<ge> mLimit q"

definition Queue_size :: "'a Queue \<Rightarrow> nat" where
  "Queue_size q = length (mQueue q)"

definition Queue_amount :: "'a Queue \<Rightarrow> 64 word" where
  "Queue_amount q = mAmount q"

definition Queue_push :: "'a Queue \<Rightarrow> 'a \<Rightarrow> 'a Queue option" where
  "Queue_push q element =
     (if mLimit q = 0 \<or> length (mQueue q) < mLimit q \<or> mStopping q then
        Some (if mStopping q then q
              else q\<lparr>mAmount := mAmount q + word_of_nat (mAmountFunction q element),
                     mQueue := mQueue q @ [element]\<rparr>)
      else None)"

definition Queue_pop :: "'a Queue \<Rightarrow> 'a option \<times> 'a Queue" where
  "Queue_pop q =
     (case mQueue q of
        [] \<Rightarrow> (None, q)
      | element # rest \<Rightarrow>
          (Some element, q\<lparr>mAmount := mAmount q - word_of_nat (mAmountFunction q element),
                           mQueue := rest\<rparr>))"

definition Queue_peek :: "'a Queue \<Rightarrow> 'a option" where
  "Queue_peek q = (case mQueue q of [] \<Rightarrow> None | element # rest \<Rightarrow> Some element)"

text \<open>\<open>exchange\<close> swaps the front element and returns the old one. It leaves \<open>mAmount\<close> alone.\<close>

definition Queue_exchange :: "'a Queue \<Rightarrow> 'a \<Rightarrow> 'a option \<times> 'a Queue" where
  "Queue_exchange q element =
     (case mQueue q of
        [] \<Rightarrow> (None, q)
      | front # rest \<Rightarrow> (Some front, q\<lparr>mQueue := element # rest\<rparr>))"

text \<open>The limit of the receive queues, from \<open>src/impl/internals.hpp\<close>, in messages.\<close>

definition RECV_QUEUE_LIMIT :: nat where
  "RECV_QUEUE_LIMIT = 1024"

lemmas Queue_defs = Queue_new_def Queue_stop_def Queue_running_def Queue_empty_def Queue_full_def
  Queue_size_def Queue_amount_def Queue_push_def Queue_pop_def Queue_peek_def Queue_exchange_def

section \<open>The interface of a first-in first-out queue\<close>

text \<open>
  What the clients rely on, over an abstraction function \<open>contents\<close>: a push that returns appends,
  a pop removes the front. \<open>accepting\<close> is the condition under which a push is not discarded.
\<close>

fun push_all :: "('q \<Rightarrow> 'a \<Rightarrow> 'q option) \<Rightarrow> 'q \<Rightarrow> 'a list \<Rightarrow> 'q option" where
  "push_all push q [] = Some q"
| "push_all push q (x # xs) = Option.bind (push q x) (\<lambda>q'. push_all push q' xs)"

fun pop_n :: "('q \<Rightarrow> 'a option \<times> 'q) \<Rightarrow> nat \<Rightarrow> 'q \<Rightarrow> 'a option list \<times> 'q" where
  "pop_n pop 0 q = ([], q)"
| "pop_n pop (Suc n) q = (let (x, q') = pop q; (xs, q'') = pop_n pop n q' in (x # xs, q''))"

locale fifo_queue =
  fixes contents :: "'q \<Rightarrow> 'a list"
    and accepting :: "'q \<Rightarrow> bool"
    and push :: "'q \<Rightarrow> 'a \<Rightarrow> 'q option"
    and pop :: "'q \<Rightarrow> 'a option \<times> 'q"
    and peek :: "'q \<Rightarrow> 'a option"
  assumes push_contents: "accepting q \<Longrightarrow> push q x = Some q' \<Longrightarrow> contents q' = contents q @ [x]"
    and push_accepting: "accepting q \<Longrightarrow> push q x = Some q' \<Longrightarrow> accepting q'"
    and pop_contents: "contents q = x # xs \<Longrightarrow> fst (pop q) = Some x \<and> contents (snd (pop q)) = xs"
    and pop_empty: "contents q = [] \<Longrightarrow> pop q = (None, q)"
    and peek_contents: "peek q = (case contents q of [] \<Rightarrow> None | x # xs \<Rightarrow> Some x)"
begin

lemma push_all_contents:
  "accepting q \<Longrightarrow> push_all push q xs = Some q' \<Longrightarrow> contents q' = contents q @ xs"
proof (induction xs arbitrary: q)
  case (Cons x xs)
  then obtain q1 where q1: "push q x = Some q1" "push_all push q1 xs = Some q'"
    by (auto simp: bind_eq_Some_conv)
  with Cons have "contents q' = contents q1 @ xs" by (blast intro: push_accepting)
  with q1 Cons.prems show ?case by (simp add: push_contents)
qed simp

lemma pop_n_contents:
  "n \<le> length (contents q) \<Longrightarrow>
   pop_n pop n q = (map Some (take n (contents q)), snd (pop_n pop n q)) \<and>
   contents (snd (pop_n pop n q)) = drop n (contents q)"
proof (induction n arbitrary: q)
  case (Suc n)
  then obtain x xs where q: "contents q = x # xs" by (cases "contents q") auto
  note p = pop_contents [OF q]
  obtain q' where q': "pop q = (Some x, q')" "contents q' = xs" using p by (cases "pop q") auto
  with Suc.IH [of q'] Suc.prems q show ?case by (auto simp: Let_def split: prod.splits)
qed simp

text \<open>Elements come out in the order they went in, after the ones already there.\<close>

lemma push_all_pop_n:
  assumes "accepting q" "push_all push q xs = Some q'"
  shows "fst (pop_n pop (length (contents q) + length xs) q') = map Some (contents q @ xs)"
  using pop_n_contents [of "length (contents q) + length xs" q'] push_all_contents [OF assms]
  by (metis fst_conv length_append order_refl take_all)

lemma peek_is_next_pop: "peek q = fst (pop q)"
proof (cases "contents q")
  case Nil
  then show ?thesis by (simp add: peek_contents pop_empty)
next
  case (Cons x xs)
  then show ?thesis using pop_contents [OF Cons] by (simp add: peek_contents)
qed

end

interpretation wsc_queue: fifo_queue mQueue "\<lambda>q. \<not> mStopping q" Queue_push Queue_pop Queue_peek
  by unfold_locales (auto simp: Queue_defs split: if_splits list.splits)

section \<open>Invariants\<close>

definition queue_inv :: "'a Queue \<Rightarrow> bool" where
  "queue_inv q \<longleftrightarrow>
     mAmount q = word_of_nat (sum_list (map (mAmountFunction q) (mQueue q))) \<and>
     (mLimit q = 0 \<or> length (mQueue q) \<le> mLimit q)"

lemma queue_inv_new: "queue_inv (Queue_new limit func)"
  by (simp add: queue_inv_def Queue_new_def)

lemma queue_inv_stop: "queue_inv q \<Longrightarrow> queue_inv (Queue_stop q)"
  by (simp add: queue_inv_def Queue_stop_def)

lemma queue_inv_push: "queue_inv q \<Longrightarrow> Queue_push q x = Some q' \<Longrightarrow> queue_inv q'"
  by (auto simp: queue_inv_def Queue_push_def split: if_splits)

lemma queue_inv_pop: "queue_inv q \<Longrightarrow> queue_inv (snd (Queue_pop q))"
  by (auto simp: queue_inv_def Queue_pop_def split: list.splits)

lemma queue_inv_exchange:
  "queue_inv q \<Longrightarrow> mQueue q = front # rest \<Longrightarrow> mAmountFunction q x = mAmountFunction q front
   \<Longrightarrow> queue_inv (snd (Queue_exchange q x))"
  by (auto simp: queue_inv_def Queue_exchange_def)

text \<open>A push blocks exactly when a running queue is full, and a pop then makes room.\<close>

lemma Queue_push_blocks_iff: "Queue_push q x = None \<longleftrightarrow> Queue_full q \<and> \<not> mStopping q"
  by (auto simp: Queue_defs)

lemma Queue_pop_unblocks:
  assumes "queue_inv q" "Queue_push q x = None"
  shows "Queue_push (snd (Queue_pop q)) x \<noteq> None"
  using assms by (cases "mQueue q") (auto simp: queue_inv_def Queue_defs split: if_splits)

lemma Queue_push_stopped: "mStopping q \<Longrightarrow> Queue_push q x = Some q"
  by (simp add: Queue_push_def)

end
