(* ===== verification/Wsc_PollService.thy ===== *)
theory Wsc_PollService
  imports Wsc_Prelude "HOL-Library.AList"
begin

text \<open>
  The poll service (\<open>src/impl/pollservice.cpp\<close>, \<open>src/impl/pollinterrupter.cpp\<close>): the sockets with
  their direction, timeout and callback, and one iteration of its thread: prepare the descriptors
  for \<open>poll\<close>, then dispatch what \<open>poll\<close> reported.

  Callbacks run under the service's recursive mutex and may register and unregister sockets. A
  callback is a value \<open>'c\<close>; what calling it does to the service and to the rest of the program
  \<open>'w\<close> is the parameter \<open>call\<close>, whose first result says whether it returned or threw. Times are
  milliseconds of the steady clock.
\<close>

datatype Direction = Both | In | Out
datatype Event = NoEvent | Error | Timeout | InEvent | OutEvent

type_synonym socket = nat

record 'c SocketEntry =
  direction :: Direction
  timeout :: "nat option"
  callback :: 'c
  until :: "nat option"

definition Direction_show :: "Direction \<Rightarrow> string" where
  "Direction_show d = (case d of In \<Rightarrow> ''in'' | Out \<Rightarrow> ''out'' | Both \<Rightarrow> ''both'')"

text \<open>The interrupter is the number of bytes in its pipe, which holds at most \<open>mPipeSize\<close>.\<close>

record 'c PollService =
  mSocks :: "(socket \<times> 'c SocketEntry) list"
  mStopped :: bool
  mPipe :: nat
  mPipeSize :: nat

definition PollInterrupter_interrupt :: "'c PollService \<Rightarrow> 'c PollService" where
  "PollInterrupter_interrupt ps = ps\<lparr>mPipe := (if mPipe ps < mPipeSize ps then mPipe ps + 1 else mPipe ps)\<rparr>"

definition PollInterrupter_process :: "bool \<Rightarrow> 'c PollService \<Rightarrow> 'c PollService" where
  "PollInterrupter_process pollin ps = (if pollin then ps\<lparr>mPipe := 0\<rparr> else ps)"

definition PollService_new :: "nat \<Rightarrow> 'c PollService" where
  "PollService_new pipe = \<lparr>mSocks = [], mStopped = True, mPipe = 0, mPipeSize = pipe\<rparr>"

definition PollService_start :: "'c PollService \<Rightarrow> 'c PollService" where
  "PollService_start ps = ps\<lparr>mSocks := [], mPipe := 0, mStopped := False\<rparr>"

text \<open>\<open>join\<close>; the second component says whether it goes on to join the thread.\<close>

definition PollService_join :: "'c PollService \<Rightarrow> 'c PollService \<times> bool" where
  "PollService_join ps =
     (if mStopped ps then (ps, False)
      else ((PollInterrupter_interrupt (ps\<lparr>mStopped := True\<rparr>))\<lparr>mSocks := [], mPipe := 0\<rparr>, True))"

definition PollService_add :: "nat \<Rightarrow> socket \<Rightarrow> Direction \<Rightarrow> nat option \<Rightarrow> 'c \<Rightarrow> 'c PollService \<Rightarrow> 'c PollService" where
  "PollService_add now sock dir tmo cb ps =
     PollInterrupter_interrupt (ps\<lparr>mSocks := AList.update sock
       \<lparr>direction = dir, timeout = tmo, callback = cb, until = map_option (\<lambda>d. now + d) tmo\<rparr> (mSocks ps)\<rparr>)"

definition PollService_remove :: "socket \<Rightarrow> 'c PollService \<Rightarrow> 'c PollService" where
  "PollService_remove sock ps = PollInterrupter_interrupt (ps\<lparr>mSocks := AList.delete sock (mSocks ps)\<rparr>)"

section \<open>Preparing a poll\<close>

text \<open>A descriptor handed to \<open>poll\<close>; the one of the interrupter comes first and is kept apart.\<close>

record pollfd =
  fd :: socket
  events_in :: bool
  events_out :: bool

definition prepare_fd :: "socket \<times> 'c SocketEntry \<Rightarrow> pollfd" where
  "prepare_fd = (\<lambda>(sock, entry). \<lparr>fd = sock, events_in = (direction entry \<noteq> Out), events_out = (direction entry \<noteq> In)\<rparr>)"

fun prepare_next :: "(socket \<times> 'c SocketEntry) list \<Rightarrow> nat option \<Rightarrow> nat option" where
  "prepare_next [] nxt = nxt"
| "prepare_next ((sock, entry) # socks) nxt =
     prepare_next socks
       (case until entry of None \<Rightarrow> nxt
        | Some u \<Rightarrow> (case nxt of None \<Rightarrow> Some u | Some n \<Rightarrow> Some (min n u)))"

definition PollService_prepare :: "'c PollService \<Rightarrow> pollfd list \<times> nat option" where
  "PollService_prepare ps = (map prepare_fd (mSocks ps), prepare_next (mSocks ps) None)"

text \<open>The timeout given to \<open>poll\<close>; \<open>-1\<close> waits for ever.\<close>

definition poll_timeout :: "nat option \<Rightarrow> nat \<Rightarrow> int" where
  "poll_timeout nxt now = (case nxt of None \<Rightarrow> -1 | Some n \<Rightarrow> max 0 (int n - int now + 1))"

section \<open>Dispatching\<close>

record revents =
  r_nval :: bool
  r_err :: bool
  r_hup :: bool
  r_in :: bool
  r_out :: bool

type_synonym ('c, 'w) call = "'c \<Rightarrow> Event \<Rightarrow> 'c PollService \<times> 'w \<Rightarrow> bool \<times> 'c PollService \<times> 'w"

text \<open>The handler of an exception thrown by a callback: the socket is unregistered.\<close>

definition process_catch :: "socket \<Rightarrow> bool \<times> 'c PollService \<times> 'w \<Rightarrow> 'c PollService \<times> 'w" where
  "process_catch sock r =
     (case r of (ok, ps, w) \<Rightarrow> if ok then (ps, w) else (ps\<lparr>mSocks := AList.delete sock (mSocks ps)\<rparr>, w))"

definition process_fd ::
  "('c, 'w) call \<Rightarrow> nat \<Rightarrow> pollfd \<times> revents \<Rightarrow> 'c PollService \<times> 'w \<Rightarrow> 'c PollService \<times> 'w" where
  "process_fd call now pr psw =
     (let (pfd, re) = pr; sock = fd pfd; (ps, w) = psw
      in case map_of (mSocks ps) sock of
           None \<Rightarrow> (ps, w)
         | Some entry \<Rightarrow>
             if r_nval re \<or> r_err re \<or> (r_hup re \<and> \<not> events_in pfd) then
               process_catch sock
                 (call (callback entry) Error (ps\<lparr>mSocks := AList.delete sock (mSocks ps)\<rparr>, w))
             else if r_in re \<or> r_out re \<or> r_hup re then
               (let ps = ps\<lparr>mSocks := AList.update sock
                           (entry\<lparr>until := map_option (\<lambda>d. now + d) (timeout entry)\<rparr>) (mSocks ps)\<rparr>;
                    (ok, psw) = (if r_in re \<or> r_hup re then call (callback entry) InEvent (ps, w) else (True, ps, w))
                in process_catch sock
                     (if ok \<and> r_out re then call (callback entry) OutEvent psw else (ok, psw)))
             else if (case until entry of None \<Rightarrow> False | Some u \<Rightarrow> u \<le> now) then
               process_catch sock
                 (call (callback entry) Timeout (ps\<lparr>mSocks := AList.delete sock (mSocks ps)\<rparr>, w))
             else (ps, w))"

definition PollService_process ::
  "('c, 'w) call \<Rightarrow> nat \<Rightarrow> bool \<Rightarrow> (pollfd \<times> revents) list \<Rightarrow> 'c PollService \<times> 'w \<Rightarrow> 'c PollService \<times> 'w" where
  "PollService_process call now woken prs psw =
     (case psw of (ps, w) \<Rightarrow> fold (process_fd call now) prs (PollInterrupter_process woken ps, w))"

text \<open>
  The loop of the thread. Each element of the list is what one return of \<open>poll\<close> and the clock show:
  interrupted, failed, or ready with the events of the interrupter and of the prepared descriptors.
  The result says whether the loop ended by an exception; it is the state reached when the list
  of returns is exhausted or the service is stopped.
\<close>

datatype poll_return =
    PollInterrupted
  | PollFailed
  | PollReady nat bool "pollfd \<Rightarrow> revents"

fun PollService_runLoop ::
  "('c, 'w) call \<Rightarrow> poll_return list \<Rightarrow> 'c PollService \<times> 'w \<Rightarrow> bool \<times> 'c PollService \<times> 'w" where
  "PollService_runLoop call [] psw = (True, psw)"
| "PollService_runLoop call (r # rs) psw =
     (if mStopped (fst psw) then (True, psw)
      else case r of
        PollInterrupted \<Rightarrow> PollService_runLoop call rs psw
      | PollFailed \<Rightarrow> (False, psw)
      | PollReady now woken re \<Rightarrow>
          PollService_runLoop call rs
            (PollService_process call now woken
               (map (\<lambda>p. (p, re p)) (fst (PollService_prepare (fst psw)))) psw))"

section \<open>Properties\<close>

definition poll_inv :: "'c PollService \<Rightarrow> bool" where
  "poll_inv ps \<longleftrightarrow> distinct (map fst (mSocks ps)) \<and> mPipe ps \<le> mPipeSize ps"

lemma poll_inv_ops:
  "poll_inv (PollService_new n)"
  "poll_inv (PollService_start ps)"
  "poll_inv ps \<Longrightarrow> poll_inv (fst (PollService_join ps))"
  "poll_inv ps \<Longrightarrow> poll_inv (PollService_add now sock dir tmo cb ps)"
  "poll_inv ps \<Longrightarrow> poll_inv (PollService_remove sock ps)"
  by (auto simp: poll_inv_def PollService_new_def PollService_start_def PollService_join_def
      PollService_add_def PollService_remove_def PollInterrupter_interrupt_def distinct_update distinct_delete)

text \<open>Registering and unregistering, as seen by the dispatcher.\<close>

lemma PollService_lookup:
  "map_of (mSocks (PollService_add now sock dir tmo cb ps)) =
     (map_of (mSocks ps))(sock \<mapsto> \<lparr>direction = dir, timeout = tmo, callback = cb, until = map_option (\<lambda>d. now + d) tmo\<rparr>)"
  "map_of (mSocks (PollService_remove sock ps)) = (map_of (mSocks ps))(sock := None)"
  by (simp_all add: PollService_add_def PollService_remove_def PollInterrupter_interrupt_def
      update_conv' delete_conv' fun_eq_iff)

lemma Min_insert_min: "finite A \<Longrightarrow> Min (insert a (insert b A)) = Min (insert (min a b) A)" for a b :: nat
  by (cases "A = {}") (simp_all add: min.assoc)

text \<open>The next wake-up is the earliest deadline.\<close>

lemma prepare_next_Min:
  "prepare_next socks nxt =
     (let us = set_option nxt \<union> {u. \<exists>s e. (s, e) \<in> set socks \<and> until e = Some u}
      in if us = {} then None else Some (Min us))"
proof (induction socks nxt rule: prepare_next.induct)
  case (1 nxt)
  then show ?case by (cases nxt) simp_all
next
  case (2 sock entry socks nxt)
  let ?tail = "{u. \<exists>s e. (s, e) \<in> set socks \<and> until e = Some u}"
  let ?nxt = "case until entry of None \<Rightarrow> nxt | Some u \<Rightarrow> (case nxt of None \<Rightarrow> Some u | Some n \<Rightarrow> Some (min n u))"
  have fin: "finite ?tail"
  proof (rule finite_subset)
    show "?tail \<subseteq> (\<lambda>(s, e). the (until e)) ` set socks" by force
  qed simp
  have split: "{u. \<exists>s e. (s, e) \<in> set ((sock, entry) # socks) \<and> until e = Some u} = set_option (until entry) \<union> ?tail"
    by auto
  note m = Min_insert_min [OF fin]
  show ?case
    using 2 m unfolding split by (cases "until entry"; cases nxt) (simp_all add: Let_def insert_commute min.commute)
qed

text \<open>The thread sleeps no longer than the earliest deadline and at most a millisecond past it.\<close>

lemma poll_timeout_bounds:
  "nxt = Some n \<Longrightarrow> 0 \<le> poll_timeout nxt now \<and> int now + poll_timeout nxt now \<le> max (int now) (int n + 1)"
  "nxt = Some n \<Longrightarrow> n < now \<Longrightarrow> poll_timeout nxt now = 0"
  "nxt = None \<Longrightarrow> poll_timeout nxt now = -1"
  by (simp_all add: poll_timeout_def)

text \<open>A socket that is no longer registered is never called back.\<close>

lemma process_fd_unregistered:
  "map_of (mSocks ps) (fd pfd) = None \<Longrightarrow> process_fd call now (pfd, re) (ps, w) = (ps, w)"
  by (simp add: process_fd_def Let_def)

text \<open>The three kinds of event: which callback runs, and what the table holds when it does.\<close>

lemma process_fd_error:
  assumes "map_of (mSocks ps) (fd pfd) = Some entry" "r_nval re \<or> r_err re \<or> (r_hup re \<and> \<not> events_in pfd)"
  shows "process_fd call now (pfd, re) (ps, w) =
    process_catch (fd pfd) (call (callback entry) Error (ps\<lparr>mSocks := AList.delete (fd pfd) (mSocks ps)\<rparr>, w))"
  using assms by (simp add: process_fd_def Let_def)

lemma process_fd_timeout:
  assumes "map_of (mSocks ps) (fd pfd) = Some entry" "\<not> r_nval re" "\<not> r_err re" "\<not> r_hup re" "\<not> r_in re" "\<not> r_out re"
  shows "process_fd call now (pfd, re) (ps, w) =
    (if \<exists>u. until entry = Some u \<and> u \<le> now
     then process_catch (fd pfd) (call (callback entry) Timeout (ps\<lparr>mSocks := AList.delete (fd pfd) (mSocks ps)\<rparr>, w))
     else (ps, w))"
  using assms by (auto simp: process_fd_def Let_def split: option.splits)

text \<open>
  When a descriptor is readable and writable at once, the callback is run for the second event
  even if the first run unregistered the socket.
\<close>

lemma process_fd_both:
  assumes "map_of (mSocks ps) (fd pfd) = Some entry" "\<not> r_nval re" "\<not> r_err re" "r_in re" "r_out re"
    and "events_in pfd"
    and "call (callback entry) InEvent (ps\<lparr>mSocks := AList.update (fd pfd)
           (entry\<lparr>until := map_option (\<lambda>d. now + d) (timeout entry)\<rparr>) (mSocks ps)\<rparr>, w) = (True, ps1, w1)"
  shows "process_fd call now (pfd, re) (ps, w) = process_catch (fd pfd) (call (callback entry) OutEvent (ps1, w1))"
  using assms by (simp add: process_fd_def Let_def)

text \<open>A callback that throws loses its registration, whatever it registered before throwing.\<close>

lemma process_catch_throw:
  "map_of (mSocks (fst (process_catch sock (False, ps, w)))) sock = None"
  by (simp add: process_catch_def delete_conv')

lemma PollService_runLoop_stopped: "mStopped ps \<Longrightarrow> PollService_runLoop call rs (ps, w) = (True, ps, w)"
  by (cases rs) simp_all

end
