(* ===== verification/Wsc_TcpTransport.thy ===== *)
theory Wsc_TcpTransport
  imports Wsc_Transport Wsc_Queue Wsc_PollService
begin

text \<open>
  The TCP transport (\<open>src/impl/tcptransport.cpp\<close>): resolving and connecting, the send queue that
  holds what the socket did not take, the accounting of the buffered amount, and the handler of
  poll events.

  \<^item> The operating system is \<open>tcp_env\<close>: the result of the \<open>n\<close>-th system call of each kind, where
    \<open>mCalls\<close> counts the calls. A successful \<open>send\<close> of a positive number of bytes takes at least one
    of them and at most all, as POSIX has it. What the socket took is recorded in \<open>wire\<close>, and the
    descriptors that are open in \<open>mOpen\<close>. Messages are shorter than \<open>2 ^ 31\<close> bytes, so the
    conversion of a size to \<open>int\<close> is exact.
  \<^item> \<open>mPoll\<close> is this transport's entry in the poll service: direction, timeout in milliseconds and
    which of the two callbacks of the class it carries. \<open>mTasks\<close> are the tasks it has enqueued on the
    thread pool, \<open>mAmounts\<close> the values its buffered-amount callback was called with.
  \<^item> \<open>INVALID_SOCKET\<close> is \<open>None\<close>.
\<close>

datatype send_return = SendLen nat | SendAgain | SendError
datatype recv_return = RecvData binary | RecvEof | RecvAgain | RecvError
datatype poll_callback = ConnectCallback | ProcessCallback
datatype tcp_task = Resolve | Attempt

record 'a tcp_env =
  net_send :: "nat \<Rightarrow> send_return"
  net_resolve :: "string \<Rightarrow> string \<Rightarrow> 'a list option"
  net_socket :: "nat \<Rightarrow> socket option"
  net_nonblock :: "nat \<Rightarrow> bool"
  net_connect :: "nat \<Rightarrow> 'a \<Rightarrow> bool"

record 'a TcpTransport = "unit Transport" +
  mIsActive :: bool
  mHostname :: string
  mService :: string
  mBufferedAmountCallback :: bool
  mReadTimeout :: "nat option"
  mResolved :: "'a list"
  mSock :: "socket option"
  mSendQueue :: "Message Queue"
  mBufferedAmount :: nat
  wire :: binary
  mCalls :: nat
  mPoll :: "(Direction \<times> nat option \<times> poll_callback) option"
  mTasks :: "tcp_task list"
  mAmounts :: "nat list"
  mOpen :: "socket list"

section \<open>Addresses\<close>

text \<open>\<open>unmap_inet6_v4mapped\<close>: an IPv4 address mapped into IPv6 is replaced by the IPv4 address.\<close>

datatype sockaddr = sockaddr_in binary nat | sockaddr_in6 binary nat | sockaddr_other

definition IN6_IS_ADDR_V4MAPPED :: "binary \<Rightarrow> bool" where
  "IN6_IS_ADDR_V4MAPPED addr \<longleftrightarrow> take 12 addr = replicate 10 0 @ [0xFF, 0xFF]"

definition unmap_inet6_v4mapped :: "sockaddr \<Rightarrow> bool \<times> sockaddr" where
  "unmap_inet6_v4mapped sa =
     (case sa of
        sockaddr_in6 addr prt \<Rightarrow>
          if \<not> IN6_IS_ADDR_V4MAPPED addr then (False, sa)
          else (True, sockaddr_in (take 4 (drop 12 addr)) prt)
      | _ \<Rightarrow> (False, sa))"

section \<open>Construction\<close>

definition TcpTransport_active :: "string \<Rightarrow> string \<Rightarrow> bool \<Rightarrow> 'a TcpTransport" where
  "TcpTransport_active hostname service cb =
     Transport.extend (Transport_new None cb)
       (TcpTransport.fields True hostname service False None [] None (Queue_new 0 None) 0 [] 0 None [] [] [])"

definition TcpTransport_configureSocket :: "'a tcp_env \<Rightarrow> 'a TcpTransport \<Rightarrow> unit res \<times> 'a TcpTransport" where
  "TcpTransport_configureSocket E t =
     (let ok = net_nonblock E (mCalls t); t = t\<lparr>mCalls := mCalls t + 1\<rparr>
      in if \<not> ok then (Inl (runtime_error ''Failed to set socket non-blocking mode''), t) else (Inr (), t))"

text \<open>
  The constructor from a socket. \<open>peer\<close> is what \<open>getpeername\<close> gives, \<open>name\<close> the numeric host and
  service of an address.
\<close>

definition TcpTransport_passive ::
  "'a tcp_env \<Rightarrow> sockaddr option \<Rightarrow> (sockaddr \<Rightarrow> (string \<times> string) option) \<Rightarrow> socket \<Rightarrow> bool \<Rightarrow> 'a TcpTransport res" where
  "TcpTransport_passive E peer name sock cb =
     (let t = Transport.extend (Transport_new None cb)
                (TcpTransport.fields False [] [] False None [] (Some sock) (Queue_new 0 None) 0 [] 0 None [] [] [sock])
      in case TcpTransport_configureSocket E t of
           (Inl e, t) \<Rightarrow> Inl e
         | (Inr _, t) \<Rightarrow>
             (case peer of
                None \<Rightarrow> Inl (runtime_error ''getpeername failed'')
              | Some addr \<Rightarrow>
                  (case name (snd (unmap_inet6_v4mapped addr)) of
                     None \<Rightarrow> Inl (runtime_error ''getnameinfo failed'')
                   | Some (node, serv) \<Rightarrow> Inr (t\<lparr>mHostname := node, mService := serv\<rparr>))))"

definition TcpTransport_onBufferedAmount :: "bool \<Rightarrow> 'a TcpTransport \<Rightarrow> 'a TcpTransport" where
  "TcpTransport_onBufferedAmount cb t = t\<lparr>mBufferedAmountCallback := cb\<rparr>"

definition TcpTransport_setReadTimeout :: "nat \<Rightarrow> 'a TcpTransport \<Rightarrow> 'a TcpTransport" where
  "TcpTransport_setReadTimeout readTimeout t = t\<lparr>mReadTimeout := Some readTimeout\<rparr>"

definition TcpTransport_remoteAddress :: "'a TcpTransport \<Rightarrow> string" where
  "TcpTransport_remoteAddress t = mHostname t @ '':'' @ mService t"

definition TcpTransport_setPoll :: "Direction \<Rightarrow> 'a TcpTransport \<Rightarrow> 'a TcpTransport" where
  "TcpTransport_setPoll dir t =
     t\<lparr>mPoll := Some (dir, if dir = In then mReadTimeout t else None, ProcessCallback)\<rparr>"

definition TcpTransport_enqueue :: "tcp_task \<Rightarrow> 'a TcpTransport \<Rightarrow> 'a TcpTransport" where
  "TcpTransport_enqueue task t = t\<lparr>mTasks := mTasks t @ [task]\<rparr>"

section \<open>Sending\<close>

definition TcpTransport_updateBufferedAmount :: "int \<Rightarrow> 'a TcpTransport \<Rightarrow> 'a TcpTransport" where
  "TcpTransport_updateBufferedAmount delta t =
     (if delta = 0 then t
      else
        let amount = nat (max (int (mBufferedAmount t) + delta) 0)
        in t\<lparr>mBufferedAmount := amount,
             mAmounts := (if mBufferedAmountCallback t then mAmounts t @ [amount] else mAmounts t)\<rparr>)"

text \<open>
  \<open>trySendMessage\<close> on the bytes of a message. The result is what it returns or throws, the bytes of
  the message that replaces the argument, and the transport.
\<close>

function TcpTransport_trySendMessage :: "'a tcp_env \<Rightarrow> binary \<Rightarrow> 'a TcpTransport \<Rightarrow> bool res \<times> binary \<times> 'a TcpTransport" where
  "TcpTransport_trySendMessage E d t =
     (if d = [] then (Inr True, [], t)
      else
        let r = net_send E (mCalls t); t = t\<lparr>mCalls := mCalls t + 1\<rparr>
        in case r of
             SendAgain \<Rightarrow> (Inr False, d, t)
           | SendError \<Rightarrow> (Inl (runtime_error ''Connection closed''), d, t)
           | SendLen n \<Rightarrow>
               let len = max 1 (min n (length d))
               in TcpTransport_trySendMessage E (drop len d) (t\<lparr>wire := wire t @ take len d\<rparr>))"
  by pat_completeness auto
termination
  by (relation "measure (\<lambda>(E, d, t). length d)") auto

declare TcpTransport_trySendMessage.simps [simp del]

lemma trySendMessage_frame:
  "TcpTransport_trySendMessage E d t = (r, d', t') \<Longrightarrow> \<exists>n w. t' = t\<lparr>wire := w, mCalls := n\<rparr>"
proof (induction E d t arbitrary: r d' t' rule: TcpTransport_trySendMessage.induct)
  case (1 E d t)
  have id: "t = t\<lparr>wire := wire t, mCalls := mCalls t\<rparr>" "t\<lparr>mCalls := n\<rparr> = t\<lparr>wire := wire t, mCalls := n\<rparr>" for n by simp_all
  show ?case
  proof (cases "d = []")
    case True
    with 1(2) have "t' = t" by (simp add: TcpTransport_trySendMessage.simps)
    with id(1) show ?thesis by metis
  next
    case False
    show ?thesis
    proof (cases "net_send E (mCalls t)")
      case (SendLen n)
      let ?len = "max 1 (min n (length d))"
      let ?t = "t\<lparr>mCalls := mCalls t + 1, wire := wire t @ take ?len d\<rparr>"
      have "TcpTransport_trySendMessage E (drop ?len d) ?t = (r, d', t')"
        using 1(2) False SendLen by (subst (asm) TcpTransport_trySendMessage.simps) (simp add: Let_def)
      from 1(1) [OF False refl _ SendLen refl, of "t\<lparr>mCalls := mCalls t + 1\<rparr>"] this
      obtain n w where "t' = ?t\<lparr>wire := w, mCalls := n\<rparr>" by fastforce
      then have "t' = t\<lparr>wire := w, mCalls := n\<rparr>" by simp
      then show ?thesis by blast
    next
      case SendAgain
      with 1(2) False have "t' = t\<lparr>mCalls := mCalls t + 1\<rparr>"
        by (subst (asm) TcpTransport_trySendMessage.simps) (simp add: Let_def)
      with id(2) show ?thesis by metis
    next
      case SendError
      with 1(2) False have "t' = t\<lparr>mCalls := mCalls t + 1\<rparr>"
        by (subst (asm) TcpTransport_trySendMessage.simps) (simp add: Let_def)
      with id(2) show ?thesis by metis
    qed
  qed
qed

lemma updateBufferedAmount_queue [simp]:
  "mSendQueue (TcpTransport_updateBufferedAmount d t) = mSendQueue t"
  by (simp add: TcpTransport_updateBufferedAmount_def Let_def)

text \<open>The loop over the queue.\<close>

function TcpTransport_trySendQueue :: "'a tcp_env \<Rightarrow> 'a TcpTransport \<Rightarrow> bool res \<times> 'a TcpTransport" where
  "TcpTransport_trySendQueue E t =
     (case Queue_peek (mSendQueue t) of
        None \<Rightarrow> (Inr True, t)
      | Some message \<Rightarrow>
          (case TcpTransport_trySendMessage E (data message) t of
             (Inl e, _, t) \<Rightarrow> (Inl e, t)
           | (Inr sent, d, t) \<Rightarrow>
               if \<not> sent then
                 (Inr False, TcpTransport_updateBufferedAmount (- int (length (data message)) + int (length d))
                    (t\<lparr>mSendQueue := snd (Queue_exchange (mSendQueue t) (make_message d Binary))\<rparr>))
               else
                 TcpTransport_trySendQueue E
                   (TcpTransport_updateBufferedAmount (- int (length (data message)))
                      (t\<lparr>mSendQueue := snd (Queue_pop (mSendQueue t))\<rparr>))))"
  by pat_completeness auto
termination
proof (relation "measure (\<lambda>(E, t). length (mQueue (mSendQueue t)))", goal_cases)
  case (2 E t m r y sent d t')
  then have "TcpTransport_trySendMessage E (data m) t = (Inr sent, d, t')" by simp
  from trySendMessage_frame [OF this] have "mSendQueue t' = mSendQueue t" by auto
  with 2(1) show ?case by (auto simp: Queue_peek_def Queue_pop_def split: list.splits)
qed simp

declare TcpTransport_trySendQueue.simps [simp del]

definition TcpTransport_push :: "Message \<Rightarrow> 'a TcpTransport \<Rightarrow> 'a TcpTransport" where
  "TcpTransport_push message t =
     (case Queue_push (mSendQueue t) message of None \<Rightarrow> t | Some q \<Rightarrow> t\<lparr>mSendQueue := q\<rparr>)"

definition TcpTransport_outgoing :: "'a tcp_env \<Rightarrow> Message \<Rightarrow> 'a TcpTransport \<Rightarrow> bool res \<times> 'a TcpTransport" where
  "TcpTransport_outgoing E message t =
     (let queue = (\<lambda>message t. (Inr False,
            TcpTransport_setPoll Both
              (TcpTransport_updateBufferedAmount (int (length (data message))) (TcpTransport_push message t))))
      in case TcpTransport_trySendQueue E t of
           (Inl e, t) \<Rightarrow> (Inl e, t)
         | (Inr False, t) \<Rightarrow> queue message t
         | (Inr True, t) \<Rightarrow>
             (case TcpTransport_trySendMessage E (data message) t of
                (Inl e, _, t) \<Rightarrow> (Inl e, t)
              | (Inr True, _, t) \<Rightarrow> (Inr True, t)
              | (Inr False, d, t) \<Rightarrow> queue (make_message d Binary) t))"

definition TcpTransport_send :: "'a tcp_env \<Rightarrow> message_ptr \<Rightarrow> 'a TcpTransport \<Rightarrow> bool res \<times> 'a TcpTransport" where
  "TcpTransport_send E message t =
     (if mState t \<noteq> Connected then (Inl (runtime_error ''Connection is not open''), t)
      else case message of
        None \<Rightarrow> TcpTransport_trySendQueue E t
      | Some m \<Rightarrow>
          if length (data m) = 0 then TcpTransport_trySendQueue E t else TcpTransport_outgoing E m t)"

section \<open>Connecting\<close>

definition TcpTransport_connect :: "'a TcpTransport \<Rightarrow> unit res \<times> 'a TcpTransport" where
  "TcpTransport_connect t =
     (if mState t = Connecting then (Inl (logic_error ''TCP connection is already in progress''), t)
      else if mState t = Connected then (Inl (logic_error ''TCP is already connected''), t)
      else (Inr (), TcpTransport_enqueue Resolve (Transport_changeState Connecting t)))"

definition TcpTransport_start :: "'a TcpTransport \<Rightarrow> unit res \<times> 'a TcpTransport" where
  "TcpTransport_start t =
     (if mSock t = None then TcpTransport_connect t
      else (Inr (), TcpTransport_setPoll In (Transport_changeState Connected t)))"

definition TcpTransport_resolve :: "'a tcp_env \<Rightarrow> 'a TcpTransport \<Rightarrow> 'a TcpTransport" where
  "TcpTransport_resolve E t =
     (let t = t\<lparr>mResolved := []\<rparr>
      in if mState t \<noteq> Connecting then t
         else case net_resolve E (mHostname t) (mService t) of
           None \<Rightarrow> Transport_changeState Failed t
         | Some addrs \<Rightarrow> TcpTransport_enqueue Attempt (t\<lparr>mResolved := addrs\<rparr>))"

definition closesocket :: "'a TcpTransport \<Rightarrow> 'a TcpTransport" where
  "closesocket t = (case mSock t of None \<Rightarrow> t | Some s \<Rightarrow> t\<lparr>mOpen := remove1 s (mOpen t)\<rparr>)"

text \<open>The handler that closes the new socket before the exception goes on.\<close>

definition createSocket_fail :: "string \<Rightarrow> 'a TcpTransport \<Rightarrow> unit res \<times> 'a TcpTransport" where
  "createSocket_fail msg t =
     (Inl (runtime_error msg), if mSock t \<noteq> None then (closesocket t)\<lparr>mSock := None\<rparr> else t)"

definition TcpTransport_createSocket :: "'a tcp_env \<Rightarrow> 'a \<Rightarrow> 'a TcpTransport \<Rightarrow> unit res \<times> 'a TcpTransport" where
  "TcpTransport_createSocket E addr t =
     (case net_socket E (mCalls t) of
        None \<Rightarrow> createSocket_fail ''TCP socket creation failed'' (t\<lparr>mSock := None, mCalls := mCalls t + 1\<rparr>)
      | Some s \<Rightarrow>
          (case TcpTransport_configureSocket E (t\<lparr>mSock := Some s, mCalls := mCalls t + 1, mOpen := s # mOpen t\<rparr>) of
             (Inl (runtime_error msg), t) \<Rightarrow> createSocket_fail msg t
           | (Inl e, t) \<Rightarrow> (Inl e, t)
           | (Inr _, t) \<Rightarrow>
               let ok = net_connect E (mCalls t) addr; t = t\<lparr>mCalls := mCalls t + 1\<rparr>
               in if \<not> ok then createSocket_fail ''TCP connection failed'' t else (Inr (), t)))"

definition TcpTransport_attempt :: "'a tcp_env \<Rightarrow> 'a TcpTransport \<Rightarrow> 'a TcpTransport" where
  "TcpTransport_attempt E t =
     (if mState t \<noteq> Connecting then t
      else
        let t = (if mSock t = None then (closesocket t)\<lparr>mSock := None\<rparr> else t)
        in case mResolved t of
             [] \<Rightarrow> Transport_changeState Failed t
           | addr # rest \<Rightarrow>
               (case TcpTransport_createSocket E addr (t\<lparr>mResolved := rest\<rparr>) of
                  (Inl e, t) \<Rightarrow> TcpTransport_enqueue Attempt t
                | (Inr _, t) \<Rightarrow> t\<lparr>mPoll := Some (Out, Some 10000, ConnectCallback)\<rparr>))"

text \<open>
  The callback that \<open>attempt\<close> registers. \<open>so_error\<close> is what \<open>getsockopt\<close> reads, if it succeeds.
\<close>

definition TcpTransport_connectCallback :: "Event \<Rightarrow> int option \<Rightarrow> 'a TcpTransport \<Rightarrow> 'a TcpTransport" where
  "TcpTransport_connectCallback event so_error t =
     (let fail = TcpTransport_enqueue Attempt (t\<lparr>mPoll := None\<rparr>)
      in if event = Error then fail
         else if event = Timeout then fail
         else if event \<noteq> OutEvent then t
         else case so_error of
           None \<Rightarrow> fail
         | Some err \<Rightarrow>
             if err \<noteq> 0 then fail
             else TcpTransport_setPoll In (Transport_changeState Connected t))"

definition TcpTransport_close :: "'a TcpTransport \<Rightarrow> 'a TcpTransport" where
  "TcpTransport_close t =
     Transport_changeState Disconnected
       (if mSock t \<noteq> None then (closesocket (t\<lparr>mPoll := None\<rparr>))\<lparr>mSock := None\<rparr> else t)"

section \<open>Poll events\<close>

definition TcpTransport_incoming :: "message_ptr \<Rightarrow> 'a TcpTransport \<Rightarrow> 'a TcpTransport" where
  "TcpTransport_incoming message t = (if message = None then t else Transport_recv message t)"

text \<open>
  The loop over \<open>recv\<close>, on the results the calls return; each takes at most 4096 bytes. The first
  component is false when the loop leaves the \<open>switch\<close> because the connection is gone.
\<close>

fun TcpTransport_readLoop :: "recv_return list \<Rightarrow> 'a TcpTransport \<Rightarrow> bool \<times> 'a TcpTransport" where
  "TcpTransport_readLoop [] t = (True, t)"
| "TcpTransport_readLoop (r # rs) t =
     (case r of
        RecvData b \<Rightarrow> TcpTransport_readLoop rs (TcpTransport_incoming (Some (make_message b Binary)) t)
      | RecvEof \<Rightarrow> (False, t)
      | RecvAgain \<Rightarrow> (True, t)
      | RecvError \<Rightarrow> (False, t))"

definition TcpTransport_disconnected :: "'a TcpTransport \<Rightarrow> 'a TcpTransport" where
  "TcpTransport_disconnected t = Transport_recv None (Transport_changeState Disconnected (t\<lparr>mPoll := None\<rparr>))"

definition TcpTransport_process :: "'a tcp_env \<Rightarrow> Event \<Rightarrow> recv_return list \<Rightarrow> 'a TcpTransport \<Rightarrow> 'a TcpTransport" where
  "TcpTransport_process E event reads t =
     (case event of
        Error \<Rightarrow> TcpTransport_disconnected t
      | Timeout \<Rightarrow> TcpTransport_setPoll In (TcpTransport_incoming (Some (make_message_size 0 Binary 0 None)) t)
      | OutEvent \<Rightarrow>
          (case TcpTransport_trySendQueue E t of
             (Inl e, t) \<Rightarrow> TcpTransport_disconnected t
           | (Inr sent, t) \<Rightarrow> if sent then TcpTransport_setPoll In t else t)
      | InEvent \<Rightarrow>
          (case TcpTransport_readLoop reads t of
             (True, t) \<Rightarrow> t
           | (False, t) \<Rightarrow> TcpTransport_disconnected t)
      | NoEvent \<Rightarrow> t)"

definition tcp_ops :: "'a tcp_env \<Rightarrow> 'a TcpTransport lower_ops" where
  "tcp_ops E = \<lparr>lower_send = (\<lambda>t m. TcpTransport_send E m t),
                lower_onRecv = (\<lambda>t cb. Transport_onRecv cb t), lower_stop = (\<lambda>t. t)\<rparr>"

section \<open>What sending does\<close>

definition pending :: "'a TcpTransport \<Rightarrow> binary" where
  "pending t = concat (map data (mQueue (mSendQueue t)))"

text \<open>The stream of bytes accepted so far: what the socket took, then what is queued.\<close>

definition TcpTransport_sent :: "'a TcpTransport \<Rightarrow> binary" where
  "TcpTransport_sent t = wire t @ pending t"

definition net_reliable :: "'a tcp_env \<Rightarrow> bool" where
  "net_reliable E \<longleftrightarrow> (\<forall>n. net_send E n \<noteq> SendError)"

lemma trySendMessage_spec:
  assumes "TcpTransport_trySendMessage E d t = (r, d', t')"
  shows "wire t' @ d' = wire t @ d \<and> length d' \<le> length d \<and> (r = Inr True \<longrightarrow> d' = []) \<and> (r = Inr False \<longrightarrow> d' \<noteq> [])
    \<and> (net_reliable E \<longrightarrow> r \<in> range Inr)"
  using assms
proof (induction E d t arbitrary: r d' t' rule: TcpTransport_trySendMessage.induct)
  case (1 E d t)
  show ?case
  proof (cases "d = []")
    case True
    with 1(2) show ?thesis by (auto simp: TcpTransport_trySendMessage.simps)
  next
    case False
    show ?thesis
    proof (cases "net_send E (mCalls t)")
      case (SendLen n)
      let ?len = "max 1 (min n (length d))"
      have "TcpTransport_trySendMessage E (drop ?len d) (t\<lparr>mCalls := mCalls t + 1, wire := wire t @ take ?len d\<rparr>) = (r, d', t')"
        using 1(2) False SendLen by (subst (asm) TcpTransport_trySendMessage.simps) (simp add: Let_def)
      then have "TcpTransport_trySendMessage E (drop ?len d) ((t\<lparr>mCalls := mCalls t + 1\<rparr>)
          \<lparr>wire := wire (t\<lparr>mCalls := mCalls t + 1\<rparr>) @ take ?len d\<rparr>) = (r, d', t')" by simp
      from 1(1) [OF False refl refl SendLen refl this]
      have IH: "wire t' @ d' = (wire t @ take ?len d) @ drop ?len d" "length d' \<le> length (drop ?len d)"
        "r = Inr True \<longrightarrow> d' = []" "r = Inr False \<longrightarrow> d' \<noteq> []" "net_reliable E \<longrightarrow> r \<in> range Inr"
        by simp_all
      have "length d' \<le> length d" using IH(2) by simp
      with IH show ?thesis by simp
    next
      case SendAgain
      with 1(2) False show ?thesis
        by (subst (asm) TcpTransport_trySendMessage.simps) (auto simp add: Let_def)
    next
      case SendError
      with 1(2) False show ?thesis
        by (subst (asm) TcpTransport_trySendMessage.simps) (auto simp add: Let_def net_reliable_def)
    qed
  qed
qed

text \<open>The invariant of the send queue: it holds no empty message, and the buffered amount is its size.\<close>

definition tcp_inv :: "'a TcpTransport \<Rightarrow> bool" where
  "tcp_inv t \<longleftrightarrow> mBufferedAmount t = length (pending t) \<and> list_all (\<lambda>m. data m \<noteq> []) (mQueue (mSendQueue t))
     \<and> mLimit (mSendQueue t) = 0 \<and> \<not> mStopping (mSendQueue t)"

definition same_link :: "'a TcpTransport \<Rightarrow> 'a TcpTransport \<Rightarrow> bool" where
  "same_link t t' \<longleftrightarrow> mState t' = mState t \<and> mPoll t' = mPoll t \<and> mSock t' = mSock t \<and> mTasks t' = mTasks t
     \<and> mOpen t' = mOpen t \<and> trace t' = trace t \<and> mReadTimeout t' = mReadTimeout t \<and> mRecvCallback t' = mRecvCallback t"

lemma same_link_trans: "same_link a b \<Longrightarrow> same_link b c \<Longrightarrow> same_link a c"
  by (simp add: same_link_def)

lemma updateBufferedAmount_simps [simp]:
  "wire (TcpTransport_updateBufferedAmount d t) = wire t"
  "same_link t (TcpTransport_updateBufferedAmount d t')  = same_link t t'"
  "mBufferedAmount (TcpTransport_updateBufferedAmount d t) = nat (int (mBufferedAmount t) + d)"
  by (auto simp: TcpTransport_updateBufferedAmount_def Let_def same_link_def max_def)

lemma same_link_queue [simp]: "same_link t (t'\<lparr>mSendQueue := q\<rparr>) = same_link t t'"
  by (simp add: same_link_def)

text \<open>
  Flushing the queue: nothing is lost, duplicated or reordered; the accounting stays exact; the
  result is true exactly when the queue is empty.
\<close>

lemma trySendQueue_spec:
  assumes "TcpTransport_trySendQueue E t = (r, t')" "tcp_inv t"
  shows "tcp_inv t' \<and> same_link t t' \<and> (r \<in> range Inr \<longrightarrow> TcpTransport_sent t' = TcpTransport_sent t)
    \<and> (r = Inr True \<longleftrightarrow> r \<in> range Inr \<and> mQueue (mSendQueue t') = []) \<and> (net_reliable E \<longrightarrow> r \<in> range Inr)"
  using assms
proof (induction E t arbitrary: r t' rule: TcpTransport_trySendQueue.induct)
  case (1 E t)
  show ?case
  proof (cases "mQueue (mSendQueue t)")
    case Nil
    then have "r = Inr True" "t' = t" using 1(2) by (simp_all add: TcpTransport_trySendQueue.simps Queue_peek_def)
    with Nil 1(3) show ?thesis by (simp add: same_link_def)
  next
    case (Cons m ms)
    then have peek: "Queue_peek (mSendQueue t) = Some m" by (simp add: Queue_peek_def)
    obtain r1 d1 t1 where m: "TcpTransport_trySendMessage E (data m) t = (r1, d1, t1)" by (metis prod_cases3)
    note sp = trySendMessage_spec [OF m]
    obtain n w where "t1 = t\<lparr>wire := w, mCalls := n\<rparr>" using trySendMessage_frame [OF m] by blast
    then have link: "same_link t t1" and q1: "mSendQueue t1 = mSendQueue t" "mBufferedAmount t1 = mBufferedAmount t"
      by (simp_all add: same_link_def)
    have amt: "mBufferedAmount t = length (data m) + length (concat (map data ms))"
      using 1(3) Cons by (simp add: tcp_inv_def pending_def)
    have inv: "list_all (\<lambda>m. data m \<noteq> []) ms" "data m \<noteq> []" "mLimit (mSendQueue t) = 0" "\<not> mStopping (mSendQueue t)"
      using 1(3) Cons by (simp_all add: tcp_inv_def)
    show ?thesis
    proof (cases r1)
      case (Inl e)
      then have "r = Inl e" "t' = t1" using 1(2) m peek by (simp_all add: TcpTransport_trySendQueue.simps)
      then show ?thesis using link q1 1(3) sp Inl by (auto simp: tcp_inv_def pending_def)
    next
      case (Inr b)
      show ?thesis
      proof (cases b)
        case False
        let ?q = "snd (Queue_exchange (mSendQueue t1) (make_message d1 Binary))"
        have q: "mQueue ?q = make_message d1 Binary # ms" "mLimit ?q = 0" "\<not> mStopping ?q"
          using q1 Cons inv by (simp_all add: Queue_exchange_def)
        have r: "r = Inr False" "t' = TcpTransport_updateBufferedAmount (- int (length (data m)) + int (length d1)) (t1\<lparr>mSendQueue := ?q\<rparr>)"
          using 1(2) m peek Inr False by (simp_all add: TcpTransport_trySendQueue.simps)
        have inv': "tcp_inv t'" using r q q1 amt inv sp Inr False by (auto simp: tcp_inv_def pending_def)
        have "TcpTransport_sent t' = (wire t1 @ d1) @ concat (map data ms)"
          using r q by (simp add: TcpTransport_sent_def pending_def)
        also have "\<dots> = TcpTransport_sent t"
          using Cons unfolding conjunct1 [OF sp] by (simp add: TcpTransport_sent_def pending_def)
        finally have "TcpTransport_sent t' = TcpTransport_sent t" .
        moreover have "same_link t t'" using link r by simp
        moreover have "mQueue (mSendQueue t') \<noteq> []" using r q by simp
        ultimately show ?thesis using r inv' by simp
      next
        case True
        let ?q = "snd (Queue_pop (mSendQueue t1))"
        let ?u = "TcpTransport_updateBufferedAmount (- int (length (data m))) (t1\<lparr>mSendQueue := ?q\<rparr>)"
        have q: "mQueue ?q = ms" "mLimit ?q = 0" "\<not> mStopping ?q" using q1 Cons inv by (simp_all add: Queue_pop_def)
        have step: "TcpTransport_trySendQueue E ?u = (r, t')"
          using 1(2) m peek Inr True by (subst (asm) TcpTransport_trySendQueue.simps) simp
        have u: "tcp_inv ?u" "same_link t ?u" using q q1 amt inv link by (simp_all add: tcp_inv_def pending_def)
        have "TcpTransport_sent ?u = TcpTransport_sent t"
          using q sp Cons Inr True by (auto simp: TcpTransport_sent_def pending_def)
        moreover have "\<not> \<not> b" using True by simp
        note IH = 1(1) [OF peek m [symmetric] Inr refl this step u(1)]
        have "same_link t t'" using same_link_trans [OF u(2)] IH by blast
        ultimately show ?thesis using IH by metis
      qed
    qed
  qed
qed

lemma push_spec:
  assumes "tcp_inv t" "data m \<noteq> []"
    and u: "u = TcpTransport_updateBufferedAmount (int (length (data m))) (TcpTransport_push m t)"
  shows "tcp_inv u" "same_link t u" "TcpTransport_sent u = TcpTransport_sent t @ data m"
proof -
  let ?q = "(mSendQueue t)\<lparr>mAmount := mAmount (mSendQueue t) + word_of_nat (mAmountFunction (mSendQueue t) m),
              mQueue := mQueue (mSendQueue t) @ [m]\<rparr>"
  have "TcpTransport_push m t = t\<lparr>mSendQueue := ?q\<rparr>"
    using assms(1) by (simp add: TcpTransport_push_def Queue_push_def tcp_inv_def)
  with assms show "tcp_inv u" "same_link t u" "TcpTransport_sent u = TcpTransport_sent t @ data m"
    by (simp_all add: tcp_inv_def pending_def TcpTransport_sent_def, simp add: same_link_def)
qed

lemma setPoll_simps [simp]:
  "mState (TcpTransport_setPoll d t) = mState t" "mSendQueue (TcpTransport_setPoll d t) = mSendQueue t"
  "tcp_inv (TcpTransport_setPoll d t) = tcp_inv t" "TcpTransport_sent (TcpTransport_setPoll d t) = TcpTransport_sent t"
  "mPoll (TcpTransport_setPoll d t) = Some (d, if d = In then mReadTimeout t else None, ProcessCallback)"
  by (simp_all add: TcpTransport_setPoll_def tcp_inv_def pending_def TcpTransport_sent_def)

text \<open>
  Queued data is always waited for: while the connection is open and the queue is not empty, the
  socket is registered for both directions.
\<close>

definition poll_waits :: "'a TcpTransport \<Rightarrow> bool" where
  "poll_waits t \<longleftrightarrow> (mState t = Connected \<and> mQueue (mSendQueue t) \<noteq> [] \<longrightarrow> mPoll t = Some (Both, None, ProcessCallback))"

lemma poll_waits_Both [simp]: "poll_waits (TcpTransport_setPoll Both t)"
  by (simp add: poll_waits_def)

lemma outgoing_spec:
  assumes "TcpTransport_outgoing E m t = (r, t')" "tcp_inv t" "data m \<noteq> []"
  shows "tcp_inv t' \<and> mState t' = mState t \<and> (poll_waits t \<longrightarrow> poll_waits t')
    \<and> (r \<in> range Inr \<longrightarrow> TcpTransport_sent t' = TcpTransport_sent t @ data m) \<and> (net_reliable E \<longrightarrow> r \<in> range Inr)"
proof -
  obtain r1 t1 where q: "TcpTransport_trySendQueue E t = (r1, t1)" by fastforce
  note s1 = trySendQueue_spec [OF q assms(2)]
  let ?queue = "\<lambda>m t. TcpTransport_setPoll Both (TcpTransport_updateBufferedAmount (int (length (data m))) (TcpTransport_push m t))"
  consider e where "r1 = Inl e" | "r1 = Inr False" | "r1 = Inr True"
    by (metis (full_types) sum.exhaust)
  then show ?thesis
  proof cases
    case 1
    then have "r = r1" "t' = t1" using assms(1) q by (simp_all add: TcpTransport_outgoing_def)
    moreover have "mQueue (mSendQueue t) \<noteq> []" using q 1
      by (auto simp: TcpTransport_trySendQueue.simps [of E t] Queue_peek_def split: list.splits)
    ultimately show ?thesis using s1 1 by (auto simp: same_link_def poll_waits_def)
  next
    case 2
    then have r: "r = Inr False" "t' = ?queue m t1" using assms(1) q by (simp_all add: TcpTransport_outgoing_def)
    have "tcp_inv t1" using s1 by simp
    note p = push_spec [OF this assms(3) refl]
    show ?thesis using s1 2 r p by (simp add: same_link_def)
  next
    case 3
    then have e: "mQueue (mSendQueue t1) = []" "tcp_inv t1" "same_link t t1" "TcpTransport_sent t1 = TcpTransport_sent t"
      using s1 by simp_all
    obtain r2 d t2 where m: "TcpTransport_trySendMessage E (data m) t1 = (r2, d, t2)" by (metis prod_cases3)
    note s2 = trySendMessage_spec [OF m]
    obtain n w where "t2 = t1\<lparr>wire := w, mCalls := n\<rparr>" using trySendMessage_frame [OF m] by blast
    then have t2: "tcp_inv t2" "same_link t t2" "mSendQueue t2 = mSendQueue t1" "pending t2 = []"
      using e by (simp_all add: tcp_inv_def same_link_def pending_def)
    consider e where "r2 = Inl e" | "r2 = Inr False" | "r2 = Inr True" by (metis (full_types) sum.exhaust)
    then show ?thesis
    proof cases
      case 1
      then have "r = Inl e" "t' = t2" using assms(1) q m 3 by (simp_all add: TcpTransport_outgoing_def)
      then show ?thesis using t2 e s2 1 by (auto simp: same_link_def poll_waits_def)
    next
      case 2
      then have r: "r = Inr False" "t' = ?queue (make_message d Binary) t2"
        using assms(1) q m 3 by (simp_all add: TcpTransport_outgoing_def)
      have d: "data (make_message d Binary) \<noteq> []" using s2 2 by simp
      note p = push_spec [OF t2(1) d refl]
      have "TcpTransport_sent t2 @ d = TcpTransport_sent t @ data m"
        using s2 e t2 by (simp add: TcpTransport_sent_def pending_def)
      then show ?thesis using r p t2 by (simp add: same_link_def rangeI)
    next
      case 3
      then have r: "r = Inr True" "t' = t2" using assms(1) q m \<open>r1 = Inr True\<close> by (simp_all add: TcpTransport_outgoing_def)
      have "TcpTransport_sent t2 = TcpTransport_sent t @ data m"
        using s2 e t2 3 by (auto simp add: TcpTransport_sent_def pending_def)
      then show ?thesis using r t2 e by (simp add: same_link_def poll_waits_def rangeI)
    qed
  qed
qed

lemma send_spec:
  assumes "TcpTransport_send E (Some m) t = (r, t')" "tcp_inv t" "mState t = Connected"
  shows "tcp_inv t' \<and> mState t' = mState t \<and> (poll_waits t \<longrightarrow> poll_waits t')
    \<and> (r \<in> range Inr \<longrightarrow> TcpTransport_sent t' = TcpTransport_sent t @ data m) \<and> (net_reliable E \<longrightarrow> r \<in> range Inr)"
proof (cases "data m = []")
  case True
  then have q: "TcpTransport_trySendQueue E t = (r, t')" using assms by (simp add: TcpTransport_send_def)
  have "mQueue (mSendQueue t) = [] \<Longrightarrow> t' = t" using q by (simp add: TcpTransport_trySendQueue.simps Queue_peek_def)
  with trySendQueue_spec [OF q assms(2)] True show ?thesis by (auto simp: same_link_def poll_waits_def)
next
  case False
  then have "TcpTransport_outgoing E m t = (r, t')" using assms by (simp add: TcpTransport_send_def)
  from outgoing_spec [OF this assms(2) False] show ?thesis .
qed

definition TcpTransport_usable :: "'a tcp_env \<Rightarrow> 'a TcpTransport \<Rightarrow> bool" where
  "TcpTransport_usable E t \<longleftrightarrow> net_reliable E \<and> mState t = Connected \<and> tcp_inv t"

text \<open>An open TCP connection is a byte stream for the transport above it.\<close>

interpretation tcp: byte_stream "tcp_ops E" "TcpTransport_usable E" TcpTransport_sent for E :: "'a tcp_env"
proof
  fix l :: "'a TcpTransport" and m
  assume u: "TcpTransport_usable E l"
  then have l: "net_reliable E" "tcp_inv l" "mState l = Connected" by (simp_all add: TcpTransport_usable_def)
  from u show "TcpTransport_usable E (lower_onRecv (tcp_ops E) l b)" for b
    by (simp add: TcpTransport_usable_def tcp_ops_def Transport_onRecv_def tcp_inv_def pending_def)
  obtain r l' where s: "TcpTransport_send E (Some m) l = (r, l')" by fastforce
  from send_spec [OF s l(2,3)] l(1) s
  show "\<exists>b l'. lower_send (tcp_ops E) l (Some m) = (Inr b, l')" by (auto simp: tcp_ops_def)
  {
    fix r l'
    assume "lower_send (tcp_ops E) l (Some m) = (r, l')"
    then have s: "TcpTransport_send E (Some m) l = (r, l')" by (simp add: tcp_ops_def)
    from send_spec [OF s l(2,3)] l
    show "TcpTransport_usable E l'" "TcpTransport_sent l' = TcpTransport_sent l @ data m"
      by (simp_all add: TcpTransport_usable_def)
  }
qed (simp add: tcp_ops_def Transport_onRecv_def TcpTransport_sent_def pending_def)

section \<open>The life of a connection\<close>

definition event_matches :: "Direction \<times> nat option \<times> poll_callback \<Rightarrow> Event \<Rightarrow> bool" where
  "event_matches reg e = (case reg of (dir, tmo, cb) \<Rightarrow>
     (case e of InEvent \<Rightarrow> dir \<noteq> Out | OutEvent \<Rightarrow> dir \<noteq> In | Timeout \<Rightarrow> tmo \<noteq> None | Error \<Rightarrow> True | NoEvent \<Rightarrow> False))"

text \<open>The poll service drops a registration before it reports an error or a timeout.\<close>

definition dropped :: "Event \<Rightarrow> 'a TcpTransport \<Rightarrow> 'a TcpTransport" where
  "dropped e t = (if e = Error \<or> e = Timeout then t\<lparr>mPoll := None\<rparr> else t)"

inductive tcp_step :: "'a tcp_env \<Rightarrow> 'a TcpTransport \<Rightarrow> 'a TcpTransport \<Rightarrow> bool" for E where
  send: "tcp_step E t (snd (TcpTransport_send E m t))"
| resolve: "mTasks t = Resolve # rest \<Longrightarrow> tcp_step E t (TcpTransport_resolve E (t\<lparr>mTasks := rest\<rparr>))"
| attempt: "mTasks t = Attempt # rest \<Longrightarrow> tcp_step E t (TcpTransport_attempt E (t\<lparr>mTasks := rest\<rparr>))"
| connecting: "mPoll t = Some (dir, tmo, ConnectCallback) \<Longrightarrow> event_matches (dir, tmo, ConnectCallback) e
    \<Longrightarrow> tcp_step E t (TcpTransport_connectCallback e err (dropped e t))"
| process: "mPoll t = Some (dir, tmo, ProcessCallback) \<Longrightarrow> event_matches (dir, tmo, ProcessCallback) e
    \<Longrightarrow> tcp_step E t (TcpTransport_process E e reads (dropped e t))"
| late_out: "mState t \<noteq> Connecting \<Longrightarrow> mSock t \<noteq> None \<Longrightarrow> tcp_step E t (TcpTransport_process E OutEvent [] t)"
| close: "tcp_step E t (TcpTransport_close t)"

inductive_cases tcp_stepE: "tcp_step E t t'"

definition tcp_started :: "'a TcpTransport \<Rightarrow> bool" where
  "tcp_started t \<longleftrightarrow> (\<exists>h s cb. t = snd (TcpTransport_start (TcpTransport_active h s cb)))"

text \<open>
  While connecting, exactly one thing is outstanding: a task on the thread pool or the poll for the
  end of the attempt. So a connection attempt is never forgotten.
\<close>

definition link_inv :: "'a TcpTransport \<Rightarrow> bool" where
  "link_inv t \<longleftrightarrow> length (mTasks t) \<le> 1
     \<and> (mState t = Connecting \<longrightarrow> mQueue (mSendQueue t) = [] \<and> (mTasks t \<noteq> [] \<longleftrightarrow> mPoll t = None))
     \<and> (\<forall>d tm. mPoll t = Some (d, tm, ConnectCallback) \<longrightarrow> mState t = Connecting \<and> mTasks t = [])
     \<and> (mState t = Connecting \<longrightarrow> (\<forall>d tm. mPoll t \<noteq> Some (d, tm, ProcessCallback)))
     \<and> (mPoll t \<noteq> None \<longrightarrow> mSock t \<noteq> None) \<and> (mState t = Connected \<longrightarrow> mSock t \<noteq> None)
     \<and> (\<forall>tm. mPoll t = Some (Both, tm, ProcessCallback) \<longrightarrow> tm = None)"

definition tcp_ok :: "'a TcpTransport \<Rightarrow> bool" where
  "tcp_ok t \<longleftrightarrow> tcp_inv t \<and> poll_waits t \<and> link_inv t"

lemma link_simps [simp]:
  "mTasks (TcpTransport_setPoll dir t) = mTasks t" "mSock (TcpTransport_setPoll dir t) = mSock t"
  "mTasks (TcpTransport_updateBufferedAmount n t) = mTasks t" "mSock (TcpTransport_updateBufferedAmount n t) = mSock t"
  "mTasks (TcpTransport_push m t) = mTasks t" "mSock (TcpTransport_push m t) = mSock t"
  by (simp_all add: TcpTransport_setPoll_def TcpTransport_updateBufferedAmount_def Let_def TcpTransport_push_def
      split: option.splits)

lemma outgoing_link:
  assumes "TcpTransport_outgoing E m t = (r, t')" "tcp_inv t" "data m \<noteq> []"
  shows "mTasks t' = mTasks t \<and> mSock t' = mSock t \<and> (mPoll t' = mPoll t \<or> mPoll t' = Some (Both, None, ProcessCallback))"
proof -
  obtain r1 t1 where q: "TcpTransport_trySendQueue E t = (r1, t1)" by fastforce
  note s1 = trySendQueue_spec [OF q assms(2)]
  obtain r2 d t2 where m: "TcpTransport_trySendMessage E (data m) t1 = (r2, d, t2)" by (metis prod_cases3)
  obtain n w where t2: "t2 = t1\<lparr>wire := w, mCalls := n\<rparr>" using trySendMessage_frame [OF m] by blast
  have link: "same_link t t1" "same_link t t2" using s1 t2 by (simp_all add: same_link_def)
  let ?queue = "\<lambda>m t. TcpTransport_setPoll Both (TcpTransport_updateBufferedAmount (int (length (data m))) (TcpTransport_push m t))"
  have "t' = t1 \<or> t' = t2 \<or> t' = ?queue m t1 \<or> t' = ?queue (make_message d Binary) t2"
    using assms(1) q m by (auto simp: TcpTransport_outgoing_def Let_def split: sum.splits bool.splits)
  with link show ?thesis by (auto simp: same_link_def)
qed

lemma send_ok: "tcp_ok t \<Longrightarrow> tcp_ok (snd (TcpTransport_send E m t))"
proof (cases "mState t = Connected")
  case True
  assume ok: "tcp_ok t"
  obtain r t' where s: "TcpTransport_send E m t = (r, t')" by fastforce
  show ?thesis
  proof (cases "m = None \<or> data (the m) = []")
    case e: True
    then have q: "TcpTransport_trySendQueue E t = (r, t')" using s True by (auto simp: TcpTransport_send_def split: option.splits)
    have e: "mQueue (mSendQueue t) = [] \<Longrightarrow> t' = t" using q by (simp add: TcpTransport_trySendQueue.simps Queue_peek_def)
    from trySendQueue_spec [OF q] ok e True show ?thesis
      by (auto simp: s tcp_ok_def same_link_def link_inv_def poll_waits_def)
  next
    case False
    then obtain m' where m': "m = Some m'" "data m' \<noteq> []" by auto
    then have o: "TcpTransport_outgoing E m' t = (r, t')" using s True by (simp add: TcpTransport_send_def)
    have inv: "tcp_inv t" using ok by (simp add: tcp_ok_def)
    note sp = outgoing_spec [OF o inv m'(2)] and lk = outgoing_link [OF o inv m'(2)]
    have "link_inv t'" using lk sp ok True by (cases "mPoll t' = mPoll t") (simp_all add: tcp_ok_def link_inv_def)
    with sp ok show ?thesis by (simp add: s tcp_ok_def)
  qed
qed (simp add: TcpTransport_send_def)

lemma tcp_base_simps [simp]:
  fixes t :: "'a TcpTransport"
  shows "mTasks (Transport_recv m t) = mTasks t" "mSock (Transport_recv m t) = mSock t"
    "mSendQueue (Transport_recv m t) = mSendQueue t" "mPoll (Transport_recv m t) = mPoll t"
    "mBufferedAmount (Transport_recv m t) = mBufferedAmount t" "mReadTimeout (Transport_recv m t) = mReadTimeout t"
    "mTasks (Transport_changeState s t) = mTasks t" "mSock (Transport_changeState s t) = mSock t"
    "mSendQueue (Transport_changeState s t) = mSendQueue t" "mPoll (Transport_changeState s t) = mPoll t"
    "mBufferedAmount (Transport_changeState s t) = mBufferedAmount t"
    "mReadTimeout (Transport_changeState s t) = mReadTimeout t" "mResolved (Transport_changeState s t) = mResolved t"
    "tcp_inv (Transport_changeState s t) = tcp_inv t"
  by (simp_all add: Transport_recv_def Transport_changeState_def tcp_inv_def pending_def)

lemma tcp_inv_upd [simp]:
  "tcp_inv (t\<lparr>mPoll := p\<rparr>) = tcp_inv t" "tcp_inv (t\<lparr>mTasks := ts\<rparr>) = tcp_inv t" "tcp_inv (t\<lparr>mResolved := as\<rparr>) = tcp_inv t"
  "tcp_inv (t\<lparr>mSock := sk\<rparr>) = tcp_inv t" "tcp_inv (t\<lparr>mOpen := os\<rparr>) = tcp_inv t"
  by (simp_all add: tcp_inv_def pending_def)

lemma recv_ok_simps [simp]:
  "tcp_inv (Transport_recv m t) = tcp_inv t" "poll_waits (Transport_recv m t) = poll_waits t"
  "link_inv (Transport_recv m t) = link_inv t"
  by (simp_all add: Transport_recv_def tcp_inv_def poll_waits_def link_inv_def pending_def)

lemma disconnected_ok: "tcp_inv t \<Longrightarrow> link_inv t \<Longrightarrow> tcp_ok (TcpTransport_disconnected t)"
  by (simp add: tcp_ok_def TcpTransport_disconnected_def poll_waits_def link_inv_def)

lemma readLoop_ok:
  "TcpTransport_readLoop rs t = (b, t') \<Longrightarrow> tcp_inv t' = tcp_inv t \<and> poll_waits t' = poll_waits t \<and> link_inv t' = link_inv t"
  by (induction rs t rule: TcpTransport_readLoop.induct) (auto simp: TcpTransport_incoming_def split: recv_return.splits)

lemma process_out_ok:
  assumes ok: "tcp_ok t" "mState t \<noteq> Connecting" "mSock t \<noteq> None"
  shows "tcp_ok (TcpTransport_process E OutEvent reads t)"
proof -
  obtain r t' where q: "TcpTransport_trySendQueue E t = (r, t')" by fastforce
  have e: "mQueue (mSendQueue t) = [] \<Longrightarrow> t' = t" using q by (simp add: TcpTransport_trySendQueue.simps Queue_peek_def)
  have inv: "tcp_inv t" using ok by (simp add: tcp_ok_def)
  note s = trySendQueue_spec [OF q inv]
  have l: "link_inv t'" "mSock t' \<noteq> None" "mState t' \<noteq> Connecting"
    using s ok by (auto simp: tcp_ok_def link_inv_def same_link_def)
  consider e where "r = Inl e" | "r = Inr False" | "r = Inr True" by (metis (full_types) sum.exhaust)
  then show ?thesis
  proof cases
    case 1
    then show ?thesis using q s l by (simp add: TcpTransport_process_def disconnected_ok)
  next
    case 2
    then have "poll_waits t'" using e s ok by (cases "mQueue (mSendQueue t) = []") (auto simp: poll_waits_def same_link_def tcp_ok_def)
    then show ?thesis using 2 q s l by (simp add: TcpTransport_process_def tcp_ok_def)
  next
    case 3
    then have "mQueue (mSendQueue t') = []" using s by simp
    with 3 q s l ok show ?thesis
      by (auto simp: TcpTransport_process_def tcp_ok_def poll_waits_def link_inv_def)
  qed
qed

lemma process_ok:
  assumes ok: "tcp_ok t" and p: "mPoll t = Some (dir, tmo, ProcessCallback)" "event_matches (dir, tmo, ProcessCallback) e"
  shows "tcp_ok (TcpTransport_process E e reads (dropped e t))"
proof -
  have l: "mState t \<noteq> Connecting" "mSock t \<noteq> None" using ok p by (auto simp: tcp_ok_def link_inv_def)
  have inv: "tcp_inv t" "link_inv t" "poll_waits t" using ok by (simp_all add: tcp_ok_def)
  have drop: "tcp_inv (t\<lparr>mPoll := None\<rparr>)" "link_inv (t\<lparr>mPoll := None\<rparr>)"
    using inv l by (simp_all add: link_inv_def)
  show ?thesis
  proof (cases e)
    case NoEvent
    then show ?thesis using p by (simp add: event_matches_def)
  next
    case Error
    then show ?thesis using drop by (simp add: TcpTransport_process_def dropped_def disconnected_ok)
  next
    case Timeout
    then have "mState t \<noteq> Connected \<or> mQueue (mSendQueue t) = []"
      using p inv(3) by (auto simp: event_matches_def poll_waits_def)
    then show ?thesis using Timeout drop l inv(2)
      by (auto simp: TcpTransport_process_def dropped_def TcpTransport_incoming_def tcp_ok_def poll_waits_def
          link_inv_def)
  next
    case InEvent
    obtain b t' where r: "TcpTransport_readLoop reads t = (b, t')" by fastforce
    have t': "tcp_inv t'" "link_inv t'" "tcp_ok t'" using readLoop_ok [OF r] ok by (simp_all add: tcp_ok_def)
    show ?thesis
      by (cases b) (use r t' in \<open>simp_all add: InEvent TcpTransport_process_def dropped_def disconnected_ok\<close>)
  next
    case OutEvent
    then show ?thesis using process_out_ok [OF ok l] by (simp add: dropped_def)
  qed
qed

lemma createSocket_frame:
  assumes "TcpTransport_createSocket E a t = (r, t')"
  shows "mState t' = mState t \<and> mSendQueue t' = mSendQueue t \<and> mBufferedAmount t' = mBufferedAmount t
    \<and> mTasks t' = mTasks t \<and> mPoll t' = mPoll t \<and> mResolved t' = mResolved t \<and> (r \<in> range Inr \<longrightarrow> mSock t' \<noteq> None)"
  using assms
  by (auto simp: TcpTransport_createSocket_def TcpTransport_configureSocket_def createSocket_fail_def closesocket_def
      Let_def split: option.splits if_splits)

lemma connect_idle: "mSock t = None \<Longrightarrow> (closesocket t)\<lparr>mSock := None\<rparr> = t"
  by (simp add: closesocket_def)

lemma attempt_ok:
  assumes ok: "tcp_ok t" and task: "mTasks t = task # rest"
  shows "tcp_ok (TcpTransport_attempt E (t\<lparr>mTasks := rest\<rparr>))"
proof -
  let ?t = "t\<lparr>mTasks := rest\<rparr>"
  have inv: "tcp_inv t" "link_inv t" "poll_waits t" "rest = []" using ok task by (auto simp: tcp_ok_def link_inv_def)
  show ?thesis
  proof (cases "mState t = Connecting")
    case False
    then show ?thesis using inv
      by (auto simp: TcpTransport_attempt_def tcp_ok_def tcp_inv_def pending_def link_inv_def poll_waits_def)
  next
    case c: True
    then have q: "mQueue (mSendQueue t) = []" "mPoll t = None" using inv(2) task by (auto simp: link_inv_def)
    show ?thesis
    proof (cases "mResolved t")
      case Nil
      then show ?thesis using c q inv
        by (simp add: TcpTransport_attempt_def tcp_ok_def link_inv_def poll_waits_def connect_idle)
    next
      case (Cons a as)
      obtain r t' where cs: "TcpTransport_createSocket E a (?t\<lparr>mResolved := as\<rparr>) = (r, t')" by fastforce
      note f = createSocket_frame [OF cs]
      have "TcpTransport_attempt E ?t = (case r of Inl e \<Rightarrow> TcpTransport_enqueue Attempt t'
          | Inr _ \<Rightarrow> t'\<lparr>mPoll := Some (Out, Some 10000, ConnectCallback)\<rparr>)"
        using c Cons cs by (simp add: TcpTransport_attempt_def connect_idle split: sum.splits)
      with f c q inv show ?thesis
        by (cases r) (auto simp: tcp_ok_def tcp_inv_def pending_def link_inv_def poll_waits_def TcpTransport_enqueue_def)
    qed
  qed
qed

lemma resolve_ok:
  assumes ok: "tcp_ok t" and task: "mTasks t = task # rest"
  shows "tcp_ok (TcpTransport_resolve E (t\<lparr>mTasks := rest\<rparr>))"
proof -
  have inv: "tcp_inv t" "link_inv t" "poll_waits t" "rest = []" using ok task by (auto simp: tcp_ok_def link_inv_def)
  show ?thesis
  proof (cases "mState t = Connecting")
    case False
    then show ?thesis using inv
      by (simp add: TcpTransport_resolve_def Let_def tcp_ok_def tcp_inv_def pending_def link_inv_def poll_waits_def)
  next
    case True
    then show ?thesis using inv task
      by (cases "net_resolve E (mHostname t) (mService t)")
        (simp_all add: TcpTransport_resolve_def TcpTransport_enqueue_def Let_def tcp_ok_def link_inv_def poll_waits_def)
  qed
qed

lemma connectCallback_ok:
  assumes ok: "tcp_ok t" and p: "mPoll t = Some (dir, tmo, ConnectCallback)"
  shows "tcp_ok (TcpTransport_connectCallback e err (dropped e t))"
proof -
  have l: "mState t = Connecting" "mSock t \<noteq> None" "mTasks t = []" "mQueue (mSendQueue t) = []" "tcp_inv t" "link_inv t"
    using ok p by (auto simp: tcp_ok_def link_inv_def)
  let ?fail = "TcpTransport_enqueue Attempt (t\<lparr>mPoll := None\<rparr>)"
  have fail: "tcp_ok ?fail"
    using l by (auto simp: tcp_ok_def link_inv_def poll_waits_def TcpTransport_enqueue_def tcp_inv_def pending_def)
  have good: "tcp_ok (TcpTransport_setPoll In (Transport_changeState Connected t))"
    using l by (simp add: tcp_ok_def link_inv_def poll_waits_def)
  have "TcpTransport_connectCallback e err (dropped e t) \<in> {?fail, t, TcpTransport_setPoll In (Transport_changeState Connected t)}"
    by (auto simp: TcpTransport_connectCallback_def dropped_def Let_def split: option.splits)
  with fail good ok show ?thesis by auto
qed

lemma close_ok:
  assumes ok: "tcp_ok t"
  shows "tcp_ok (TcpTransport_close t)"
proof -
  let ?u = "TcpTransport_close t"
  have t: "tcp_inv t" "length (mTasks t) \<le> 1" "mSock t = None \<Longrightarrow> mPoll t = None"
    using ok unfolding tcp_ok_def link_inv_def by blast+
  have "tcp_inv ?u" "mState ?u = Disconnected" "mPoll ?u = None" "length (mTasks ?u) \<le> 1"
    using t by (cases "mSock t"; simp add: TcpTransport_close_def closesocket_def)+
  then show ?thesis by (simp add: tcp_ok_def link_inv_def poll_waits_def)
qed

lemma tcp_step_ok: "tcp_step E t t' \<Longrightarrow> tcp_ok t \<Longrightarrow> tcp_ok t'"
  by (induction rule: tcp_step.induct)
    (auto intro: send_ok resolve_ok attempt_ok connectCallback_ok process_ok process_out_ok close_ok)

lemma tcp_started_ok: "tcp_started t \<Longrightarrow> tcp_ok t"
  by (auto simp: tcp_started_def TcpTransport_start_def TcpTransport_active_def TcpTransport_connect_def Transport_new_def
      Transport.defs TcpTransport.defs TcpTransport_enqueue_def Transport_changeState_def tcp_ok_def tcp_inv_def pending_def
      link_inv_def poll_waits_def Queue_new_def)

lemma tcp_reachable_ok: "(tcp_step E)\<^sup>*\<^sup>* t t' \<Longrightarrow> tcp_started t \<Longrightarrow> tcp_ok t'"
  by (induction rule: rtranclp_induct) (auto intro: tcp_started_ok tcp_step_ok)

section \<open>Connection attempts\<close>

text \<open>
  One attempt that fails: the pending task runs, and if it got as far as waiting for the
  connection, the wait ends with an error.
\<close>

definition failed_attempt :: "'a tcp_env \<Rightarrow> 'a TcpTransport \<Rightarrow> 'a TcpTransport" where
  "failed_attempt E t =
     (let t = TcpTransport_attempt E (t\<lparr>mTasks := tl (mTasks t)\<rparr>)
      in if mPoll t \<noteq> None then TcpTransport_connectCallback Error None (dropped Error t) else t)"

lemma failed_attempt_next:
  assumes "mState t = Connecting" "mPoll t = None" "mResolved t = a # as"
  shows "mState (failed_attempt E t) = Connecting" "mPoll (failed_attempt E t) = None" "mResolved (failed_attempt E t) = as"
proof -
  let ?t = "t\<lparr>mTasks := tl (mTasks t)\<rparr>"
  obtain r t' where cs: "TcpTransport_createSocket E a (?t\<lparr>mResolved := as\<rparr>) = (r, t')" by fastforce
  note f = createSocket_frame [OF cs]
  have "TcpTransport_attempt E ?t = (case r of Inl e \<Rightarrow> TcpTransport_enqueue Attempt t'
      | Inr _ \<Rightarrow> t'\<lparr>mPoll := Some (Out, Some 10000, ConnectCallback)\<rparr>)"
    using assms cs by (simp add: TcpTransport_attempt_def connect_idle split: sum.splits)
  with f assms show "mState (failed_attempt E t) = Connecting" "mPoll (failed_attempt E t) = None"
    "mResolved (failed_attempt E t) = as"
    by (cases r; simp add: failed_attempt_def Let_def TcpTransport_connectCallback_def dropped_def TcpTransport_enqueue_def)+
qed

lemma failed_attempts:
  assumes "mState t = Connecting" "mPoll t = None" "n \<le> length (mResolved t)"
  shows "mState ((failed_attempt E ^^ n) t) = Connecting \<and> mPoll ((failed_attempt E ^^ n) t) = None
    \<and> mResolved ((failed_attempt E ^^ n) t) = drop n (mResolved t)"
  using assms(3)
proof (induction n)
  case (Suc n)
  then have IH: "mState ((failed_attempt E ^^ n) t) = Connecting" "mPoll ((failed_attempt E ^^ n) t) = None"
    "mResolved ((failed_attempt E ^^ n) t) = mResolved t ! n # drop (Suc n) (mResolved t)"
    by (simp_all add: Cons_nth_drop_Suc)
  from failed_attempt_next [OF IH] show ?case by simp
qed (use assms in simp)

lemma failed_attempts_end:
  assumes "mState t = Connecting" "mPoll t = None"
  shows "mState ((failed_attempt E ^^ (length (mResolved t) + 1)) t) = Failed"
proof -
  let ?u = "(failed_attempt E ^^ length (mResolved t)) t"
  from failed_attempts [OF assms order_refl] have u: "mState ?u = Connecting" "mPoll ?u = None" "mResolved ?u = []" by simp_all
  then have "TcpTransport_attempt E (?u\<lparr>mTasks := tl (mTasks ?u)\<rparr>) = Transport_changeState Failed (?u\<lparr>mTasks := tl (mTasks ?u)\<rparr>)"
    by (simp add: TcpTransport_attempt_def connect_idle)
  with u show ?thesis by (simp add: failed_attempt_def)
qed

text \<open>
  The guard at the top of \<open>attempt\<close> closes the socket only when there is none: the socket of the
  failed attempt stays open and its descriptor is overwritten by the next one.
\<close>

lemma attempt_leaks:
  assumes "mState t = Connecting" "mSock t = Some s" "s \<in> set (mOpen t)" "mResolved t = a # as"
    and "net_socket E (mCalls t) = Some s'" "net_nonblock E (mCalls t + 1)" "net_connect E (mCalls t + 2) a"
  shows "mSock (TcpTransport_attempt E t) = Some s' \<and> s \<in> set (mOpen (TcpTransport_attempt E t))"
  using assms
  by (simp add: TcpTransport_attempt_def TcpTransport_createSocket_def TcpTransport_configureSocket_def Let_def)

section \<open>Reading\<close>

text \<open>The data read from the socket are handed on in order, up to the end of the stream.\<close>

fun read_data :: "recv_return list \<Rightarrow> binary list" where
  "read_data (RecvData b # rs) = b # read_data rs"
| "read_data rs = []"

lemma readLoop_received:
  "mRecvCallback t \<Longrightarrow> received (trace (snd (TcpTransport_readLoop rs t))) =
     received (trace t) @ map (\<lambda>b. Some (make_message b Binary)) (read_data rs)"
  by (induction rs t rule: TcpTransport_readLoop.induct) (auto simp: TcpTransport_incoming_def split: recv_return.splits)

end
