(* ===== verification/Wsc_Session.thy ===== *)
theory Wsc_Session
  imports Wsc_WsLife Wsc_TcpTransport
begin

text \<open>
  WebSocket transports on TCP connections: the lemmas about a transport on any byte stream, for the stream of a
  TCP connection, and the two ends of a connection through the opening handshake and the first messages.
\<close>

section \<open>A transport on TCP\<close>

lemmas tcp_send_all = byte_stream.send_all_open [OF tcp.byte_stream_axioms]
lemmas tcp_feed_delivers = byte_stream.feed_delivers [OF tcp.byte_stream_axioms]
lemmas tcp_idle_survives = byte_stream.idle_survives [OF tcp.byte_stream_axioms]
lemmas tcp_idle_fails = byte_stream.idle_fails [OF tcp.byte_stream_axioms]
lemmas tcp_server_opens = byte_stream.server_opens [OF tcp.byte_stream_axioms]
lemmas tcp_client_starts = byte_stream.client_starts [OF tcp.byte_stream_axioms]

lemma WsTransport_send_all_frame:
  "mRecvCallback (WsTransport_send_all E ms t) = mRecvCallback t \<and> mIgnoreLength (WsTransport_send_all E ms t) = mIgnoreLength t
   \<and> mBuffer (WsTransport_send_all E ms t) = mBuffer t \<and> mPartial (WsTransport_send_all E ms t) = mPartial t
   \<and> mMaxMessageSize (WsTransport_send_all E ms t) = mMaxMessageSize t \<and> trace (WsTransport_send_all E ms t) = trace t"
proof (induction ms arbitrary: t)
  case (Cons m ms)
  let ?f = "mk_frame (data_opcode m) (data m) (mIsClient t)"
  obtain r p u where s: "WsTransport_sendFrame E ?f t = (r, p, u)" by (metis prod_cases3)
  then have "snd (WsTransport_send E (Some m) t) = (if mState t \<noteq> Connected then t else u)"
    by (simp add: WsTransport_send_def data_opcode_def split: sum.splits)
  moreover have "WsTransport_send_all E (m # ms) t = WsTransport_send_all E ms (snd (WsTransport_send E (Some m) t))"
    by (simp add: WsTransport_send_all_def)
  moreover obtain l n where "u = t\<lparr>mDraws := n, mLower := l\<rparr>" using WsTransport_sendFrame_frame(1) [OF s] by blast
  ultimately show ?case using Cons.IH [of t] Cons.IH [of u] by simp
qed (simp add: WsTransport_send_all_def)

lemma send_frames_no_pongs: "pongs E client n (map snd (send_frames E' client' n' ms)) = []"
  by (induction ms arbitrary: n') (simp_all add: data_opcode_def)

section \<open>Two ends of a connection\<close>

text \<open>
  Two ends of a connection before the opening handshake: a client that has not been started, and a server that
  waits for its request, each on an open TCP connection.
\<close>

definition handshake_ready ::
  "'a tcp_env \<Rightarrow> 'b tcp_env \<Rightarrow> 'a TcpTransport ws_env \<Rightarrow> 'b TcpTransport ws_env
   \<Rightarrow> 'a TcpTransport WsTransport \<Rightarrow> 'b TcpTransport WsTransport \<Rightarrow> bool" where
  "handshake_ready N1 N2 E1 E2 c s \<longleftrightarrow>
     env_ops E1 = tcp_ops N1 \<and> env_ops E2 = tcp_ops N2 \<and> env_sha1 E1 = env_sha1 E2
     \<and> mState c = Disconnected \<and> mIsClient c \<and> mIgnoreLength c = 0 \<and> mBuffer c = []
     \<and> (\<exists>l. mLower c = Some l \<and> TcpTransport_usable N1 l)
     \<and> mState s = Connecting \<and> \<not> mIsClient s \<and> mIgnoreLength s = 0 \<and> mBuffer s = []
     \<and> (\<exists>l. mLower s = Some l \<and> TcpTransport_usable N2 l)
     \<and> handshake_ok (mHost (mHandshake c)) (mPath (mHandshake c)) (mProtocols (mHandshake c)) \<and> mProtocols (mHandshake s) = []"

text \<open>Both are also ready to receive messages.\<close>

definition session_ready ::
  "'a tcp_env \<Rightarrow> 'b tcp_env \<Rightarrow> 'a TcpTransport ws_env \<Rightarrow> 'b TcpTransport ws_env
   \<Rightarrow> 'a TcpTransport WsTransport \<Rightarrow> 'b TcpTransport WsTransport \<Rightarrow> bool" where
  "session_ready N1 N2 E1 E2 c s \<longleftrightarrow> handshake_ready N1 N2 E1 E2 c s
     \<and> mPartial c = [] \<and> mRecvCallback c \<and> mPartial s = [] \<and> mRecvCallback s"

abbreviation wire_of :: "'a TcpTransport WsTransport \<Rightarrow> binary" where
  "wire_of t \<equiv> TcpTransport_sent (the (mLower t))"

definition session_opened :: "'a TcpTransport WsTransport \<Rightarrow> 'a TcpTransport WsTransport" where
  "session_opened c1 = (Transport_changeState Connected c1)\<lparr>mBuffer := []\<rparr>"

text \<open>The request of the client, and what the server makes of it.\<close>

lemma session_opening:
  assumes "handshake_ready N1 N2 E1 E2 c s"
  shows "\<exists>req resp. wire_of (snd (WsTransport_start E1 c)) = wire_of c @ req \<and>
    (\<forall>reqs s1. concat reqs = req \<and> [] \<notin> set reqs \<and> s1 = WsTransport_feed E2 reqs s \<longrightarrow>
       open_with (TcpTransport_usable N2) s1 \<and> wire_of s1 = wire_of s @ resp \<and> mBuffer s1 = [] \<and> mPartial s1 = mPartial s
       \<and> mRecvCallback s1 = mRecvCallback s \<and> mIgnoreLength s1 = 0 \<and> mMaxMessageSize s1 = mMaxMessageSize s
       \<and> received (trace s1) = received (trace s) \<and> mPath (mHandshake s1) = mPath (mHandshake c)
       \<and> mHost (mHandshake s1) = mHost (mHandshake c) \<and> mProtocols (mHandshake s1) = mProtocols (mHandshake c)) \<and>
    (\<forall>downs tl. concat downs = resp @ tl \<and> [] \<notin> set downs \<longrightarrow>
       (\<exists>cs. concat cs = tl \<and> [] \<notin> set cs \<and> WsTransport_feed E1 downs (snd (WsTransport_start E1 c)) =
          WsTransport_feed E1 cs (session_opened (snd (WsTransport_start E1 c))))) \<and>
    open_with (TcpTransport_usable N1) (session_opened (snd (WsTransport_start E1 c)))"
proof -
  note r = assms [unfolded handshake_ready_def]
  from r obtain lc ls where l: "mLower c = Some lc" "TcpTransport_usable N1 lc" "mLower s = Some ls" "TcpTransport_usable N2 ls" by blast
  let ?hc = "mHandshake c"
  let ?nonce = "map (env_random E1 (mDraws c)) [0..<16]"
  have E: "env_ops E1 = tcp_ops N1" "env_ops E2 = tcp_ops N2" "env_sha1 E1 = env_sha1 E2" "mIsClient c" "mState c = Disconnected"
    "mState s = Connecting" "\<not> mIsClient s" "mIgnoreLength s = 0" and h: "handshake_ok (mHost ?hc) (mPath ?hc) (mProtocols ?hc)" using r by simp_all
  obtain request h' where g: "generateHttpRequest ?nonce ?hc = (request, h')" by fastforce
  define c1 where "c1 = snd (WsTransport_start E1 c)"
  from tcp_client_starts [OF E(1) l(1,2) E(4,5) g] obtain lc' where
    st: "c1 = (Transport_changeState Connecting c)\<lparr>mDraws := mDraws c + 1, mHandshake := h', mLower := Some lc'\<rparr>"
    "TcpTransport_usable N1 lc'" "TcpTransport_sent lc' = TcpTransport_sent lc @ bytes_of_string request" by (auto simp: c1_def)
  define hs where "hs = (mHandshake s)\<lparr>mPath := mPath ?hc, mHost := mHost ?hc, mKey := mKey h',
      mProtocols := (if mProtocols ?hc = [] then mProtocols (mHandshake s) else mProtocols ?hc)\<rparr>"
  define resp where "resp = bytes_of_string (generateHttpResponse (env_sha1 E1) hs)"
  have f: "mState c1 = Connecting" "mIsClient c1" "mIgnoreLength c1 = 0" "mKey (mHandshake c1) = mKey hs" "mBuffer c1 = []" "mLower c1 = Some lc'"
    using r by (simp_all add: st(1) hs_def Transport_changeState_def)
  have ne: "length (mBuffer s) < length (bytes_of_string request)" "length (mBuffer c1) < length resp"
    using g r f(5) by (auto simp: generateHttpRequest_def generateHttpResponse_def resp_def Let_def)
  have pr: "clean_tokens (CHR '','') (mProtocols hs)" "list_all header_value (mProtocols hs)"
    using r by (auto simp: hs_def handshake_ok_def)
  have srv: "open_with (TcpTransport_usable N2) s1 \<and> wire_of s1 = wire_of s @ resp \<and> mBuffer s1 = [] \<and> mPartial s1 = mPartial s
       \<and> mRecvCallback s1 = mRecvCallback s \<and> mIgnoreLength s1 = 0 \<and> mMaxMessageSize s1 = mMaxMessageSize s
       \<and> received (trace s1) = received (trace s) \<and> mPath (mHandshake s1) = mPath (mHandshake c)
       \<and> mHost (mHandshake s1) = mHost (mHandshake c) \<and> mProtocols (mHandshake s1) = mProtocols (mHandshake c)"
    if q: "concat reqs = bytes_of_string request" "[] \<notin> set reqs" and s1: "s1 = WsTransport_feed E2 reqs s" for reqs s1
  proof -
    have "mBuffer s @ concat reqs = bytes_of_string request" using q(1) r by simp
    from tcp_server_opens [OF E(2) h g refl hs_def E(6-8) l(3,4) this ne(1) q(2)] obtain ls' where
      "s1 = (Transport_changeState Connected (s\<lparr>mHandshake := hs, mLower := Some ls'\<rparr>))\<lparr>mBuffer := []\<rparr>"
      "TcpTransport_usable N2 ls'" "TcpTransport_sent ls' = TcpTransport_sent ls @ resp"
      by (auto simp: s1 resp_def E(3))
    then show ?thesis using r l(3) by (simp add: open_with_def hs_def Transport_changeState_def)
  qed
  have cl: "\<exists>cs. concat cs = tl \<and> [] \<notin> set cs \<and> WsTransport_feed E1 downs c1 = WsTransport_feed E1 cs (session_opened c1)"
    if "concat downs = resp @ tl" "[] \<notin> set downs" for downs tl
    using client_opens_then [OF pr resp_def f(1-4) _ ne(2) that(2), of tl] that(1) f(5) by (simp add: session_opened_def)
  have op: "open_with (TcpTransport_usable N1) (session_opened c1)"
    using st(2) f(6) by (simp add: session_opened_def open_with_def Transport_changeState_def)
  have w: "wire_of c1 = wire_of c @ bytes_of_string request" using st(3) f(6) l(1) by simp
  show ?thesis unfolding c1_def [symmetric]
    by (rule exI [of _ "bytes_of_string request"], rule exI [of _ resp], intro conjI allI impI; (elim conjE)?)
      (fact w | fact op | (rule cl, assumption+) | (drule (2) srv, simp))+
qed

lemma session_started:
  assumes "session_ready N1 N2 E1 E2 c s"
  shows "mRecvCallback (snd (WsTransport_start E1 c))" "mIgnoreLength (snd (WsTransport_start E1 c)) = 0"
    "mPartial (snd (WsTransport_start E1 c)) = []" "mMaxMessageSize (snd (WsTransport_start E1 c)) = mMaxMessageSize c"
    "received (trace (snd (WsTransport_start E1 c))) = received (trace c)" "mState (snd (WsTransport_start E1 c)) = Connecting"
    "mStateChangeCallback (snd (WsTransport_start E1 c)) = mStateChangeCallback c"
proof -
  note r = assms [unfolded session_ready_def handshake_ready_def]
  from r obtain lc where l: "mLower c = Some lc" "TcpTransport_usable N1 lc" and E: "env_ops E1 = tcp_ops N1"
    "mIsClient c" "mState c = Disconnected" by blast
  obtain request h' where g: "generateHttpRequest (map (env_random E1 (mDraws c)) [0..<16]) (mHandshake c) = (request, h')" by fastforce
  from tcp_client_starts [OF E(1) l E(2,3) g] r
  show "mRecvCallback (snd (WsTransport_start E1 c))" "mIgnoreLength (snd (WsTransport_start E1 c)) = 0"
    "mPartial (snd (WsTransport_start E1 c)) = []" "mMaxMessageSize (snd (WsTransport_start E1 c)) = mMaxMessageSize c"
    "received (trace (snd (WsTransport_start E1 c))) = received (trace c)" "mState (snd (WsTransport_start E1 c)) = Connecting"
    "mStateChangeCallback (snd (WsTransport_start E1 c)) = mStateChangeCallback c"
    by (auto simp: Transport_changeState_def)
qed

text \<open>The client after the answer and the first messages of the server.\<close>

lemma session_down:
  assumes E: "env_ops E1 = tcp_ops N1" "env_ops E2 = tcp_ops N2"
    and o: "open_with (TcpTransport_usable N1) (session_opened c1)" "open_with (TcpTransport_usable N2) s1"
    and c1: "mRecvCallback c1" "mIgnoreLength c1 = 0" "mPartial c1 = []"
    and m: "\<forall>m \<in> set down. length (data m) \<le> mMaxMessageSize c1 \<and> length (data m) < 2 ^ 63"
    and cs: "concat cs = concat (map enc (send_frames E2 (mIsClient s1) (mDraws s1) down))" "[] \<notin> set cs"
      "c2 = WsTransport_feed E1 cs (session_opened c1)"
  shows "open_with (TcpTransport_usable N1) c2" "mBuffer c2 = []" "wire_of c2 = wire_of c1"
    "received (trace c2) = received (trace c1) @ map (\<lambda>m. Some (make_message (data m) (if type m = String then String else Binary))) down"
proof -
  let ?co = "session_opened c1"
  have co: "mRecvCallback ?co" "mIgnoreLength ?co = 0" "mBuffer ?co = []" "mPartial ?co = []" "mMaxMessageSize ?co = mMaxMessageSize c1"
    "received (trace ?co) = received (trace c1)" "mLower ?co = mLower c1"
    using c1 by (simp_all add: session_opened_def Transport_changeState_def)
  from m have "\<forall>m \<in> set down. length (data m) \<le> mMaxMessageSize ?co \<and> length (data m) < 2 ^ 63" by (simp add: co(5))
  note k = send_frames_ok [OF this, of E2 "mIsClient s1" "mDraws s1"]
  note d = tcp_feed_delivers [OF E(1) o(1) co(1-4) k cs]
  from d(1,2,4,5) co(6,7) show "open_with (TcpTransport_usable N1) c2" "mBuffer c2 = []" "wire_of c2 = wire_of c1"
    "received (trace c2) = received (trace c1) @ map (\<lambda>m. Some (make_message (data m) (if type m = String then String else Binary))) down"
    by (simp_all add: message_of_def comp_def case_prod_beta send_frames_no_pongs)
qed

text \<open>The whole session: the opening, the messages of the server, then those of the client.\<close>

lemma session_exchange:
  assumes ready: "session_ready N1 N2 E1 E2 c s"
    and down: "\<forall>m \<in> set down. length (data m) \<le> mMaxMessageSize c \<and> length (data m) < 2 ^ 63"
    and up: "\<forall>m \<in> set up. length (data m) \<le> mMaxMessageSize s \<and> length (data m) < 2 ^ 63"
    and r1: "c1 = snd (WsTransport_start E1 c)" "s1 = WsTransport_feed E2 reqs s" "[] \<notin> set reqs"
      "wire_of c1 = wire_of c @ concat reqs"
    and r2: "s2 = WsTransport_send_all E2 down s1" "c2 = WsTransport_feed E1 downs c1" "[] \<notin> set downs"
      "wire_of s2 = wire_of s @ concat downs"
    and r3: "c3 = WsTransport_send_all E1 up c2" "s3 = WsTransport_feed E2 ups s2" "[] \<notin> set ups"
      "wire_of c3 = wire_of c1 @ concat ups"
  shows "mState c3 = Connected \<and> mState s3 = Connected \<and> mBuffer c3 = [] \<and> mBuffer s3 = []
    \<and> received (trace c3) = received (trace c) @ map (\<lambda>m. Some (make_message (data m) (if type m = String then String else Binary))) down
    \<and> received (trace s3) = received (trace s) @ map (\<lambda>m. Some (make_message (data m) (if type m = String then String else Binary))) up"
proof -
  have hr: "handshake_ready N1 N2 E1 E2 c s" and rcv: "mPartial s = []" "mRecvCallback s"
    using ready by (simp_all add: session_ready_def)
  then have E: "env_ops E1 = tcp_ops N1" "env_ops E2 = tcp_ops N2" by (simp_all add: handshake_ready_def)
  from session_opening [OF hr] rcv r1 obtain resp where
    s1: "open_with (TcpTransport_usable N2) s1" "wire_of s1 = wire_of s @ resp" "mBuffer s1 = []" "mPartial s1 = []"
      "mRecvCallback s1" "mIgnoreLength s1 = 0" "mMaxMessageSize s1 = mMaxMessageSize s" "received (trace s1) = received (trace s)" and
    op: "\<And>tl. concat downs = resp @ tl \<Longrightarrow> \<exists>cs. concat cs = tl \<and> [] \<notin> set cs \<and>
        WsTransport_feed E1 downs c1 = WsTransport_feed E1 cs (session_opened c1)" and
    o1: "open_with (TcpTransport_usable N1) (session_opened c1)"
    using r2(3) by (auto simp: all_conj_distrib)
  note c1 = session_started [OF ready, folded r1(1)]
  let ?down = "send_frames E2 (mIsClient s1) (mDraws s1) down"
  from tcp_send_all [OF E(2) s1(1), of down] have o2: "open_with (TcpTransport_usable N2) s2"
    "wire_of s2 = wire_of s1 @ concat (map enc ?down)" by (simp_all add: r2(1))
  have "concat downs = resp @ concat (map enc ?down)" using o2(2) r2(4) s1(2) by simp
  from op [OF this] obtain cs where cs: "concat cs = concat (map enc ?down)" "[] \<notin> set cs"
    "c2 = WsTransport_feed E1 cs (session_opened c1)" unfolding r2(2) by blast
  have "\<forall>m \<in> set down. length (data m) \<le> mMaxMessageSize c1 \<and> length (data m) < 2 ^ 63" using down c1(4) by simp
  note c2 = session_down [OF E o1 s1(1) c1(1-3) this cs]
  let ?up = "send_frames E1 (mIsClient c2) (mDraws c2) up"
  from tcp_send_all [OF E(1) c2(1), of up] have o3: "open_with (TcpTransport_usable N1) c3"
    "wire_of c3 = wire_of c2 @ concat (map enc ?up)" by (simp_all add: r3(1))
  have us: "concat ups = concat (map enc ?up)" using o3(2) c2(3) r3(4) by simp
  have s2: "mRecvCallback s2" "mIgnoreLength s2 = 0" "mBuffer s2 = []" "mPartial s2 = []" "mMaxMessageSize s2 = mMaxMessageSize s"
    "received (trace s2) = received (trace s)"
    using WsTransport_send_all_frame [of E2 down s1] s1 by (simp_all add: r2(1))
  have "\<forall>m \<in> set up. length (data m) \<le> mMaxMessageSize s2 \<and> length (data m) < 2 ^ 63" using up s2(5) by simp
  note uk = send_frames_ok [OF this, of E1 "mIsClient c2" "mDraws c2"]
  note e = tcp_feed_delivers [OF E(2) o2(1) s2(1-4) uk us r3(3) r3(2)]
  have "mBuffer c3 = []" "trace c3 = trace c2" using WsTransport_send_all_frame [of E1 up c2] c2(2) by (simp_all add: r3(1))
  with o3(1) c2(4) c1(5) e(1,2,4) s2(6) show ?thesis by (simp add: open_with_def message_of_def comp_def case_prod_beta)
qed

end
