(* ===== verification/Wsc_Channel.thy ===== *)
theory Wsc_Channel
  imports Wsc_Message Wsc_Queue
begin

text \<open>
  Callbacks and channels: \<open>synchronized_callback\<close> and \<open>synchronized_stored_callback\<close> of
  \<open>include/utils.hpp\<close>, the channel of \<open>src/impl/channel.cpp\<close> and its public face \<open>src/channel.cpp\<close>.

  A callback function is a value \<open>cb\<close>; the calls that a channel makes are recorded in \<open>calls\<close>, with
  their arguments, in order. Exceptions of a callback are caught by the channel. The receive
  queue that the virtual \<open>receive\<close> pops from is part of the record.
\<close>

type_synonym cb = nat

section \<open>Callbacks\<close>

record 'a stored_callback =
  cb_func :: "cb option"
  cb_stored :: "'a option"

definition no_callback :: "'a stored_callback" where
  "no_callback = \<lparr>cb_func = None, cb_stored = None\<rparr>"

text \<open>
  \<open>synchronized_callback::call\<close> without storage: whether there is a function to call. With storage,
  a call that finds no function is kept, replacing one kept before; setting a function replays it.
  The first component of the results is the invocation made, if any.
\<close>

definition synchronized_call :: "cb option \<Rightarrow> 'a \<Rightarrow> (cb \<times> 'a) option \<times> bool" where
  "synchronized_call func args = (case func of None \<Rightarrow> (None, False) | Some f \<Rightarrow> (Some (f, args), True))"

definition stored_set :: "cb option \<Rightarrow> 'a stored_callback \<Rightarrow> (cb \<times> 'a) option \<times> 'a stored_callback" where
  "stored_set func c =
     (let c = c\<lparr>cb_func := func\<rparr>
      in case func of
           None \<Rightarrow> (None, c)
         | Some f \<Rightarrow>
             (case cb_stored c of None \<Rightarrow> (None, c) | Some args \<Rightarrow> (Some (f, args), c\<lparr>cb_stored := None\<rparr>)))"

definition stored_call :: "'a \<Rightarrow> 'a stored_callback \<Rightarrow> (cb \<times> 'a) option \<times> 'a stored_callback" where
  "stored_call args c =
     (case synchronized_call (cb_func c) args of
        (made, True) \<Rightarrow> (made, c)
      | (made, False) \<Rightarrow> (None, c\<lparr>cb_stored := Some args\<rparr>))"

text \<open>
  Assigning one callback to another: by move, which takes the function out of the source, or by copy. A stored call stays
  with the callback it was made on, so that it is replayed with the function assigned.
\<close>

definition stored_move :: "'a stored_callback \<Rightarrow> 'a stored_callback \<Rightarrow> (cb \<times> 'a) option \<times> 'a stored_callback \<times> 'a stored_callback" where
  "stored_move dst src = (case stored_set (cb_func src) dst of (made, dst) \<Rightarrow> (made, dst, src\<lparr>cb_func := None\<rparr>))"

definition stored_copy :: "'a stored_callback \<Rightarrow> 'a stored_callback \<Rightarrow> (cb \<times> 'a) option \<times> 'a stored_callback" where
  "stored_copy dst src = stored_set (cb_func src) dst"

text \<open>A call made before a function was set is made once, with the arguments of the last such call.\<close>

lemma stored_replayed:
  assumes "cb_func c = None" "stored_call args c = (r, d)" "stored_set (Some f) d = (made, e)"
  shows "r = None" "made = Some (f, args)" "stored_set (Some f) e = (None, e)"
  using assms by (auto simp: stored_call_def synchronized_call_def stored_set_def)

lemma stored_move_replays:
  assumes "cb_func c = None" "stored_call args c = (r, d)" "cb_func src = Some f"
  shows "\<exists>e. stored_move d src = (Some (f, args), e, src\<lparr>cb_func := None\<rparr>)"
  using assms by (auto simp: stored_move_def stored_call_def synchronized_call_def stored_set_def)

section \<open>Channels\<close>

datatype call =
    CallOpen cb
  | CallClosed cb
  | CallError cb string
  | CallAvailable cb
  | CallBufferedAmountLow cb
  | CallMessage cb message_variant

record Channel =
  openCallback :: "unit stored_callback"
  closedCallback :: "unit stored_callback"
  errorCallback :: "string stored_callback"
  availableCallback :: "unit stored_callback"
  bufferedAmountLowCallback :: "unit stored_callback"
  messageCallback :: "cb option"
  bufferedAmount :: nat
  bufferedAmountLowThreshold :: nat
  mOpenTriggered :: bool
  mRecvQueue :: "Message Queue"
  calls :: "call list"

definition log_call :: "call option \<Rightarrow> 'm Channel_scheme \<Rightarrow> 'm Channel_scheme" where
  "log_call c ch = (case c of None \<Rightarrow> ch | Some c \<Rightarrow> ch\<lparr>calls := calls ch @ [c]\<rparr>)"

definition Channel_receive :: "'m Channel_scheme \<Rightarrow> message_variant option \<times> 'm Channel_scheme" where
  "Channel_receive ch =
     (case Queue_pop (mRecvQueue ch) of
        (None, q) \<Rightarrow> (None, ch\<lparr>mRecvQueue := q\<rparr>)
      | (Some m, q) \<Rightarrow> (Some (fst (to_variant_move m)), ch\<lparr>mRecvQueue := q\<rparr>))"

function Channel_flush_loop :: "'m Channel_scheme \<Rightarrow> 'm Channel_scheme" where
  "Channel_flush_loop ch =
     (case messageCallback ch of
        None \<Rightarrow> ch
      | Some f \<Rightarrow>
          (case Channel_receive ch of
             (None, ch) \<Rightarrow> ch
           | (Some m, ch) \<Rightarrow> Channel_flush_loop (log_call (Some (CallMessage f m)) ch)))"
  by pat_completeness auto
termination
  by (relation "measure (\<lambda>ch. length (mQueue (mRecvQueue ch)))")
    (auto simp: Channel_receive_def Queue_pop_def log_call_def split: list.splits prod.splits option.splits)

declare Channel_flush_loop.simps [simp del]

definition Channel_flushPendingMessages :: "'m Channel_scheme \<Rightarrow> 'm Channel_scheme" where
  "Channel_flushPendingMessages ch = (if \<not> mOpenTriggered ch then ch else Channel_flush_loop ch)"

definition Channel_triggerOpen :: "'m Channel_scheme \<Rightarrow> 'm Channel_scheme" where
  "Channel_triggerOpen ch =
     (let ch = ch\<lparr>mOpenTriggered := True\<rparr>; (made, c) = stored_call () (openCallback ch)
      in Channel_flushPendingMessages
           (log_call (map_option (\<lambda>(f, _). CallOpen f) made) (ch\<lparr>openCallback := c\<rparr>)))"

definition Channel_triggerClosed :: "'m Channel_scheme \<Rightarrow> 'm Channel_scheme" where
  "Channel_triggerClosed ch =
     (let (made, c) = stored_call () (closedCallback ch)
      in log_call (map_option (\<lambda>(f, _). CallClosed f) made) (ch\<lparr>closedCallback := c\<rparr>))"

definition Channel_triggerError :: "string \<Rightarrow> 'm Channel_scheme \<Rightarrow> 'm Channel_scheme" where
  "Channel_triggerError error ch =
     (let (made, c) = stored_call error (errorCallback ch)
      in log_call (map_option (\<lambda>(f, e). CallError f e) made) (ch\<lparr>errorCallback := c\<rparr>))"

definition Channel_triggerAvailable :: "nat \<Rightarrow> 'm Channel_scheme \<Rightarrow> 'm Channel_scheme" where
  "Channel_triggerAvailable count ch =
     Channel_flushPendingMessages
       (if count = 1 then
          (let (made, c) = stored_call () (availableCallback ch)
           in log_call (map_option (\<lambda>(f, _). CallAvailable f) made) (ch\<lparr>availableCallback := c\<rparr>))
        else ch)"

definition Channel_triggerBufferedAmount :: "nat \<Rightarrow> 'm Channel_scheme \<Rightarrow> 'm Channel_scheme" where
  "Channel_triggerBufferedAmount amount ch =
     (let previous = bufferedAmount ch;
          ch = ch\<lparr>bufferedAmount := amount\<rparr>;
          threshold = bufferedAmountLowThreshold ch
      in if previous > threshold \<and> amount \<le> threshold then
           (let (made, c) = stored_call () (bufferedAmountLowCallback ch)
            in log_call (map_option (\<lambda>(f, _). CallBufferedAmountLow f) made) (ch\<lparr>bufferedAmountLowCallback := c\<rparr>))
         else ch)"

text \<open>Assigning \<open>nullptr\<close> to a stored callback removes the function and keeps a stored call.\<close>

definition Channel_resetOpenCallback :: "'m Channel_scheme \<Rightarrow> 'm Channel_scheme" where
  "Channel_resetOpenCallback ch =
     ch\<lparr>mOpenTriggered := False, openCallback := snd (stored_set None (openCallback ch))\<rparr>"

definition Channel_resetCallbacks :: "'m Channel_scheme \<Rightarrow> 'm Channel_scheme" where
  "Channel_resetCallbacks ch =
     ch\<lparr>mOpenTriggered := False,
        openCallback := snd (stored_set None (openCallback ch)),
        closedCallback := snd (stored_set None (closedCallback ch)),
        errorCallback := snd (stored_set None (errorCallback ch)),
        availableCallback := snd (stored_set None (availableCallback ch)),
        bufferedAmountLowCallback := snd (stored_set None (bufferedAmountLowCallback ch)),
        messageCallback := None\<rparr>"

text \<open>The setters of the public class.\<close>

definition Channel_onOpen :: "cb option \<Rightarrow> 'm Channel_scheme \<Rightarrow> 'm Channel_scheme" where
  "Channel_onOpen f ch =
     (let (made, c) = stored_set f (openCallback ch)
      in log_call (map_option (\<lambda>(f, _). CallOpen f) made) (ch\<lparr>openCallback := c\<rparr>))"

definition Channel_onClosed :: "cb option \<Rightarrow> 'm Channel_scheme \<Rightarrow> 'm Channel_scheme" where
  "Channel_onClosed f ch =
     (let (made, c) = stored_set f (closedCallback ch)
      in log_call (map_option (\<lambda>(f, _). CallClosed f) made) (ch\<lparr>closedCallback := c\<rparr>))"

definition Channel_onError :: "cb option \<Rightarrow> 'm Channel_scheme \<Rightarrow> 'm Channel_scheme" where
  "Channel_onError f ch =
     (let (made, c) = stored_set f (errorCallback ch)
      in log_call (map_option (\<lambda>(f, e). CallError f e) made) (ch\<lparr>errorCallback := c\<rparr>))"

definition Channel_onAvailable :: "cb option \<Rightarrow> 'm Channel_scheme \<Rightarrow> 'm Channel_scheme" where
  "Channel_onAvailable f ch =
     (let (made, c) = stored_set f (availableCallback ch)
      in log_call (map_option (\<lambda>(f, _). CallAvailable f) made) (ch\<lparr>availableCallback := c\<rparr>))"

definition Channel_onBufferedAmountLow :: "cb option \<Rightarrow> 'm Channel_scheme \<Rightarrow> 'm Channel_scheme" where
  "Channel_onBufferedAmountLow f ch =
     (let (made, c) = stored_set f (bufferedAmountLowCallback ch)
      in log_call (map_option (\<lambda>(f, _). CallBufferedAmountLow f) made) (ch\<lparr>bufferedAmountLowCallback := c\<rparr>))"

definition Channel_onMessage :: "cb option \<Rightarrow> 'm Channel_scheme \<Rightarrow> 'm Channel_scheme" where
  "Channel_onMessage f ch = Channel_flushPendingMessages (ch\<lparr>messageCallback := f\<rparr>)"

definition Channel_setBufferedAmountLowThreshold :: "nat \<Rightarrow> 'm Channel_scheme \<Rightarrow> 'm Channel_scheme" where
  "Channel_setBufferedAmountLowThreshold amount ch = ch\<lparr>bufferedAmountLowThreshold := amount\<rparr>"

section \<open>Properties\<close>

text \<open>A call made before a function is set reaches the next function set, once.\<close>

lemma stored_replay:
  "cb_func c = None \<Longrightarrow> stored_call a c = (None, c') \<Longrightarrow> stored_set (Some f) c' = (Some (f, a), \<lparr>cb_func = Some f, cb_stored = None\<rparr>)"
  by (cases c; cases c') (auto simp: stored_call_def stored_set_def synchronized_call_def)

lemma stored_call_direct: "cb_func c = Some f \<Longrightarrow> stored_call a c = (Some (f, a), c)"
  by (simp add: stored_call_def synchronized_call_def)

lemma stored_set_nothing: "cb_stored c = None \<Longrightarrow> stored_set f c = (None, c\<lparr>cb_func := f\<rparr>)"
  by (simp add: stored_set_def Let_def split: option.splits)

text \<open>Flushing hands over everything in the queue, in order, and nothing before the channel is open.\<close>

lemma flush_loop:
  "messageCallback ch = Some f \<Longrightarrow>
   calls (Channel_flush_loop ch) = calls ch @ map (\<lambda>m. CallMessage f (to_variant m)) (mQueue (mRecvQueue ch))
   \<and> mQueue (mRecvQueue (Channel_flush_loop ch)) = [] \<and> messageCallback (Channel_flush_loop ch) = Some f"
proof (induction ch rule: Channel_flush_loop.induct)
  case (1 ch)
  show ?case
  proof (cases "mQueue (mRecvQueue ch)")
    case Nil
    then show ?thesis using "1.prems"
      by (subst (1 2 3) Channel_flush_loop.simps) (simp add: Channel_receive_def Queue_pop_def)
  next
    case (Cons m ms)
    let ?q = "snd (Queue_pop (mRecvQueue ch))"
    let ?u = "log_call (Some (CallMessage f (to_variant m))) (ch\<lparr>mRecvQueue := ?q\<rparr>)"
    have r: "Channel_receive ch = (Some (to_variant m), ch\<lparr>mRecvQueue := ?q\<rparr>)" and q: "mQueue ?q = ms"
      using Cons by (simp_all add: Channel_receive_def Queue_pop_def to_variant_move_value)
    have step: "Channel_flush_loop ch = Channel_flush_loop ?u"
      using "1.prems" r by (subst Channel_flush_loop.simps) simp
    from "1.IH" [OF "1.prems" r [symmetric] refl] "1.prems" q Cons show ?thesis
      unfolding step by (simp add: log_call_def)
  qed
qed

lemma flush_closed: "\<not> mOpenTriggered ch \<Longrightarrow> Channel_flushPendingMessages ch = ch"
  by (simp add: Channel_flushPendingMessages_def)

lemma flush_open:
  assumes "mOpenTriggered ch" "messageCallback ch = Some f"
  shows "calls (Channel_flushPendingMessages ch) = calls ch @ map (\<lambda>m. CallMessage f (to_variant m)) (mQueue (mRecvQueue ch))"
    "mQueue (mRecvQueue (Channel_flushPendingMessages ch)) = []"
  using flush_loop [OF assms(2)] assms(1) by (simp_all add: Channel_flushPendingMessages_def)

text \<open>The low-water callback is called exactly when the amount falls to the threshold or below.\<close>

lemma triggerBufferedAmount_spec:
  assumes "cb_func (bufferedAmountLowCallback ch) = Some f"
  shows "calls (Channel_triggerBufferedAmount amount ch) = calls ch @
      (if bufferedAmount ch > bufferedAmountLowThreshold ch \<and> amount \<le> bufferedAmountLowThreshold ch
       then [CallBufferedAmountLow f] else [])"
    "bufferedAmount (Channel_triggerBufferedAmount amount ch) = amount"
  using assms by (auto simp: Channel_triggerBufferedAmount_def Let_def stored_call_def synchronized_call_def log_call_def)

text \<open>The callback of the opening comes before any message.\<close>

lemma triggerOpen_calls:
  assumes "cb_func (openCallback ch) = Some g" "messageCallback ch = Some f"
  shows "calls (Channel_triggerOpen ch) = calls ch @ CallOpen g # map (\<lambda>m. CallMessage f (to_variant m)) (mQueue (mRecvQueue ch))"
proof -
  let ?ch = "ch\<lparr>mOpenTriggered := True, openCallback := openCallback ch, calls := calls ch @ [CallOpen g]\<rparr>"
  have "Channel_triggerOpen ch = Channel_flushPendingMessages ?ch"
    using assms(1) by (simp add: Channel_triggerOpen_def Let_def stored_call_def synchronized_call_def log_call_def)
  with flush_open(1) [of ?ch f] assms(2) show ?thesis by simp
qed

end
