(* ===== verification/Wsc_Url.thy ===== *)
theory Wsc_Url
  imports Wsc_Http Wsc_Utils
begin

text \<open>
  URLs (\<open>src/configuration.cpp\<close>, and the same expression in \<open>WebSocket::open\<close>). The sources match a
  URL against one extended regular expression and read its groups. Every part of the expression is
  followed by parts that match any remaining text, so no part ever has to give back what it took:
  the match exists for every string, and its groups are the ones of the left-to-right reading in
  which each part takes as much as it can. \<open>url_match\<close> is that reading.
\<close>

record url_groups =
  url_scheme :: string
  url_user :: string
  url_password :: string
  url_host :: string
  url_port :: string
  url_path :: string
  url_query :: string
  url_fragment :: string

abbreviation none_of :: "string \<Rightarrow> char \<Rightarrow> bool" where
  "none_of cs c \<equiv> c \<notin> set cs"

text \<open>An optional group: the delimiter \<open>d\<close> and what follows it up to the stop characters.\<close>

definition opt_group :: "char \<Rightarrow> string \<Rightarrow> string \<Rightarrow> string \<times> string" where
  "opt_group d stops s =
     (case s of
        c # rest \<Rightarrow> if c = d then (takeWhile (none_of stops) rest, dropWhile (none_of stops) rest) else ([], s)
      | [] \<Rightarrow> ([], s))"

definition url_scheme_part :: "string \<Rightarrow> string \<times> string" where
  "url_scheme_part s =
     (let p = takeWhile (none_of '':.@/?#'') s; rest = dropWhile (none_of '':.@/?#'') s
      in if p \<noteq> [] \<and> rest \<noteq> [] \<and> hd rest = CHR '':'' then (p, tl rest) else ([], s))"

definition url_slashes :: "string \<Rightarrow> string" where
  "url_slashes s = drop (min 2 (length (takeWhile (\<lambda>c. c = CHR ''/'') s))) s"

definition url_userinfo :: "string \<Rightarrow> string \<times> string \<times> string" where
  "url_userinfo s =
     (if CHR ''@'' \<in> set s then
        (let info = takeWhile (\<lambda>c. c \<noteq> CHR ''@'') s
         in (takeWhile (\<lambda>c. c \<noteq> CHR '':'') info, drop 1 (dropWhile (\<lambda>c. c \<noteq> CHR '':'') info),
             drop 1 (dropWhile (\<lambda>c. c \<noteq> CHR ''@'') s)))
      else ([], [], s))"

definition url_match :: "string \<Rightarrow> url_groups" where
  "url_match url =
     (let (scheme, s) = url_scheme_part url;
          s = url_slashes s;
          (user, password, s) = url_userinfo s;
          host = takeWhile (none_of '':/?#'') s; s = dropWhile (none_of '':/?#'') s;
          (port, s) = opt_group (CHR '':'') ''/?#'' s;
          path = takeWhile (none_of ''?#'') s; s = dropWhile (none_of ''?#'') s;
          (query, s) = opt_group (CHR ''?'') ''#'' s;
          (fragment, s) = opt_group (CHR ''#'') [] s
      in \<lparr>url_scheme = scheme, url_user = user, url_password = password, url_host = host, url_port = port,
          url_path = path, url_query = query, url_fragment = fragment\<rparr>)"

text \<open>\<open>parse_url\<close>: \<open>None\<close> for a URL without a host. A group that matched nothing is \<open>nullopt\<close>.\<close>

definition parse_url :: "string \<Rightarrow> url_groups option" where
  "parse_url url = (let g = url_match url in if url_host g = [] then None else Some g)"

definition opt_string :: "string \<Rightarrow> string option" where
  "opt_string s = (if s = [] then None else Some s)"

text \<open>\<open>std::stoul\<close> in base 10, with \<open>None\<close> for its two exceptions.\<close>

definition stoul :: "string \<Rightarrow> nat option" where
  "stoul s =
     (let s = dropWhile isspace s;
          neg = (s \<noteq> [] \<and> hd s = CHR ''-'');
          s = (if s \<noteq> [] \<and> hd s \<in> {CHR ''-'', CHR ''+''} then tl s else s);
          ds = takeWhile isdigit s; v = digits_value 0 ds
      in if ds = [] \<or> v \<ge> 2 ^ 64 then None
         else Some (if neg then (2 ^ 64 - v) mod 2 ^ 64 else v))"

datatype ProxyType = Http | Socks5

record ProxyServer =
  proxy_type :: ProxyType
  proxy_hostname :: string
  proxy_port :: "16 word"
  proxy_username :: "string option"
  proxy_password :: "string option"

definition strip_brackets :: "string \<Rightarrow> string" where
  "strip_brackets h = rev (dropWhile (\<lambda>c. c = CHR '']'') (rev (dropWhile (\<lambda>c. c = CHR ''['') h)))"

definition ProxyServer_new :: "ProxyType \<Rightarrow> string \<Rightarrow> 16 word \<Rightarrow> ProxyServer" where
  "ProxyServer_new ty host port =
     \<lparr>proxy_type = ty, proxy_hostname = host, proxy_port = port, proxy_username = None, proxy_password = None\<rparr>"

definition ProxyServer_auth :: "ProxyType \<Rightarrow> string \<Rightarrow> 16 word \<Rightarrow> string \<Rightarrow> string \<Rightarrow> ProxyServer" where
  "ProxyServer_auth ty host port user password =
     \<lparr>proxy_type = ty, proxy_hostname = host, proxy_port = port, proxy_username = Some user, proxy_password = Some password\<rparr>"

definition ProxyServer_url :: "string \<Rightarrow> ProxyServer res" where
  "ProxyServer_url url =
     (case parse_url url of
        None \<Rightarrow> Inl (invalid_argument (''Invalid proxy server URL: '' @ url))
      | Some g \<Rightarrow>
          let scheme = (case opt_string (url_scheme g) of Some s \<Rightarrow> s | None \<Rightarrow> ''http'')
          in if scheme \<notin> {''http'', ''HTTP'', ''socks5'', ''SOCKS5''}
             then Inl (invalid_argument (''Unknown proxy server protocol: '' @ scheme))
             else
               let ty = (if scheme = ''http'' \<or> scheme = ''HTTP'' then Http else Socks5);
                   service = (case opt_string (url_port g) of Some s \<Rightarrow> s
                              | None \<Rightarrow> if ty = Socks5 then ''1080'' else ''3128'')
               in case stoul service of
                    None \<Rightarrow> Inl (invalid_argument (''Invalid proxy server port in URL: '' @ service))
                  | Some p \<Rightarrow>
                      Inr \<lparr>proxy_type = ty, proxy_hostname = strip_brackets (url_host g), proxy_port = word_of_nat p,
                           proxy_username = opt_string (url_user g), proxy_password = opt_string (url_password g)\<rparr>)"

section \<open>Properties\<close>

lemma takeWhile_all_stop: "list_all P xs \<Longrightarrow> ys = [] \<or> \<not> P (hd ys) \<Longrightarrow> takeWhile P (xs @ ys) = xs"
  by (induction xs) (cases ys, auto)

lemma dropWhile_all_stop: "list_all P xs \<Longrightarrow> ys = [] \<or> \<not> P (hd ys) \<Longrightarrow> dropWhile P (xs @ ys) = ys"
  by (induction xs) (cases ys, auto)

lemma none_of_notin: "list_all (none_of cs) s \<Longrightarrow> c \<in> set cs \<Longrightarrow> c \<notin> set s"
  by (auto simp: list_all_iff)

text \<open>The host of a match never contains a colon, so an IPv6 literal is never recognised as a host.\<close>

lemma url_match_host: "set (url_host (url_match url)) \<inter> {CHR '':'', CHR ''/'', CHR ''?'', CHR ''#''} = {}"
  by (auto simp: url_match_def Let_def case_prod_beta dest!: set_takeWhileD)

lemma url_scheme_part_ws:
  "url_scheme_part (''ws'' @ ''://'' @ s) = (''ws'', ''//'' @ s)" "url_scheme_part (''wss'' @ ''://'' @ s) = (''wss'', ''//'' @ s)"
  by (simp_all add: url_scheme_part_def Let_def)

text \<open>A URL put together from its parts is taken apart into the same parts.\<close>

lemma url_match_build:
  assumes scheme: "scheme = ''ws'' \<or> scheme = ''wss''"
    and host: "list_all (none_of '':/?#@'') host" and port: "list_all isdigit port"
    and path: "path = [] \<or> hd path = CHR ''/''" "list_all (none_of ''?#@'') path"
    and query: "list_all (none_of ''#@'') query"
  shows "url_match (scheme @ ''://'' @ host @ (if port = [] then [] else CHR '':'' # port) @ path
      @ (if query = [] then [] else CHR ''?'' # query)) =
    \<lparr>url_scheme = scheme, url_user = [], url_password = [], url_host = host, url_port = port,
     url_path = path, url_query = query, url_fragment = []\<rparr>"
proof -
  let ?q = "if query = [] then [] else CHR ''?'' # query"
  let ?p = "if port = [] then [] else CHR '':'' # port"
  let ?auth = "host @ ?p @ path @ ?q"
  have dig: "CHR ''@'' \<notin> set port" "list_all (none_of ''/?#'') port"
    using port by (auto simp: list_all_iff isdigit_def)
  have s1: "url_scheme_part (scheme @ ''://'' @ ?auth) = (scheme, ''//'' @ ?auth)"
    using scheme by (elim disjE) (simp_all only: url_scheme_part_ws)
  have s2: "url_slashes (''//'' @ ?auth) = ?auth" by (simp add: url_slashes_def)
  have "CHR ''@'' \<notin> set host" "CHR ''@'' \<notin> set path" "CHR ''@'' \<notin> set query"
    using none_of_notin [OF host] none_of_notin [OF path(2)] none_of_notin [OF query] by simp_all
  with dig(1) have "CHR ''@'' \<notin> set ?auth" by simp
  then have s3: "url_userinfo ?auth = ([], [], ?auth)" by (simp add: url_userinfo_def)
  have h: "list_all (none_of '':/?#'') host" using host by (auto simp: list_all_iff)
  have rest: "?p @ path @ ?q = [] \<or> \<not> none_of '':/?#'' (hd (?p @ path @ ?q))"
    using path(1) by (cases port; cases path; cases query) auto
  note s4 = takeWhile_all_stop [OF h rest] dropWhile_all_stop [OF h rest]
  have pq: "path @ ?q = [] \<or> \<not> none_of ''/?#'' (hd (path @ ?q))" using path(1) by (cases path; cases query) auto
  have s5: "opt_group (CHR '':'') ''/?#'' (?p @ path @ ?q) = (port, path @ ?q)"
  proof (cases "port = []")
    case True
    then show ?thesis using path(1) by (cases path; cases query) (auto simp: opt_group_def)
  next
    case False
    then show ?thesis using takeWhile_all_stop [OF dig(2) pq] dropWhile_all_stop [OF dig(2) pq] by (simp add: opt_group_def)
  qed
  have ph: "list_all (none_of ''?#'') path" "?q = [] \<or> \<not> none_of ''?#'' (hd ?q)"
    using path(2) by (auto simp: list_all_iff)
  note s6 = takeWhile_all_stop [OF ph] dropWhile_all_stop [OF ph]
  have "list_all (none_of ''#'') query" using query by (auto simp: list_all_iff)
  from takeWhile_all_stop [OF this, of "[]"] dropWhile_all_stop [OF this, of "[]"]
  have s7: "opt_group (CHR ''?'') ''#'' ?q = (query, [])" by (simp add: opt_group_def)
  show ?thesis
    unfolding url_match_def Let_def s1 s2 s3 s4 s5 s6 s7 prod.case by (simp add: opt_group_def)
qed

text \<open>
  The part before \<open>@\<close> may contain slashes, so text after the first slash of the path can take the
  place of the host.
\<close>

lemma url_match_at:
  assumes "list_all (none_of '':@'') info" "list_all (none_of '':/?#@'') host"
  shows "url_host (url_match (''ws://'' @ info @ CHR ''@'' # host)) = host"
proof -
  have s1: "url_scheme_part (''ws://'' @ info @ CHR ''@'' # host) = (''ws'', ''//'' @ info @ CHR ''@'' # host)"
    by (simp add: url_scheme_part_def Let_def)
  have s2: "url_slashes (''//'' @ info @ CHR ''@'' # host) = info @ CHR ''@'' # host" by (simp add: url_slashes_def)
  have i: "list_all (\<lambda>c. c \<noteq> CHR ''@'') info" using assms(1) by (auto simp: list_all_iff)
  have s3: "snd (snd (url_userinfo (info @ CHR ''@'' # host))) = host"
    using dropWhile_all_stop [OF i, of "CHR ''@'' # host"] by (simp add: url_userinfo_def Let_def)
  have "list_all (none_of '':/?#'') host" using assms(2) by (auto simp: list_all_iff)
  from takeWhile_all_stop [OF this, of "[]"] show ?thesis
    unfolding url_match_def Let_def s1 s2 prod.case by (simp add: case_prod_beta s3)
qed

lemma stoul_bound: "stoul s = Some v \<Longrightarrow> v < 2 ^ 64"
  by (auto simp: stoul_def Let_def split: if_splits)

end
