(* ===== verification/Wsc_WebSocket.thy ===== *)
theory Wsc_WebSocket
  imports Wsc_Channel Wsc_Url Wsc_WsTransport
begin

text \<open>
  The WebSocket object (\<open>src/impl/websocketimpl.cpp\<close>, \<open>src/websocket.cpp\<close>): opening a URL, building
  the stack of transports as each layer reports that it is connected, delivering messages to the
  receive queue, and closing.

  \<^item> A transport is an identity; the four slots hold the transports in use. What the object does to
    a transport (start it, stop it, drop its callbacks, hand it to the tear-down thread) and the
    work it schedules are recorded in \<open>effects\<close>, together with the three moments of its life that an
    application is told of. What its transports do on their own is an event with a handler of its
    own below, the body of the callback that the object gave to that transport.
  \<^item> \<open>ws_world\<close> is what the object cannot know: whether constructing or starting a transport
    throws, whether another thread closes the object while a transport starts, and the result of
    sending.
\<close>

datatype WsState = WsConnecting | WsOpen | WsClosing | WsClosed
datatype tkind = TcpKind | ProxyKind | TlsKind | WsKind

datatype ws_effect =
    Opening | Opened | Closed
  | CreateTcp string string
  | StartTransport tkind nat
  | StopTransport tkind nat
  | DropStateCallback tkind nat
  | DropRecvCallback nat
  | DropAmountCallback nat
  | TearDown "(tkind \<times> nat) list"
  | SetReadTimeout nat
  | ScheduleTimeout nat

definition WsState_show :: "WsState \<Rightarrow> string" where
  "WsState_show s =
     (case s of WsConnecting \<Rightarrow> ''connecting'' | WsOpen \<Rightarrow> ''open'' | WsClosing \<Rightarrow> ''closing'' | WsClosed \<Rightarrow> ''closed'')"

record WebSocketConfiguration =
  disableTlsVerification :: bool
  proxyServer :: "ProxyServer option"
  protocols :: "string list"
  connectionTimeout :: "nat option"
  pingInterval :: "nat option"
  maxOutstandingPings :: "int option"
  caCertificatePemFile :: "string option"
  certificatePemFile :: "string option"
  keyPemFile :: "string option"
  keyPemPass :: "string option"
  maxMessageSize :: "nat option"

definition default_config :: WebSocketConfiguration where
  "default_config = \<lparr>disableTlsVerification = False, proxyServer = None, protocols = [], connectionTimeout = None,
     pingInterval = None, maxOutstandingPings = None, caCertificatePemFile = None, certificatePemFile = None,
     keyPemFile = None, keyPemPass = None, maxMessageSize = None\<rparr>"

record WebSocket = Channel +
  config :: WebSocketConfiguration
  wsState :: WsState
  mCertificate :: bool
  mIsSecure :: bool
  mSniHostname :: "string option"
  mProxyTarget :: "string option"
  mTcpTransport :: "nat option"
  mProxyTransport :: "nat option"
  mTlsTransport :: "nat option"
  mWsTransport :: "nat option"
  mWsHandshake :: "WsHandshake option"
  mNextId :: nat
  effects :: "ws_effect list"

record ws_world =
  ctor_throws :: "tkind \<Rightarrow> nat \<Rightarrow> bool"
  start_throws :: "tkind \<Rightarrow> nat \<Rightarrow> bool"
  closed_meanwhile :: "tkind \<Rightarrow> nat \<Rightarrow> bool"
  transport_send :: "nat \<Rightarrow> Message \<Rightarrow> bool res"

definition Channel_new :: "nat \<Rightarrow> Channel" where
  "Channel_new limit = \<lparr>openCallback = no_callback, closedCallback = no_callback, errorCallback = no_callback,
     availableCallback = no_callback, bufferedAmountLowCallback = no_callback, messageCallback = None,
     bufferedAmount = 0, bufferedAmountLowThreshold = 0, mOpenTriggered = False,
     mRecvQueue = Queue_new limit (Some message_size_func), calls = []\<rparr>"

text \<open>
  The constructor; \<open>cert\<close> says that a certificate object is passed, \<open>load\<close> is what loading one from the two
  options and the password gives (\<open>load_certificate\<close> of \<open>Wsc_Certificate\<close> in the OpenSSL build).
\<close>

definition WebSocket_certificate ::
  "WebSocketConfiguration \<Rightarrow> bool \<Rightarrow> (string \<Rightarrow> string \<Rightarrow> string option \<Rightarrow> unit res) \<Rightarrow> bool res" where
  "WebSocket_certificate c cert load =
     (if cert then Inr True
      else case (certificatePemFile c, keyPemFile c) of
        (Some crt, Some key) \<Rightarrow> (case load crt key (keyPemPass c) of Inl e \<Rightarrow> Inl e | Inr _ \<Rightarrow> Inr True)
      | (None, None) \<Rightarrow> Inr False
      | _ \<Rightarrow> Inl (invalid_argument ''Either none or both certificate and key PEM files must be specified''))"

definition WebSocket_new ::
  "WebSocketConfiguration option \<Rightarrow> bool \<Rightarrow> (string \<Rightarrow> string \<Rightarrow> string option \<Rightarrow> unit res) \<Rightarrow> WebSocket res" where
  "WebSocket_new optConfig cert load =
     (let c = (case optConfig of Some c \<Rightarrow> c | None \<Rightarrow> default_config)
      in case WebSocket_certificate c cert load of
           Inl e \<Rightarrow> Inl e
         | Inr has \<Rightarrow>
             if (case proxyServer c of None \<Rightarrow> False | Some p \<Rightarrow> proxy_type p = Socks5)
             then Inl (invalid_argument ''Proxy server support for WebSocket is not implemented for Socks5'')
             else Inr (Channel.extend (Channel_new RECV_QUEUE_LIMIT)
                    (WebSocket.fields c WsClosed has has None None None None None None None 0 [])))"

definition load_nothing :: "string \<Rightarrow> string \<Rightarrow> string option \<Rightarrow> unit res" where
  "load_nothing crt key pass = Inr ()"

abbreviation emit :: "ws_effect list \<Rightarrow> WebSocket \<Rightarrow> WebSocket" where
  "emit es w \<equiv> w\<lparr>effects := effects w @ es\<rparr>"

definition WebSocket_changeState :: "WsState \<Rightarrow> WebSocket \<Rightarrow> bool \<times> WebSocket" where
  "WebSocket_changeState newState w = (wsState w \<noteq> newState, w\<lparr>wsState := newState\<rparr>)"

definition slot_list :: "tkind \<Rightarrow> nat option \<Rightarrow> (tkind \<times> nat) list" where
  "slot_list k t = (case t of None \<Rightarrow> [] | Some i \<Rightarrow> [(k, i)])"

text \<open>
  \<open>closeTransports\<close>. The task given to the tear-down processor stops the first transport of the list
  and destroys them all.
\<close>

definition WebSocket_closeTransports :: "WebSocket \<Rightarrow> WebSocket" where
  "WebSocket_closeTransports w =
     (let (changed, w) = WebSocket_changeState WsClosed w
      in if \<not> changed then w
         else
           let ws = slot_list WsKind (mWsTransport w); tls = slot_list TlsKind (mTlsTransport w);
               tcp = slot_list TcpKind (mTcpTransport w); transports = ws @ tls @ tcp;
               w = w\<lparr>mWsTransport := None, mTlsTransport := None, mTcpTransport := None\<rparr>;
               w = emit (map (\<lambda>(k, i). DropRecvCallback i) ws @ map (\<lambda>(k, i). DropAmountCallback i) tcp
                         @ map (\<lambda>(k, i). DropStateCallback k i) transports @ [TearDown transports, Closed]) w
           in Channel_triggerClosed w)"

text \<open>\<open>close\<close> and \<open>remoteClose\<close> call each other.\<close>

definition still_open :: "WebSocket \<Rightarrow> nat" where
  "still_open w = (if wsState w = WsConnecting \<or> wsState w = WsOpen then 1 else 0)"

function WebSocket_close :: "WebSocket \<Rightarrow> WebSocket" and WebSocket_remoteClose :: "WebSocket \<Rightarrow> WebSocket" where
  "WebSocket_close w =
     (if wsState w = WsConnecting \<or> wsState w = WsOpen then
        let w = snd (WebSocket_changeState WsClosing w)
        in case mWsTransport w of
             Some t \<Rightarrow> emit [StopTransport WsKind t] w
           | None \<Rightarrow> WebSocket_remoteClose w
      else w)"
| "WebSocket_remoteClose w =
     (let w = WebSocket_close w
      in if wsState w \<noteq> WsClosed then WebSocket_closeTransports w else w)"
  by pat_completeness auto
termination
  by (relation "measure (\<lambda>x. case x of Inl w \<Rightarrow> 2 * still_open w | Inr w \<Rightarrow> 2 * still_open w + 1)")
    (auto simp: still_open_def WebSocket_changeState_def)

declare WebSocket_close.simps [simp del] WebSocket_remoteClose.simps [simp del]

definition WebSocket_isOpen :: "WebSocket \<Rightarrow> bool" where "WebSocket_isOpen w = (wsState w = WsOpen)"
definition WebSocket_isClosed :: "WebSocket \<Rightarrow> bool" where "WebSocket_isClosed w = (wsState w = WsClosed)"

definition WebSocket_maxMessageSize :: "WebSocket \<Rightarrow> nat" where
  "WebSocket_maxMessageSize w = (case maxMessageSize (config w) of Some n \<Rightarrow> n | None \<Rightarrow> DEFAULT_WS_MAX_MESSAGE_SIZE)"

definition WebSocket_receive :: "WebSocket \<Rightarrow> message_variant option \<times> WebSocket" where
  "WebSocket_receive w = Channel_receive w"

text \<open>
  \<open>peek\<close> moves the bytes out of the message that stays at the front of the queue: the queue then
  holds what \<open>to_variant\<close> left of it. The amount of the queue is not touched.
\<close>

definition WebSocket_peek :: "WebSocket \<Rightarrow> message_variant option \<times> WebSocket" where
  "WebSocket_peek w =
     (case Queue_peek (mRecvQueue w) of
        None \<Rightarrow> (None, w)
      | Some m \<Rightarrow>
          (case to_variant_move m of (v, m') \<Rightarrow>
             (Some v, w\<lparr>mRecvQueue := (mRecvQueue w)\<lparr>mQueue := m' # tl (mQueue (mRecvQueue w))\<rparr>\<rparr>)))"

definition WebSocket_availableAmount :: "WebSocket \<Rightarrow> 64 word" where
  "WebSocket_availableAmount w = Queue_amount (mRecvQueue w)"

definition WebSocket_outgoing :: "ws_world \<Rightarrow> Message \<Rightarrow> WebSocket \<Rightarrow> bool res" where
  "WebSocket_outgoing W message w =
     (case mWsTransport w of
        None \<Rightarrow> Inl (runtime_error ''WebSocket is not open'')
      | Some t \<Rightarrow>
          if wsState w \<noteq> WsOpen then Inl (runtime_error ''WebSocket is not open'')
          else if length (data message) > WebSocket_maxMessageSize w
          then Inl (runtime_error ''Message size exceeds limit'')
          else transport_send W t message)"

text \<open>\<open>incoming\<close>, with \<open>None\<close> while the push on a full queue blocks the calling thread.\<close>

definition WebSocket_incoming :: "message_ptr \<Rightarrow> WebSocket \<Rightarrow> WebSocket option" where
  "WebSocket_incoming message w =
     (case message of
        None \<Rightarrow> Some (WebSocket_remoteClose w)
      | Some m \<Rightarrow>
          if type m = String \<or> type m = Binary then
            (case Queue_push (mRecvQueue w) m of
               None \<Rightarrow> None
             | Some q \<Rightarrow> Some (Channel_triggerAvailable (Queue_size q) (w\<lparr>mRecvQueue := q\<rparr>)))
          else Some w)"

section \<open>Building the stack of transports\<close>

definition set_slot :: "tkind \<Rightarrow> nat option \<Rightarrow> WebSocket \<Rightarrow> WebSocket" where
  "set_slot k t w =
     (case k of TcpKind \<Rightarrow> w\<lparr>mTcpTransport := t\<rparr> | ProxyKind \<Rightarrow> w\<lparr>mProxyTransport := t\<rparr>
              | TlsKind \<Rightarrow> w\<lparr>mTlsTransport := t\<rparr> | WsKind \<Rightarrow> w\<lparr>mWsTransport := t\<rparr>)"

text \<open>\<open>emplaceTransport\<close>; the transport just made is the next identity.\<close>

definition emplaceTransport :: "ws_world \<Rightarrow> tkind \<Rightarrow> WebSocket \<Rightarrow> unit res \<times> WebSocket" where
  "emplaceTransport W k w =
     (let t = mNextId w;
          w = emit [StartTransport k t] (set_slot k (Some t) (w\<lparr>mNextId := t + 1\<rparr>))
      in if start_throws W k t then
           (Inl (runtime_error ''start''), emit [StopTransport k t] (set_slot k None w))
         else
           let w = (if closed_meanwhile W k t then WebSocket_remoteClose w else w)
           in if wsState w = WsClosed then (Inr (), emit [StopTransport k t] (set_slot k None w))
              else (Inr (), w))"

text \<open>The handler shared by the four methods below: close, then throw.\<close>

definition init_failed :: "string \<Rightarrow> WebSocket \<Rightarrow> unit res \<times> WebSocket" where
  "init_failed name w =
     (Inl (runtime_error (name @ '' transport initialization failed'')), WebSocket_remoteClose w)"

definition init_guard :: "string \<Rightarrow> unit res \<times> WebSocket \<Rightarrow> unit res \<times> WebSocket" where
  "init_guard name r = (case r of (Inl e, w) \<Rightarrow> init_failed name w | (Inr u, w) \<Rightarrow> (Inr u, w))"

definition WebSocket_scheduleConnectionTimeout :: "WebSocket \<Rightarrow> WebSocket" where
  "WebSocket_scheduleConnectionTimeout w =
     (let timeout = (case connectionTimeout (config w) of Some ms \<Rightarrow> ms | None \<Rightarrow> 30000)
      in if timeout > 0 then emit [ScheduleTimeout timeout] w else w)"

text \<open>The task it schedules.\<close>

definition WebSocket_connectionTimeout :: "WebSocket \<Rightarrow> WebSocket" where
  "WebSocket_connectionTimeout w =
     (if wsState w = WsConnecting
      then WebSocket_remoteClose (Channel_triggerError ''Connection timed out'' w) else w)"

definition WebSocket_setTcpTransport :: "ws_world \<Rightarrow> WebSocket \<Rightarrow> unit res \<times> WebSocket" where
  "WebSocket_setTcpTransport W w =
     (if mTcpTransport w \<noteq> None then init_failed ''TCP'' w
      else
        let ping = (case pingInterval (config w) of Some ms \<Rightarrow> ms | None \<Rightarrow> 10000);
            w = (if ping > 0 then emit [SetReadTimeout ping] w else w);
            w = WebSocket_scheduleConnectionTimeout w
        in init_guard ''TCP'' (emplaceTransport W TcpKind w))"

definition WebSocket_initProxyTransport :: "ws_world \<Rightarrow> WebSocket \<Rightarrow> unit res \<times> WebSocket" where
  "WebSocket_initProxyTransport W w =
     (if mProxyTransport w \<noteq> None then (Inr (), w)
      else if mTcpTransport w = None \<or> mSniHostname w = None \<or> mProxyTarget w = None \<or> ctor_throws W ProxyKind (mNextId w)
      then init_failed ''Tcp Proxy'' w
      else init_guard ''Tcp Proxy'' (emplaceTransport W ProxyKind w))"

definition WebSocket_initTlsTransport :: "ws_world \<Rightarrow> WebSocket \<Rightarrow> unit res \<times> WebSocket" where
  "WebSocket_initTlsTransport W w =
     (if mTlsTransport w \<noteq> None then (Inr (), w)
      else
        let lower = (if proxyServer (config w) \<noteq> None then mProxyTransport w else mTcpTransport w)
        in if lower = None \<or> ctor_throws W TlsKind (mNextId w) then init_failed ''TLS'' w
           else init_guard ''TLS'' (emplaceTransport W TlsKind w))"

text \<open>Whether the TLS transport is made to verify the certificate of the peer.\<close>

definition tls_verify :: "WebSocket \<Rightarrow> bool" where
  "tls_verify w \<longleftrightarrow> mSniHostname w \<noteq> None \<and> \<not> disableTlsVerification (config w)"

definition WebSocket_initWsTransport :: "ws_world \<Rightarrow> WebSocket \<Rightarrow> unit res \<times> WebSocket" where
  "WebSocket_initWsTransport W w =
     (if mWsTransport w \<noteq> None then (Inr (), w)
      else
        let lower = (if mIsSecure w then mTlsTransport w
                     else if proxyServer (config w) \<noteq> None then mProxyTransport w else mTcpTransport w)
        in if lower = None then init_failed ''WebSocket'' w
           else
             let w = (if mWsHandshake w = None then w\<lparr>mWsHandshake := Some WsHandshake_default\<rparr> else w)
             in if ctor_throws W WsKind (mNextId w) then init_failed ''WebSocket'' w
                else init_guard ''WebSocket'' (emplaceTransport W WsKind w))"

section \<open>The callbacks given to the transports\<close>

text \<open>
  An exception that leaves a state callback is caught by the transport that called it, so only the
  object matters.
\<close>

definition WebSocket_onTcpState :: "ws_world \<Rightarrow> State \<Rightarrow> WebSocket \<Rightarrow> WebSocket" where
  "WebSocket_onTcpState W s w =
     (case s of
        Connected \<Rightarrow>
          if proxyServer (config w) \<noteq> None then snd (WebSocket_initProxyTransport W w)
          else if mIsSecure w then snd (WebSocket_initTlsTransport W w)
          else snd (WebSocket_initWsTransport W w)
      | Failed \<Rightarrow> WebSocket_remoteClose (Channel_triggerError ''TCP connection failed'' w)
      | Disconnected \<Rightarrow> if wsState w = WsConnecting then WebSocket_remoteClose w else w
      | _ \<Rightarrow> w)"

definition WebSocket_onProxyState :: "ws_world \<Rightarrow> State \<Rightarrow> WebSocket \<Rightarrow> WebSocket" where
  "WebSocket_onProxyState W s w =
     (case s of
        Connected \<Rightarrow>
          if mIsSecure w then snd (WebSocket_initTlsTransport W w) else snd (WebSocket_initWsTransport W w)
      | Failed \<Rightarrow> WebSocket_remoteClose (Channel_triggerError ''Proxy connection failed'' w)
      | Disconnected \<Rightarrow> if wsState w = WsConnecting then WebSocket_remoteClose w else w
      | _ \<Rightarrow> w)"

definition WebSocket_onTlsState :: "ws_world \<Rightarrow> State \<Rightarrow> WebSocket \<Rightarrow> WebSocket" where
  "WebSocket_onTlsState W s w =
     (case s of
        Connected \<Rightarrow> snd (WebSocket_initWsTransport W w)
      | Failed \<Rightarrow> WebSocket_remoteClose (Channel_triggerError ''TLS connection failed'' w)
      | Disconnected \<Rightarrow> if wsState w = WsConnecting then WebSocket_remoteClose w else w
      | _ \<Rightarrow> w)"

definition WebSocket_onWsState :: "State \<Rightarrow> WebSocket \<Rightarrow> WebSocket" where
  "WebSocket_onWsState s w =
     (case s of
        Connected \<Rightarrow>
          if wsState w = WsConnecting then
            (case WebSocket_changeState WsOpen w of
               (changed, w) \<Rightarrow> if changed then Channel_triggerOpen (emit [Opened] w) else w)
          else w
      | Failed \<Rightarrow> WebSocket_remoteClose (Channel_triggerError ''WebSocket connection failed'' w)
      | Disconnected \<Rightarrow> WebSocket_remoteClose w
      | _ \<Rightarrow> w)"

section \<open>Opening\<close>

definition url_hostname :: "string \<Rightarrow> string" where
  "url_hostname h =
     (if h \<noteq> [] \<and> hd h = CHR ''['' \<and> last h = CHR '']'' then butlast (tl h) else url_decode h)"

text \<open>The end of \<open>open\<close>, once the URL has been taken apart.\<close>

definition WebSocket_dial :: "ws_world \<Rightarrow> string \<Rightarrow> string \<Rightarrow> WebSocket \<Rightarrow> unit res \<times> WebSocket" where
  "WebSocket_dial W hostname service w =
     (let w = emit [Opening] (snd (WebSocket_changeState WsConnecting w));
          w = (case proxyServer (config w) of
                 Some p \<Rightarrow> emit [CreateTcp (proxy_hostname p) (to_string (unat (proxy_port p)))] w
               | None \<Rightarrow> emit [CreateTcp hostname service] w)
      in WebSocket_setTcpTransport W w)"

definition WebSocket_open :: "ws_world \<Rightarrow> string \<Rightarrow> WebSocket \<Rightarrow> unit res \<times> WebSocket" where
  "WebSocket_open W url w =
     (if wsState w \<noteq> WsClosed then (Inl (logic_error ''WebSocket must be closed before opening''), w)
      else case parse_url url of
        None \<Rightarrow> (Inl (invalid_argument (''Invalid WebSocket URL: '' @ url)), w)
      | Some m \<Rightarrow>
          let scheme = (if url_scheme m = [] then ''ws'' else url_scheme m)
          in if scheme \<noteq> ''ws'' \<and> scheme \<noteq> ''wss''
             then (Inl (invalid_argument (''Invalid WebSocket scheme: '' @ scheme)), w)
             else
               let w = w\<lparr>mIsSecure := (scheme \<noteq> ''ws'')\<rparr>;
                   service = (if url_port m = [] then (if mIsSecure w then ''443'' else ''80'') else url_port m);
                   host = (if url_port m = [] then url_host m else url_host m @ '':'' @ url_port m);
                   hostname = url_hostname (url_host m);
                   path = (if url_path m = [] then ''/'' else url_path m);
                   path = (if url_query m = [] then path else path @ ''?'' @ url_query m);
                   w = w\<lparr>mSniHostname := Some hostname, mProxyTarget := Some service\<rparr>
               in case WsHandshake_new host path (protocols (config w)) of
                    Inl e \<Rightarrow> (Inl e, w)
                  | Inr h \<Rightarrow> WebSocket_dial W hostname service (w\<lparr>mWsHandshake := Some h\<rparr>))"

text \<open>\<open>path\<close> of the public class.\<close>

definition WebSocket_path :: "WebSocket \<Rightarrow> string option" where
  "WebSocket_path w =
     (if wsState w \<noteq> WsConnecting then map_option mPath (mWsHandshake w) else None)"

section \<open>The channel underneath\<close>

text \<open>The operations of the channel leave the fields of the WebSocket alone.\<close>

lemma log_call_more [simp]: "Channel.more (log_call c ch) = Channel.more ch"
  by (simp add: log_call_def split: option.splits)

lemma flush_loop_more [simp]: "Channel.more (Channel_flush_loop ch) = Channel.more ch"
proof (induction ch rule: Channel_flush_loop.induct)
  case (1 ch)
  show ?case
  proof (cases "messageCallback ch")
    case None
    then show ?thesis by (subst Channel_flush_loop.simps) simp
  next
    case (Some f)
    obtain r ch' where r: "Channel_receive ch = (r, ch')" by fastforce
    then have m: "Channel.more ch' = Channel.more ch"
      by (auto simp: Channel_receive_def split: prod.splits option.splits)
    show ?thesis
    proof (cases r)
      case None
      then show ?thesis using Some r m by (subst Channel_flush_loop.simps) simp
    next
      case (Some v)
      then show ?thesis using \<open>messageCallback ch = _\<close> r m "1.IH" [OF \<open>messageCallback ch = _\<close> r [symmetric] Some]
        by (subst Channel_flush_loop.simps) simp
    qed
  qed
qed

lemma trigger_more [simp]:
  "Channel.more (Channel_flushPendingMessages ch) = Channel.more ch"
  "Channel.more (Channel_triggerOpen ch) = Channel.more ch"
  "Channel.more (Channel_triggerClosed ch) = Channel.more ch"
  "Channel.more (Channel_triggerError e ch) = Channel.more ch"
  "Channel.more (Channel_triggerAvailable n ch) = Channel.more ch"
  "Channel.more (Channel_triggerBufferedAmount a ch) = Channel.more ch"
proof -
  show flush: "Channel.more (Channel_flushPendingMessages ch) = Channel.more ch" for ch :: "'a Channel_scheme"
    by (simp add: Channel_flushPendingMessages_def)
  show "Channel.more (Channel_triggerOpen ch) = Channel.more ch"
    by (simp add: Channel_triggerOpen_def Let_def flush split: prod.splits)
  show "Channel.more (Channel_triggerAvailable n ch) = Channel.more ch"
    by (simp add: Channel_triggerAvailable_def Let_def flush split: prod.splits)
qed (simp_all add: Channel_triggerClosed_def Channel_triggerError_def Channel_triggerBufferedAmount_def Let_def
      split: prod.splits)

lemma more_fields:
  fixes w w' :: WebSocket
  assumes "Channel.more w = Channel.more w'"
  shows "wsState w = wsState w'" "effects w = effects w'" "mTcpTransport w = mTcpTransport w'"
    "mTlsTransport w = mTlsTransport w'" "mWsTransport w = mWsTransport w'" "mProxyTransport w = mProxyTransport w'"
    "config w = config w'" "mNextId w = mNextId w'" "mIsSecure w = mIsSecure w'"
  using assms by (cases w; cases w'; simp)+

lemmas trigger_fields [simp] =
  more_fields [OF trigger_more(2)] more_fields [OF trigger_more(3)] more_fields [OF trigger_more(4)]
  more_fields [OF trigger_more(5)]

section \<open>The life of a WebSocket\<close>

text \<open>
  The moments an application is told of: after \<open>open\<close>, the connection may be reported open once, and
  is reported closed exactly once. \<open>life\<close> accepts exactly the sequences of that form.
\<close>

datatype phase = Idle | Started | Up

fun life :: "phase \<Rightarrow> ws_effect list \<Rightarrow> phase option" where
  "life p [] = Some p"
| "life p (Opening # es) = (if p = Idle then life Started es else None)"
| "life p (Opened # es) = (if p = Started then life Up es else None)"
| "life p (Closed # es) = (if p \<noteq> Idle then life Idle es else None)"
| "life p (_ # es) = life p es"

lemma life_append: "life p (a @ b) = Option.bind (life p a) (\<lambda>q. life q b)"
  by (induction p a rule: life.induct) auto

lemma life_silent: "set es \<inter> {Opening, Opened, Closed} = {} \<Longrightarrow> life p es = Some p"
  by (induction p es rule: life.induct) auto

definition ws_inv :: "WebSocket \<Rightarrow> bool" where
  "ws_inv w \<longleftrightarrow> (\<exists>p. life Idle (effects w) = Some p \<and> (wsState w = WsClosed \<longleftrightarrow> p = Idle)
      \<and> (wsState w = WsConnecting \<longrightarrow> p = Started) \<and> (wsState w = WsOpen \<longrightarrow> p = Up))
     \<and> (wsState w = WsClosed \<longrightarrow> mTcpTransport w = None \<and> mTlsTransport w = None \<and> mWsTransport w = None)"

lemma ws_inv_cong:
  assumes "Channel.more w = Channel.more w'"
  shows "ws_inv w = ws_inv w'"
  using more_fields [OF assms] by (simp add: ws_inv_def)

lemma ws_inv_emit:
  assumes "set es \<inter> {Opening, Opened, Closed} = {}"
  shows "ws_inv (emit es w) = ws_inv w"
  using life_silent [OF assms] by (auto simp: ws_inv_def life_append split: Option.bind_split)

lemma ws_inv_fields [simp]:
  "ws_inv (w\<lparr>mNextId := n\<rparr>) = ws_inv w" "ws_inv (w\<lparr>mProxyTransport := t\<rparr>) = ws_inv w"
  "ws_inv (w\<lparr>mWsHandshake := h\<rparr>) = ws_inv w" "ws_inv (w\<lparr>mIsSecure := b\<rparr>) = ws_inv w"
  "ws_inv (w\<lparr>mSniHostname := s\<rparr>) = ws_inv w" "ws_inv (w\<lparr>mProxyTarget := s\<rparr>) = ws_inv w"
  "ws_inv (w\<lparr>mRecvQueue := q\<rparr>) = ws_inv w"
  by (simp_all add: ws_inv_def)

lemma closeTransports_inv:
  assumes "ws_inv w"
  shows "ws_inv (WebSocket_closeTransports w)" "wsState (WebSocket_closeTransports w) = WsClosed"
proof -
  show "wsState (WebSocket_closeTransports w) = WsClosed"
    by (simp add: WebSocket_closeTransports_def WebSocket_changeState_def Let_def)
  show "ws_inv (WebSocket_closeTransports w)"
  proof (cases "wsState w = WsClosed")
    case True
    then have "WebSocket_closeTransports w = w\<lparr>wsState := WsClosed\<rparr>"
      by (simp add: WebSocket_closeTransports_def WebSocket_changeState_def)
    then show ?thesis using assms True by (simp add: ws_inv_def)
  next
    case False
    let ?es = "map (\<lambda>(k, i). DropRecvCallback i) (slot_list WsKind (mWsTransport w))
      @ map (\<lambda>(k, i). DropAmountCallback i) (slot_list TcpKind (mTcpTransport w))
      @ map (\<lambda>(k, i). DropStateCallback k i) (slot_list WsKind (mWsTransport w) @ slot_list TlsKind (mTlsTransport w)
          @ slot_list TcpKind (mTcpTransport w))
      @ [TearDown (slot_list WsKind (mWsTransport w) @ slot_list TlsKind (mTlsTransport w) @ slot_list TcpKind (mTcpTransport w))]"
    have silent: "life p ?es = Some p" for p by (rule life_silent) auto
    from assms False obtain p where p: "life Idle (effects w) = Some p" "p \<noteq> Idle" by (auto simp: ws_inv_def)
    then have "life Idle (effects w @ ?es @ [Closed]) = Some Idle"
      using silent [of p] by (simp only: life_append bind.simps) simp
    then show ?thesis using False
      by (simp add: WebSocket_closeTransports_def WebSocket_changeState_def Let_def ws_inv_def)
  qed
qed

lemma changeState_closing_inv:
  "ws_inv w \<Longrightarrow> wsState w = WsConnecting \<or> wsState w = WsOpen \<Longrightarrow> ws_inv (w\<lparr>wsState := WsClosing\<rparr>)"
  by (auto simp: ws_inv_def)

lemma remoteClose_closing:
  "wsState w \<notin> {WsConnecting, WsOpen} \<Longrightarrow>
   WebSocket_remoteClose w = (if wsState w \<noteq> WsClosed then WebSocket_closeTransports w else w)"
  by (subst WebSocket_remoteClose.simps) (simp add: WebSocket_close.simps)

lemma close_inv:
  assumes "ws_inv w"
  shows "ws_inv (WebSocket_close w) \<and> wsState (WebSocket_close w) \<in> {WsClosing, WsClosed}"
proof (cases "wsState w = WsConnecting \<or> wsState w = WsOpen")
  case False
  then show ?thesis using assms by (cases "wsState w") (auto simp: WebSocket_close.simps)
next
  case True
  let ?w = "w\<lparr>wsState := WsClosing\<rparr>"
  have inv: "ws_inv ?w" using changeState_closing_inv [OF assms True] .
  have c: "WebSocket_close w = (case mWsTransport w of Some t \<Rightarrow> emit [StopTransport WsKind t] ?w | None \<Rightarrow> WebSocket_closeTransports ?w)"
    using True by (subst WebSocket_close.simps) (simp add: WebSocket_changeState_def remoteClose_closing split: option.splits)
  show ?thesis
  proof (cases "mWsTransport w")
    case None
    then show ?thesis using c closeTransports_inv [OF inv] by simp
  next
    case (Some t)
    then show ?thesis using c inv ws_inv_emit [of "[StopTransport WsKind t]" ?w] by simp
  qed
qed

lemma remoteClose_inv:
  assumes "ws_inv w"
  shows "ws_inv (WebSocket_remoteClose w)" "wsState (WebSocket_remoteClose w) = WsClosed"
  using close_inv [OF assms] closeTransports_inv [of "WebSocket_close w"]
  by (auto simp: WebSocket_remoteClose.simps Let_def)

text \<open>
  Closing by force, from any state but closed: at most the WebSocket transport is told to stop, then all
  the transports are torn down and the closing is reported.
\<close>

lemma remoteClose_eq:
  assumes "wsState w \<noteq> WsClosed"
  obtains pre where "WebSocket_remoteClose w = WebSocket_closeTransports (emit pre (w\<lparr>wsState := WsClosing\<rparr>))"
    "pre = [] \<or> (\<exists>t. pre = [StopTransport WsKind t])"
proof (cases "wsState w = WsConnecting \<or> wsState w = WsOpen")
  case False
  then have c: "wsState w = WsClosing" using assms by (cases "wsState w") auto
  then have "WebSocket_remoteClose w = WebSocket_closeTransports w" "emit [] (w\<lparr>wsState := WsClosing\<rparr>) = w"
    by (simp add: remoteClose_closing, cases w, simp)
  then show ?thesis by (metis that)
next
  case True
  let ?w = "w\<lparr>wsState := WsClosing\<rparr>"
  show ?thesis
  proof (cases "mWsTransport w")
    case None
    have "WebSocket_close w = WebSocket_closeTransports ?w"
      using True None by (subst WebSocket_close.simps) (simp add: WebSocket_changeState_def remoteClose_closing)
    moreover have "wsState (WebSocket_closeTransports ?w) = WsClosed"
      by (simp add: WebSocket_closeTransports_def WebSocket_changeState_def Let_def)
    ultimately have "WebSocket_remoteClose w = WebSocket_closeTransports (emit [] ?w)"
      by (subst WebSocket_remoteClose.simps) simp
    then show ?thesis using that [of "[]"] by simp
  next
    case (Some t)
    have "WebSocket_close w = emit [StopTransport WsKind t] ?w"
      using True Some by (subst WebSocket_close.simps) (simp add: WebSocket_changeState_def)
    then have "WebSocket_remoteClose w = WebSocket_closeTransports (emit [StopTransport WsKind t] ?w)"
      by (subst WebSocket_remoteClose.simps) simp
    then show ?thesis using that [of "[StopTransport WsKind t]"] by simp
  qed
qed

definition transports :: "WebSocket \<Rightarrow> (tkind \<times> nat) list" where
  "transports w = slot_list WsKind (mWsTransport w) @ slot_list TlsKind (mTlsTransport w) @ slot_list TcpKind (mTcpTransport w)"

lemma closeTransports_effects:
  assumes "wsState w \<noteq> WsClosed"
  shows "\<exists>es. effects (WebSocket_closeTransports w) = effects w @ es @ [TearDown (transports w), Closed] \<and> Closed \<notin> set es"
    "transports (WebSocket_closeTransports w) = []"
  using assms
  by (auto simp: WebSocket_closeTransports_def WebSocket_changeState_def Let_def transports_def slot_list_def split: option.splits)

lemma remoteClose_effects:
  assumes "wsState w \<noteq> WsClosed"
  shows "\<exists>es. effects (WebSocket_remoteClose w) = effects w @ es @ [TearDown (transports w), Closed] \<and> Closed \<notin> set es"
    "transports (WebSocket_remoteClose w) = []" "wsState (WebSocket_remoteClose w) = WsClosed"
proof -
  obtain pre where e: "WebSocket_remoteClose w = WebSocket_closeTransports (emit pre (w\<lparr>wsState := WsClosing\<rparr>))"
    "pre = [] \<or> (\<exists>t. pre = [StopTransport WsKind t])" using remoteClose_eq [OF assms] by blast
  let ?v = "emit pre (w\<lparr>wsState := WsClosing\<rparr>)"
  have v: "wsState ?v \<noteq> WsClosed" "transports ?v = transports w" by (simp_all add: transports_def)
  from closeTransports_effects [OF v(1)] e v(2)
  show "\<exists>es. effects (WebSocket_remoteClose w) = effects w @ es @ [TearDown (transports w), Closed] \<and> Closed \<notin> set es"
    "transports (WebSocket_remoteClose w) = []" by auto
  show "wsState (WebSocket_remoteClose w) = WsClosed"
    unfolding e(1) by (simp add: WebSocket_closeTransports_def WebSocket_changeState_def Let_def)
qed

text \<open>Building the stack never changes the state, except by closing.\<close>

definition building :: "WebSocket \<Rightarrow> WebSocket \<Rightarrow> bool" where
  "building w w' \<longleftrightarrow> ws_inv w' \<and> (wsState w' = wsState w \<or> wsState w' = WsClosed)"

lemma emplace_closed:
  assumes "ws_inv w" "wsState w = WsClosed"
  shows "building w (snd (emplaceTransport W k w))"
proof -
  let ?t = "mNextId w"
  let ?w = "emit [StartTransport k ?t] (set_slot k (Some ?t) (w\<lparr>mNextId := ?t + 1\<rparr>))"
  have "wsState ?w = WsClosed" using assms(2) by (cases k) (simp_all add: set_slot_def)
  then have "snd (emplaceTransport W k w) = emit [StopTransport k ?t] (set_slot k None ?w)"
    by (simp add: emplaceTransport_def Let_def remoteClose_closing)
  also have "\<dots> = emit [StartTransport k ?t, StopTransport k ?t] (set_slot k None (w\<lparr>mNextId := ?t + 1\<rparr>))"
    by (cases k) (simp_all add: set_slot_def)
  finally have e: "snd (emplaceTransport W k w) = emit [StartTransport k ?t, StopTransport k ?t] (set_slot k None (w\<lparr>mNextId := ?t + 1\<rparr>))" .
  have "ws_inv (set_slot k None (w\<lparr>mNextId := ?t + 1\<rparr>))" "wsState (set_slot k None (w\<lparr>mNextId := ?t + 1\<rparr>)) = wsState w"
    using assms by (cases k; simp add: set_slot_def ws_inv_def)+
  then show ?thesis unfolding e building_def by (simp add: ws_inv_emit)
qed

lemma emplace_running:
  assumes "ws_inv w" "wsState w \<noteq> WsClosed"
  shows "building w (snd (emplaceTransport W k w))"
proof -
  let ?t = "mNextId w"
  let ?w = "emit [StartTransport k ?t] (set_slot k (Some ?t) (w\<lparr>mNextId := ?t + 1\<rparr>))"
  have slot: "ws_inv (set_slot k t u)" "wsState (set_slot k t u) = wsState u" if "ws_inv u" "wsState u \<noteq> WsClosed \<or> t = None" for t u
    using that by (cases k; auto simp: set_slot_def ws_inv_def)+
  have w: "ws_inv ?w" "wsState ?w = wsState w"
    using slot [of "w\<lparr>mNextId := ?t + 1\<rparr>" "Some ?t"] assms by (simp_all add: ws_inv_emit)
  define v where "v = (if closed_meanwhile W k ?t then WebSocket_remoteClose ?w else ?w)"
  have v: "ws_inv v" "wsState v = wsState w \<or> wsState v = WsClosed"
    using w remoteClose_inv [OF w(1)] by (simp_all add: v_def)
  have stop: "building w (emit [StopTransport k ?t] (set_slot k None u))" if "ws_inv u" "wsState u = wsState w \<or> wsState u = WsClosed" for u
    using slot [of u None] that by (auto simp: building_def ws_inv_emit)
  have "snd (emplaceTransport W k w) = (if start_throws W k ?t then emit [StopTransport k ?t] (set_slot k None ?w)
      else if wsState v = WsClosed then emit [StopTransport k ?t] (set_slot k None v) else v)"
    by (simp add: emplaceTransport_def Let_def v_def)
  with stop w v show ?thesis by (auto simp: building_def)
qed

lemma emplace_inv: "ws_inv w \<Longrightarrow> building w (snd (emplaceTransport W k w))"
  using emplace_closed emplace_running by blast

lemma init_failed_inv: "ws_inv w \<Longrightarrow> building w (snd (init_failed name w))"
  using remoteClose_inv by (simp add: init_failed_def building_def)

lemma building_trans: "building a b \<Longrightarrow> building b c \<Longrightarrow> building a c"
  by (auto simp: building_def)

lemma init_guard_inv: "building w (snd r) \<Longrightarrow> building w (snd (init_guard name r))"
  using init_failed_inv [of "snd r" name] building_trans
  by (cases r) (auto simp: init_guard_def building_def split: sum.splits)

lemma init_inv:
  assumes "ws_inv w"
  shows "building w (snd (WebSocket_initProxyTransport W w))" "building w (snd (WebSocket_initTlsTransport W w))"
    "building w (snd (WebSocket_initWsTransport W w))"
proof -
  have self: "building w w" using assms by (simp add: building_def)
  show "building w (snd (WebSocket_initProxyTransport W w))"
    using self init_failed_inv [OF assms] init_guard_inv [OF emplace_inv [OF assms]]
    by (simp add: WebSocket_initProxyTransport_def)
  show "building w (snd (WebSocket_initTlsTransport W w))"
    using self init_failed_inv [OF assms] init_guard_inv [OF emplace_inv [OF assms]]
    by (simp add: WebSocket_initTlsTransport_def Let_def)
  define v where "v = (if mWsHandshake w = None then w\<lparr>mWsHandshake := Some WsHandshake_default\<rparr> else w)"
  have v: "ws_inv v" "wsState v = wsState w" using assms by (simp_all add: v_def)
  have vw: "building v u \<Longrightarrow> building w u" for u using v(2) by (simp add: building_def)
  have "snd (WebSocket_initWsTransport W w) \<in> {w, snd (init_failed ''WebSocket'' w), snd (init_failed ''WebSocket'' v),
      snd (init_guard ''WebSocket'' (emplaceTransport W WsKind v))}"
    by (simp add: WebSocket_initWsTransport_def Let_def v_def)
  then show "building w (snd (WebSocket_initWsTransport W w))"
    using self init_failed_inv [OF assms] vw [OF init_failed_inv [OF v(1)]] vw [OF init_guard_inv [OF emplace_inv [OF v(1)]]]
    by auto
qed

lemma setTcp_inv:
  assumes "ws_inv w"
  shows "building w (snd (WebSocket_setTcpTransport W w))"
proof -
  define v where "v = WebSocket_scheduleConnectionTimeout
      (if (case pingInterval (config w) of Some ms \<Rightarrow> ms | None \<Rightarrow> 10000) > 0
       then emit [SetReadTimeout (case pingInterval (config w) of Some ms \<Rightarrow> ms | None \<Rightarrow> 10000)] w else w)"
  have v: "ws_inv v" "wsState v = wsState w"
    using assms by (simp_all add: v_def WebSocket_scheduleConnectionTimeout_def Let_def ws_inv_emit)
  have "building v (snd (init_guard ''TCP'' (emplaceTransport W TcpKind v)))"
    by (rule init_guard_inv [OF emplace_inv [OF v(1)]])
  then have "building w (snd (init_guard ''TCP'' (emplaceTransport W TcpKind v)))"
    using v(2) by (simp add: building_def)
  moreover have "snd (WebSocket_setTcpTransport W w) \<in> {snd (init_failed ''TCP'' w), snd (init_guard ''TCP'' (emplaceTransport W TcpKind v))}"
    by (simp add: WebSocket_setTcpTransport_def Let_def v_def)
  ultimately show ?thesis using init_failed_inv [OF assms] by auto
qed

lemma error_inv: "ws_inv w \<Longrightarrow> ws_inv (Channel_triggerError e w)"
  using ws_inv_cong [OF trigger_more(4)] by blast

lemma handlers_inv:
  assumes "ws_inv w"
  shows "ws_inv (WebSocket_onTcpState W s w)" "ws_inv (WebSocket_onProxyState W s w)" "ws_inv (WebSocket_onTlsState W s w)"
    "ws_inv (WebSocket_connectionTimeout w)"
  using assms init_inv [OF assms, of W] remoteClose_inv(1) [OF assms] remoteClose_inv(1) [OF error_inv [OF assms]]
  by (cases s; simp add: WebSocket_onTcpState_def WebSocket_onProxyState_def WebSocket_onTlsState_def
      WebSocket_connectionTimeout_def building_def)+

lemma onWsState_inv:
  assumes "ws_inv w"
  shows "ws_inv (WebSocket_onWsState s w)"
proof -
  have "ws_inv (Channel_triggerOpen (emit [Opened] (w\<lparr>wsState := WsOpen\<rparr>)))" if "wsState w = WsConnecting"
    using assms that unfolding ws_inv_cong [OF trigger_more(2)] by (auto simp: ws_inv_def life_append)
  then show ?thesis
    using assms remoteClose_inv(1) [OF assms] remoteClose_inv(1) [OF error_inv [OF assms]]
    by (cases s) (simp_all add: WebSocket_onWsState_def WebSocket_changeState_def)
qed

lemma incoming_inv: "ws_inv w \<Longrightarrow> WebSocket_incoming m w = Some w' \<Longrightarrow> ws_inv w'"
  using remoteClose_inv(1) ws_inv_cong [OF trigger_more(5)]
  by (auto simp: WebSocket_incoming_def split: option.splits if_splits)

lemma dial_inv:
  assumes "ws_inv w" "wsState w = WsClosed"
  shows "ws_inv (snd (WebSocket_dial W a b w))"
proof -
  have "life Idle (effects w) = Some Idle" using assms by (auto simp: ws_inv_def)
  then have "ws_inv (w\<lparr>wsState := WsConnecting, effects := effects w @ [Opening, CreateTcp x y]\<rparr>)" for x y
    using assms by (simp add: ws_inv_def life_append)
  from setTcp_inv [OF this] show ?thesis
    by (simp add: WebSocket_dial_def WebSocket_changeState_def Let_def building_def split: option.split)
qed

lemma open_inv:
  assumes "ws_inv w"
  shows "ws_inv (snd (WebSocket_open W url w))"
proof (cases "wsState w = WsClosed \<and> parse_url url \<noteq> None")
  case True
  then obtain m where m: "wsState w = WsClosed" "parse_url url = Some m" by auto
  have fin: "ws_inv (snd (case r of Inl e \<Rightarrow> (Inl e, u) | Inr h \<Rightarrow> WebSocket_dial W a b (u\<lparr>mWsHandshake := Some h\<rparr>)))"
    if "ws_inv u" "wsState u = WsClosed" for r a b u
    using that by (cases r) (simp_all add: dial_inv)
  define ok where "ok \<longleftrightarrow> (if url_scheme m = [] then ''ws'' else url_scheme m) \<in> {''ws'', ''wss''}"
  show ?thesis
  proof (cases ok)
    case True
    then have "\<not> ((if url_scheme m = [] then ''ws'' else url_scheme m) \<noteq> ''ws'' \<and> (if url_scheme m = [] then ''ws'' else url_scheme m) \<noteq> ''wss'')"
      by (auto simp: ok_def)
    with m show ?thesis
      unfolding WebSocket_open_def Let_def by (simp only: option.case simp_thms if_False not_True_eq_False)
        (rule fin, simp_all add: assms)
  next
    case False
    then show ?thesis using assms m by (simp add: WebSocket_open_def ok_def Let_def)
  qed
qed (use assms in \<open>auto simp: WebSocket_open_def\<close>)

lemma new_inv: "WebSocket_new c cert load = Inr w \<Longrightarrow> ws_inv w"
  by (auto simp: WebSocket_new_def Let_def ws_inv_def Channel.defs WebSocket.defs split: if_splits sum.splits)

text \<open>
  The steps of a WebSocket: the calls of the application, the events of the transports in use, and
  the timeout. The calls that only concern the channel (setting callbacks, receiving, peeking, the
  buffered amount) change nothing but the channel part of the object.
\<close>

inductive api_step :: "ws_world \<Rightarrow> WebSocket \<Rightarrow> WebSocket \<Rightarrow> bool" for W where
  "open": "api_step W w (snd (WebSocket_open W url w))"
| close: "api_step W w (WebSocket_close w)"
| forceClose: "api_step W w (WebSocket_remoteClose w)"
| tcp: "mTcpTransport w = Some t \<Longrightarrow> api_step W w (WebSocket_onTcpState W s w)"
| proxy: "mProxyTransport w = Some t \<Longrightarrow> api_step W w (WebSocket_onProxyState W s w)"
| tls: "mTlsTransport w = Some t \<Longrightarrow> api_step W w (WebSocket_onTlsState W s w)"
| ws: "mWsTransport w = Some t \<Longrightarrow> api_step W w (WebSocket_onWsState s w)"
| incoming: "WebSocket_incoming m w = Some w' \<Longrightarrow> api_step W w w'"
| timeout: "api_step W w (WebSocket_connectionTimeout w)"
| channel: "Channel.more w' = Channel.more w \<Longrightarrow> api_step W w w'"

lemma api_step_inv: "api_step W w w' \<Longrightarrow> ws_inv w \<Longrightarrow> ws_inv w'"
proof (induction rule: api_step.induct)
  case (channel w' w)
  then show ?case using ws_inv_cong by blast
qed (simp_all add: open_inv close_inv remoteClose_inv handlers_inv onWsState_inv incoming_inv)

lemma api_steps_inv: "(api_step W)\<^sup>*\<^sup>* w w' \<Longrightarrow> ws_inv w \<Longrightarrow> ws_inv w'"
  by (induction rule: rtranclp_induct) (auto intro: api_step_inv)

text \<open>The channel operations are steps of the last kind.\<close>

lemma channel_steps:
  "api_step W w (snd (WebSocket_receive w))" "api_step W w (snd (WebSocket_peek w))"
  "api_step W w (Channel_onOpen f w)" "api_step W w (Channel_onClosed f w)" "api_step W w (Channel_onError e w)"
  "api_step W w (Channel_onMessage f w)" "api_step W w (Channel_onAvailable f w)"
  "api_step W w (Channel_onBufferedAmountLow f w)" "api_step W w (Channel_setBufferedAmountLowThreshold n w)"
  "api_step W w (Channel_triggerBufferedAmount n w)" "api_step W w (Channel_resetCallbacks w)"
  by (rule api_step.channel, simp add: WebSocket_receive_def Channel_receive_def WebSocket_peek_def Channel_onOpen_def
      Channel_onClosed_def Channel_onError_def Channel_onMessage_def Channel_onAvailable_def Channel_onBufferedAmountLow_def
      Channel_setBufferedAmountLowThreshold_def Channel_resetCallbacks_def Let_def split: prod.splits option.splits)+

section \<open>Receiving\<close>

text \<open>Messages are received in the order they came in.\<close>

fun receive_all :: "nat \<Rightarrow> WebSocket \<Rightarrow> message_variant option list \<times> WebSocket" where
  "receive_all 0 w = ([], w)"
| "receive_all (Suc n) w =
     (let (v, w) = WebSocket_receive w; (vs, w) = receive_all n w in (v # vs, w))"

lemma receive_all_queue:
  "n \<le> length (mQueue (mRecvQueue w)) \<Longrightarrow> fst (receive_all n w) = map (Some \<circ> to_variant) (take n (mQueue (mRecvQueue w)))"
proof (induction n arbitrary: w)
  case (Suc n)
  then obtain m ms where q: "mQueue (mRecvQueue w) = m # ms" by (cases "mQueue (mRecvQueue w)") auto
  let ?w = "w\<lparr>mRecvQueue := snd (Queue_pop (mRecvQueue w))\<rparr>"
  have r: "WebSocket_receive w = (Some (to_variant m), ?w)" and q': "mQueue (mRecvQueue ?w) = ms"
    using q by (simp_all add: WebSocket_receive_def Channel_receive_def Queue_pop_def to_variant_move_value)
  from Suc.IH [of ?w] Suc.prems q q' show ?case
    by (cases "receive_all n ?w") (simp add: r)
qed simp

text \<open>
  What \<open>incoming\<close> does with a message for the application: without a message callback, or before the
  opening has been reported, it stays in the queue; otherwise the callback gets everything queued.
\<close>

lemma triggerAvailable_flush:
  "\<exists>av c. Channel_triggerAvailable n ch = Channel_flushPendingMessages (ch\<lparr>availableCallback := c, calls := calls ch @ av\<rparr>)
     \<and> (av = [] \<or> (\<exists>g. av = [CallAvailable g]))"
proof (cases "n = 1")
  case True
  obtain made c where s: "stored_call () (availableCallback ch) = (made, c)" by fastforce
  show ?thesis
    by (rule exI [of _ "case made of None \<Rightarrow> [] | Some (f, _) \<Rightarrow> [CallAvailable f]"], rule exI [of _ c])
      (use True s in \<open>auto simp: Channel_triggerAvailable_def log_call_def split: option.splits\<close>)
next
  case False
  show ?thesis
    by (rule exI [of _ "[]"], rule exI [of _ "availableCallback ch"]) (use False in \<open>simp add: Channel_triggerAvailable_def\<close>)
qed

definition deliverable :: "Message \<Rightarrow> bool" where
  "deliverable m \<longleftrightarrow> type m = String \<or> type m = Binary"

lemma incoming_pushed:
  assumes "WebSocket_incoming (Some m) w = Some w'" "deliverable m" "\<not> mStopping (mRecvQueue w)"
  obtains q av c where "mQueue q = mQueue (mRecvQueue w) @ [m]" "\<not> mStopping q"
    "w' = Channel_flushPendingMessages (w\<lparr>mRecvQueue := q, availableCallback := c, calls := calls w @ av\<rparr>)"
    "av = [] \<or> (\<exists>g. av = [CallAvailable g])"
proof -
  from assms obtain q where q: "Queue_push (mRecvQueue w) m = Some q"
    "w' = Channel_triggerAvailable (Queue_size q) (w\<lparr>mRecvQueue := q\<rparr>)"
    by (auto simp: WebSocket_incoming_def deliverable_def split: option.splits if_splits)
  from triggerAvailable_flush [of "Queue_size q" "w\<lparr>mRecvQueue := q\<rparr>"] obtain av c where
    "w' = Channel_flushPendingMessages (w\<lparr>mRecvQueue := q, availableCallback := c, calls := calls w @ av\<rparr>)"
    "av = [] \<or> (\<exists>g. av = [CallAvailable g])" using q(2) by auto
  with wsc_queue.push_contents [OF assms(3) q(1)] wsc_queue.push_accepting [OF assms(3) q(1)] that show thesis by blast
qed

lemma incoming_queued:
  assumes "WebSocket_incoming (Some m) w = Some w'" "deliverable m" "\<not> mStopping (mRecvQueue w)"
    and "messageCallback w = None \<or> \<not> mOpenTriggered w"
  shows "mQueue (mRecvQueue w') = mQueue (mRecvQueue w) @ [m] \<and> \<not> mStopping (mRecvQueue w')
    \<and> (messageCallback w' = None \<or> \<not> mOpenTriggered w')"
proof -
  obtain q av c where q: "mQueue q = mQueue (mRecvQueue w) @ [m]" "\<not> mStopping q"
    "w' = Channel_flushPendingMessages (w\<lparr>mRecvQueue := q, availableCallback := c, calls := calls w @ av\<rparr>)"
    using incoming_pushed [OF assms(1-3)] by metis
  from assms(4) have "w' = w\<lparr>mRecvQueue := q, availableCallback := c, calls := calls w @ av\<rparr>"
    unfolding q(3) by (auto simp: Channel_flushPendingMessages_def Channel_flush_loop.simps)
  with q(1,2) assms(4) show ?thesis by simp
qed

lemma incoming_called:
  assumes "WebSocket_incoming (Some m) w = Some w'" "deliverable m" "\<not> mStopping (mRecvQueue w)"
    and "messageCallback w = Some f" "mOpenTriggered w"
  shows "\<exists>av. calls w' = calls w @ av @ map (\<lambda>m. CallMessage f (to_variant m)) (mQueue (mRecvQueue w) @ [m])
      \<and> (av = [] \<or> (\<exists>g. av = [CallAvailable g]))" "mQueue (mRecvQueue w') = []"
proof -
  obtain q av c where q: "mQueue q = mQueue (mRecvQueue w) @ [m]"
    "w' = Channel_flushPendingMessages (w\<lparr>mRecvQueue := q, availableCallback := c, calls := calls w @ av\<rparr>)"
    "av = [] \<or> (\<exists>g. av = [CallAvailable g])"
    using incoming_pushed [OF assms(1-3)] by metis
  let ?ch = "w\<lparr>mRecvQueue := q, availableCallback := c, calls := calls w @ av\<rparr>"
  from flush_open [of ?ch f] q assms(4,5) show "\<exists>av. calls w' = calls w @ av @ map (\<lambda>m. CallMessage f (to_variant m)) (mQueue (mRecvQueue w) @ [m])
      \<and> (av = [] \<or> (\<exists>g. av = [CallAvailable g]))" "mQueue (mRecvQueue w') = []"
    by auto
qed

fun incoming_all :: "Message list \<Rightarrow> WebSocket \<Rightarrow> WebSocket option" where
  "incoming_all [] w = Some w"
| "incoming_all (m # ms) w = Option.bind (WebSocket_incoming (Some m) w) (incoming_all ms)"

lemma incoming_all_queued:
  "incoming_all ms w = Some w' \<Longrightarrow> list_all deliverable ms \<Longrightarrow> \<not> mStopping (mRecvQueue w) \<Longrightarrow>
   messageCallback w = None \<or> \<not> mOpenTriggered w \<Longrightarrow> mQueue (mRecvQueue w') = mQueue (mRecvQueue w) @ ms"
proof (induction ms arbitrary: w)
  case (Cons m ms)
  then obtain v where v: "WebSocket_incoming (Some m) w = Some v" "incoming_all ms v = Some w'"
    by (auto simp: bind_eq_Some_conv)
  from incoming_queued [OF v(1) _ Cons.prems(3,4)] Cons.prems(2) Cons.IH [OF v(2)] show ?case by simp
qed simp

text \<open>While the queue has room, nothing blocks.\<close>

lemma flush_idle: "messageCallback ch = None \<or> \<not> mOpenTriggered ch \<Longrightarrow> Channel_flushPendingMessages ch = ch"
  by (auto simp: Channel_flushPendingMessages_def Channel_flush_loop.simps)

lemma incoming_room:
  assumes "deliverable m" "\<not> mStopping (mRecvQueue w)" "messageCallback w = None \<or> \<not> mOpenTriggered w"
    and "length (mQueue (mRecvQueue w)) < mLimit (mRecvQueue w)"
  shows "\<exists>w'. WebSocket_incoming (Some m) w = Some w' \<and> mLimit (mRecvQueue w') = mLimit (mRecvQueue w)"
proof -
  obtain q where q: "Queue_push (mRecvQueue w) m = Some q" "mLimit q = mLimit (mRecvQueue w)"
    using assms(2,4) by (auto simp: Queue_push_def Queue_full_def)
  from triggerAvailable_flush [of "Queue_size q" "w\<lparr>mRecvQueue := q\<rparr>"] obtain av c where
    "Channel_triggerAvailable (Queue_size q) (w\<lparr>mRecvQueue := q\<rparr>) =
       Channel_flushPendingMessages (w\<lparr>mRecvQueue := q, availableCallback := c, calls := calls w @ av\<rparr>)" by auto
  then show ?thesis
    using assms(1,3) q flush_idle [of "w\<lparr>mRecvQueue := q, availableCallback := c, calls := calls w @ av\<rparr>"]
    by (auto simp: WebSocket_incoming_def deliverable_def)
qed

lemma incoming_all_room:
  "list_all deliverable ms \<Longrightarrow> \<not> mStopping (mRecvQueue w) \<Longrightarrow> messageCallback w = None \<or> \<not> mOpenTriggered w \<Longrightarrow>
   length (mQueue (mRecvQueue w)) + length ms \<le> mLimit (mRecvQueue w) \<Longrightarrow> \<exists>w'. incoming_all ms w = Some w'"
proof (induction ms arbitrary: w)
  case (Cons m ms)
  then have m: "deliverable m" "length (mQueue (mRecvQueue w)) < mLimit (mRecvQueue w)" by simp_all
  from incoming_room [OF m(1) Cons.prems(2,3) m(2)] obtain v where
    v: "WebSocket_incoming (Some m) w = Some v" "mLimit (mRecvQueue v) = mLimit (mRecvQueue w)" by blast
  from incoming_queued [OF v(1) m(1) Cons.prems(2,3)] Cons.IH [of v] Cons.prems(1,4) v show ?case by simp
qed simp

text \<open>
  Peeking returns the message at the front, but leaves an empty message in its place if it is
  binary: the next receive returns no bytes.
\<close>

lemma peek_receive:
  assumes "mQueue (mRecvQueue w) = m # ms"
  shows "fst (WebSocket_peek w) = Some (to_variant m)"
    "fst (WebSocket_receive (snd (WebSocket_peek w))) =
       Some (if type m = String then to_variant m else VBinary [])"
    "WebSocket_availableAmount (snd (WebSocket_peek w)) = WebSocket_availableAmount w"
  using assms
  by (simp_all add: WebSocket_peek_def WebSocket_receive_def Channel_receive_def Queue_peek_def Queue_pop_def
      to_variant_move_def to_variant_def WebSocket_availableAmount_def Queue_amount_def split: Type.splits)

section \<open>Reopening through a proxy\<close>

definition keeps_proxy :: "WebSocket \<Rightarrow> WebSocket \<Rightarrow> bool" where
  "keeps_proxy w w' \<longleftrightarrow> mProxyTransport w' = mProxyTransport w \<and> config w' = config w"

lemma closeTransports_proxy: "keeps_proxy w (WebSocket_closeTransports w)"
  by (simp add: keeps_proxy_def WebSocket_closeTransports_def WebSocket_changeState_def Let_def)

lemma remoteClose_proxy: "keeps_proxy w (WebSocket_remoteClose w)"
proof -
  have c: "keeps_proxy w (WebSocket_close w)" for w
    using closeTransports_proxy [of "w\<lparr>wsState := WsClosing\<rparr>"]
    by (auto simp: WebSocket_close.simps WebSocket_changeState_def remoteClose_closing keeps_proxy_def Let_def
        split: option.splits)
  show ?thesis using c [of w] closeTransports_proxy [of "WebSocket_close w"]
    by (auto simp: WebSocket_remoteClose.simps [of w] Let_def keeps_proxy_def)
qed

lemma emplace_tcp_proxy: "keeps_proxy w (snd (emplaceTransport W TcpKind w))"
  using remoteClose_proxy
  by (simp add: emplaceTransport_def Let_def set_slot_def keeps_proxy_def)

lemma setTcp_proxy: "keeps_proxy w (snd (WebSocket_setTcpTransport W w))"
proof -
  define v where "v = WebSocket_scheduleConnectionTimeout
      (if (case pingInterval (config w) of Some ms \<Rightarrow> ms | None \<Rightarrow> 10000) > 0
       then emit [SetReadTimeout (case pingInterval (config w) of Some ms \<Rightarrow> ms | None \<Rightarrow> 10000)] w else w)"
  have v: "keeps_proxy w v" by (simp add: v_def WebSocket_scheduleConnectionTimeout_def Let_def keeps_proxy_def)
  obtain r u where e: "emplaceTransport W TcpKind v = (r, u)" by fastforce
  have u: "keeps_proxy w u" using emplace_tcp_proxy [of v W] e v by (simp add: keeps_proxy_def)
  have "keeps_proxy w (snd (init_guard ''TCP'' (r, u)))"
    using u remoteClose_proxy [of u] by (simp add: init_guard_def init_failed_def keeps_proxy_def split: sum.splits)
  moreover have "snd (WebSocket_setTcpTransport W w) \<in> {snd (init_failed ''TCP'' w), snd (init_guard ''TCP'' (r, u))}"
    using e by (simp add: WebSocket_setTcpTransport_def Let_def v_def)
  ultimately show ?thesis using remoteClose_proxy [of w] by (auto simp: init_failed_def)
qed

lemma dial_proxy: "keeps_proxy w (snd (WebSocket_dial W a b w))"
  using setTcp_proxy
  by (simp add: WebSocket_dial_def WebSocket_changeState_def Let_def keeps_proxy_def split: option.splits)

text \<open>
  The slot of the proxy transport is not emptied on closing. When a WebSocket that has used a proxy
  is opened again, the connected TCP transport finds the old proxy transport there and starts
  nothing: the object is unchanged, and no layer above TCP is ever built.
\<close>

lemma reopen_with_proxy:
  assumes "proxyServer (config w) \<noteq> None" "mProxyTransport w = Some p" "keeps_proxy w w'"
  shows "WebSocket_onTcpState W Connected w' = w'"
  using assms by (simp add: WebSocket_onTcpState_def WebSocket_initProxyTransport_def keeps_proxy_def)

end
