(* ===== verification/Wsc_App.thy ===== *)
theory Wsc_App
  imports Wsc_Session Wsc_WebSocket
begin

text \<open>
  A WebSocket object together with the WebSocket transport in its slot: the sequences of callbacks a transport
  makes, what the object does on each, and the two as one system, in which a call of the application may reach
  the transport and an event of the transport comes back to the object.
\<close>

section \<open>The callbacks of a transport\<close>

text \<open>
  The order in which a started transport calls its owner: it reports to be connected at most once, and only while
  connecting; messages come only after that, and the end of the messages only after the report of the end. The
  function follows a sequence of events from one state of the transport to the last one reported.
\<close>

fun follows :: "State \<Rightarrow> event list \<Rightarrow> State option" where
  "follows s [] = Some s"
| "follows s (StateCallback s' # es) =
     (if s' \<in> {Disconnected, Failed} \<and> s' \<noteq> s \<or> s' = Connected \<and> s = Connecting then follows s' es else None)"
| "follows s (RecvCallback (Some m) # es) = (if s \<in> {Connected, Disconnected} then follows s es else None)"
| "follows s (RecvCallback None # es) = (if s = Disconnected then follows s es else None)"
| "follows s (Scheduled n # es) = follows s es"

lemma follows_append: "follows s (a @ b) = Option.bind (follows s a) (\<lambda>s. follows s b)"
  by (induction s a rule: follows.induct) auto

definition new_events :: "('l, 'm) Transport_scheme \<Rightarrow> ('l, 'm) Transport_scheme \<Rightarrow> event list" where
  "new_events t u = drop (length (trace t)) (trace u)"

definition reports :: "('l, 'm) Transport_scheme \<Rightarrow> ('l, 'm) Transport_scheme \<Rightarrow> bool" where
  "reports t u \<longleftrightarrow> mStateChangeCallback u = mStateChangeCallback t \<and>
     (mStateChangeCallback t \<longrightarrow> trace u = trace t @ new_events t u \<and> follows (mState t) (new_events t u) = Some (mState u))"

named_theorems reports_intros

lemma reports_refl [reports_intros]: "reports t t"
  by (simp add: reports_def new_events_def)

lemma reports_same: "mStateChangeCallback u = mStateChangeCallback t \<Longrightarrow> mState u = mState t \<Longrightarrow> trace u = trace t \<Longrightarrow> reports t u"
  by (simp add: reports_def new_events_def)

lemma reports_trans:
  assumes "reports t u" "reports u v"
  shows "reports t v"
proof (cases "mStateChangeCallback t")
  case True
  then have u: "trace u = trace t @ new_events t u" "follows (mState t) (new_events t u) = Some (mState u)"
    and v: "trace v = trace u @ new_events u v" "follows (mState u) (new_events u v) = Some (mState v)"
    and c: "mStateChangeCallback v" using assms by (simp_all add: reports_def)
  from u(1) v(1) have e: "new_events t v = new_events t u @ new_events u v"
    by (metis append.assoc append_eq_conv_conj new_events_def)
  from True c u v show ?thesis unfolding reports_def e by (simp add: follows_append)
qed (use assms in \<open>simp add: reports_def\<close>)

lemma reports_changeState:
  "s \<in> {Disconnected, Failed} \<or> s = Connected \<and> mState t = Connecting \<Longrightarrow> reports t (Transport_changeState s t)"
  by (auto simp: reports_def new_events_def Transport_changeState_def)

lemma reports_recv:
  "mState t \<in> {Connected, Disconnected} \<Longrightarrow> m = None \<longrightarrow> mState t = Disconnected \<Longrightarrow> reports t (Transport_recv m t)"
  by (cases m) (auto simp: reports_def new_events_def)

lemma reports_schedule: "reports t (schedule_in n t)"
  by (simp add: reports_def new_events_def)

lemma reports_outgoing: "Transport_outgoing ops m t = (r, u) \<Longrightarrow> reports t u"
  by (rule reports_same) (simp_all add: Transport_outgoing_simps)

lemma reports_update:
  fixes t u :: "'l WsTransport"
  assumes "reports t u"
  shows "reports t (u\<lparr>mBuffer := b\<rparr>)" "reports t (u\<lparr>mPartial := b\<rparr>)" "reports t (u\<lparr>mIgnoreLength := n\<rparr>)"
    "reports t (u\<lparr>mHandshake := h\<rparr>)" "reports t (u\<lparr>mPartialOpcode := c\<rparr>)" "reports t (u\<lparr>mOutstandingPings := k\<rparr>)"
    "reports t (u\<lparr>mCloseSent := d\<rparr>)" "reports t (u\<lparr>mDraws := n\<rparr>)"
  using assms by (simp_all add: reports_def new_events_def)

lemma reports_sendFrame:
  "WsTransport_sendFrame E f t = (r, p, u) \<Longrightarrow> reports t u \<and> mState u = mState t"
  using WsTransport_sendFrame_frame(1) [of E f t r p u] by (auto intro: reports_same)

lemma reports_close:
  fixes t :: "'l WsTransport"
  shows "reports t (WsTransport_close E t) \<and> (mState (WsTransport_close E t) = mState t \<or> mState (WsTransport_close E t) = Disconnected)"
proof -
  let ?t = "t\<lparr>mCloseSent := True\<rparr>"
  obtain r p u where s: "WsTransport_sendFrame E (mk_frame CLOSE [] (mIsClient t)) ?t = (r, p, u)"
    by (metis prod_cases3)
  from reports_sendFrame [OF s] have u: "reports t u" "mState u = mState t"
    using reports_trans [OF reports_update(7) [OF reports_refl]] by auto
  have "reports u (Transport_changeState Disconnected u)" "reports u (schedule_in 10 u)"
    by (simp_all add: reports_changeState reports_schedule)
  with u reports_trans have v: "reports t (Transport_changeState Disconnected u)" "reports t (schedule_in 10 u)" by blast+
  have "WsTransport_close E t = (if mState t \<noteq> Connected \<or> mCloseSent t then t
      else case r of Inl e \<Rightarrow> Transport_changeState Disconnected u | Inr b \<Rightarrow> schedule_in 10 u)"
    using s by (simp add: WsTransport_close_def split: sum.split)
  then show ?thesis using u v reports_refl [of t] by (auto split: sum.splits)
qed

text \<open>A frame is handled while connected, or after a CLOSE frame in the same chunk.\<close>

abbreviation is_up :: "('l, 'm) Transport_scheme \<Rightarrow> bool" where
  "is_up t \<equiv> mState t \<in> {Connected, Disconnected}"

lemma reports_recv_some: "is_up t \<Longrightarrow> reports t (Transport_recv (Some m) t)"
  by (rule reports_recv) auto

lemma reports_recvFrame:
  assumes "is_up t"
  shows "reports t (snd (WsTransport_recvFrame E f t)) \<and> is_up (snd (WsTransport_recvFrame E f t))"
proof -
  let ?p = "take (frame_length f) (drop (payload f) (mBuffer t))"
  have recv: "reports t (Transport_recv (Some m) u) \<and> is_up (Transport_recv (Some m) u)" if "reports t u" "is_up u" for m u
    using that reports_trans [OF that(1) reports_recv_some [OF that(2)]] by simp
  have cls: "reports t (WsTransport_close E t)" "is_up (WsTransport_close E t)" using reports_close [of t E] assms by auto
  have dis: "reports t (Transport_changeState Disconnected (WsTransport_close E t))"
    by (rule reports_trans [OF cls(1)], rule reports_changeState) simp
  obtain r p' u where s: "WsTransport_sendFrame E (mk_frame PONG ?p (mIsClient t)) t = (r, p', u)" by (metis prod_cases3)
  note pong = reports_sendFrame [OF s]
  note rt = reports_refl [of t]
  show ?thesis
  proof (cases "opcode f = PING")
    case True
    then show ?thesis using s pong assms by (simp add: WsTransport_recvFrame_def reports_update)
  next
    case ping: False
    show ?thesis
    proof (cases "opcode f = TEXT_FRAME \<or> opcode f = BINARY_FRAME")
      case True
      define v where "v = (if mPartial t \<noteq> [] then
          (Transport_recv (Some (make_message (mPartial t) (frame_type (mPartialOpcode t)))) t)\<lparr>mPartial := []\<rparr> else t)
          \<lparr>mPartialOpcode := opcode f\<rparr>"
      have v: "reports t v \<and> is_up v" unfolding v_def using recv [OF rt assms] assms rt
        by (cases "mPartial t = []") (simp_all add: reports_update del: make_message_simps)
      define k where "k = (if frame_length f > mMaxMessageSize t then mMaxMessageSize t else frame_length f)"
      have "snd (WsTransport_recvFrame E f t) = (if fin f
          then Transport_recv (Some (make_message (take k ?p) (frame_type (opcode f)))) v else v\<lparr>mPartial := mPartial v @ take k ?p\<rparr>)"
        using True unfolding WsTransport_recvFrame_def v_def k_def Let_def by (simp del: make_message_simps)
      with v recv [of v] show ?thesis by (simp add: reports_update)
    next
      case False
      define v where "v = (if length (mPartial t @ ?p) > mMaxMessageSize t
          then t\<lparr>mPartial := take (mMaxMessageSize t) (mPartial t @ ?p)\<rparr> else t\<lparr>mPartial := mPartial t @ ?p\<rparr>)"
      have v: "reports t v \<and> is_up v" using assms rt by (simp add: v_def reports_update)
      show ?thesis
      proof (cases "opcode f = CONTINUATION")
        case True
        then have "snd (WsTransport_recvFrame E f t) = (if fin f then
            (Transport_recv (Some (make_message (mPartial v) (frame_type (mPartialOpcode v)))) v)\<lparr>mPartial := []\<rparr> else v)"
          unfolding WsTransport_recvFrame_def Let_def by (simp add: v_def del: make_message_simps)
        with v recv [of v] show ?thesis by (simp add: reports_update)
      next
        case cont: False
        then have "snd (WsTransport_recvFrame E f t) = (if opcode f = PONG then t\<lparr>mOutstandingPings := 0\<rparr>
            else if opcode f = CLOSE then Transport_changeState Disconnected (WsTransport_close E t) else WsTransport_close E t)"
          using False ping by (simp add: WsTransport_recvFrame_def)
        with cls dis rt assms show ?thesis by (simp add: reports_update)
      qed
    qed
  qed
qed


lemma reports_frames: "is_up t \<Longrightarrow> reports t (snd (WsTransport_frames E t))"
proof (induction E t rule: WsTransport_frames.induct)
  case (1 E t)
  show ?case
  proof (cases "parseFrame (mMaxMessageSize t) (mBuffer t)")
    case None
    then show ?thesis by (subst WsTransport_frames.simps) (simp add: reports_refl)
  next
    case (Some q)
    obtain len fr buf where q: "q = (len, fr, buf)" by (metis prod_cases3)
    obtain r u where h: "WsTransport_recvFrame E fr (t\<lparr>mBuffer := buf\<rparr>) = (r, u)" by fastforce
    have b: "reports t (t\<lparr>mBuffer := buf\<rparr>)" by (simp add: reports_update reports_refl)
    from reports_recvFrame [of "t\<lparr>mBuffer := buf\<rparr>" E fr] h 1(2) have u: "reports t u" "is_up u"
      using reports_trans [OF b] by auto
    show ?thesis
    proof (cases "len = 0 \<or> isl r \<or> len > length (mBuffer u)")
      case True
      with Some q h u b show ?thesis
        by (subst WsTransport_frames.simps) (auto simp: Let_def reports_update split: sum.splits)
    next
      case False
      then obtain x where r: "r = Inr x" by (cases r) auto
      let ?v = "u\<lparr>mBuffer := drop len (mBuffer u)\<rparr>"
      have "WsTransport_frames E t = WsTransport_frames E ?v"
        using Some q h r False by (subst WsTransport_frames.simps) (simp add: Let_def)
      moreover have "reports ?v (snd (WsTransport_frames E ?v))"
        using "1.IH" [OF Some [unfolded q] refl refl refl _ h [symmetric], of x] r False u by simp
      ultimately show ?thesis using reports_trans [OF reports_update(1) [OF u(1)]] by simp
    qed
  qed
qed

lemma reports_handshake:
  "reports t (snd (WsTransport_handshake E t))
   \<and> (mState t = Connected \<longrightarrow> mState (snd (WsTransport_handshake E t)) = Connected)
   \<and> (mState t = Connecting \<longrightarrow> mState (snd (WsTransport_handshake E t)) \<in> {Connecting, Connected})"
proof (cases "mState t = Connecting")
  case False
  then show ?thesis by (simp add: WsTransport_handshake_def reports_refl)
next
  case True
  have c: "reports t (Transport_changeState Connected t)" using True by (simp add: reports_changeState)
  show ?thesis
  proof (cases "mIsClient t")
    case True
    then show ?thesis using c \<open>mState t = Connecting\<close>
      by (auto simp: WsTransport_handshake_def reports_update reports_refl split: sum.splits)
  next
    case False
    obtain r h where p: "parseHttpRequest (string_of_bytes (mBuffer t)) (mHandshake t) = (r, h)" by fastforce
    let ?t = "t\<lparr>mHandshake := h\<rparr>"
    have t: "reports t ?t" "mState ?t = Connecting" using \<open>mState t = Connecting\<close> by (simp_all add: reports_update reports_refl)
    obtain q u where o: "WsTransport_sendHttpResponse E ?t = (q, u)" by fastforce
    then obtain m where o': "Transport_outgoing (env_ops E) m ?t = (q, u)" by (auto simp: WsTransport_sendHttpResponse_def Let_def)
    from reports_outgoing [OF o'] Transport_outgoing_simps(3) [OF o'] t(2) have u: "reports ?t u" "mState u = Connecting" by simp_all
    have c: "reports t (Transport_changeState Connected u)"
      using reports_trans [OF t(1) reports_trans [OF u(1) reports_changeState]] u(2) by simp
    show ?thesis using False \<open>mState t = Connecting\<close> p o t u c reports_trans [OF t(1) u(1)]
      by (auto simp: WsTransport_handshake_def Let_def reports_update split: sum.splits)
  qed
qed

lemma reports_addPing: "reports t (WsTransport_addOutstandingPing t)"
proof -
  have "reports t (t\<lparr>mOutstandingPings := n\<rparr>)" for n by (simp add: reports_update reports_refl)
  from reports_trans [OF this reports_changeState] this show ?thesis
    by (simp add: WsTransport_addOutstandingPing_def Let_def)
qed

lemma reports_stream: "reports t (snd (WsTransport_stream E pinging t))"
proof (cases "mState t \<noteq> Connected")
  case True
  then show ?thesis by (simp add: WsTransport_stream_def reports_refl)
next
  case False
  show ?thesis
  proof (cases pinging)
    case True
    obtain r p u where s: "WsTransport_sendFrame E (mk_frame PING [0, 0, 0, 0] (mIsClient t)) t = (r, p, u)" by (metis prod_cases3)
    with False True reports_sendFrame [OF s] reports_trans [OF _ reports_addPing [of u]] show ?thesis
      by (cases r) (auto simp: WsTransport_stream_def)
  next
    case nonempty: False
    define u where "u = (if mIgnoreLength t > 0 then (let len = min (mIgnoreLength t) (length (mBuffer t))
        in t\<lparr>mBuffer := drop len (mBuffer t), mIgnoreLength := mIgnoreLength t - len\<rparr>) else t)"
    have u: "reports t u" "is_up u" using False by (simp_all add: u_def Let_def reports_update reports_refl)
    from reports_trans [OF u(1) reports_frames [OF u(2)]] u(1) False nonempty show ?thesis
      by (simp add: WsTransport_stream_def u_def [symmetric])
  qed
qed

lemma reports_end: "reports t (WsTransport_incoming_end t)"
  using reports_trans [OF reports_changeState reports_recv, of Disconnected t None]
  by (simp add: WsTransport_incoming_end_def reports_changeState)

lemma reports_incoming: "reports t (WsTransport_incoming E m t)"
proof (cases "(mState t \<noteq> Connecting \<and> mState t \<noteq> Connected) \<or> m = None")
  case True
  then show ?thesis using reports_refl reports_end by (auto simp: WsTransport_incoming_def)
next
  case False
  then obtain msg where m: "m = Some msg" "mState t = Connecting \<or> mState t = Connected" by auto
  let ?t = "t\<lparr>mBuffer := mBuffer t @ data msg\<rparr>"
  obtain r u where t: "WsTransport_incoming_try E msg t = (r, u)" by fastforce
  obtain q v where h: "WsTransport_handshake E ?t = (q, v)" by fastforce
  have v: "reports t v" using reports_trans [OF reports_update(1) [OF reports_refl]] reports_handshake [of ?t E] h by auto
  have u: "reports t u" using t h v reports_trans [OF v reports_stream [of v E "length (data msg) = 0"]]
    by (cases q) (auto simp: WsTransport_incoming_try_def)
  have e: "reports u (snd (WsTransport_sendHttpError E code u))" for code
    by (cases "WsTransport_sendHttpError E code u") (auto simp: WsTransport_sendHttpError_def intro: reports_outgoing)
  have "WsTransport_incoming E m t = u \<or> WsTransport_incoming E m t = WsTransport_incoming_end u \<or>
    (\<exists>code. WsTransport_incoming E m t = WsTransport_incoming_end (snd (WsTransport_sendHttpError E code u)))"
    using m t by (auto simp: WsTransport_incoming_def split: sum.splits exn.splits)
  then show ?thesis using u reports_trans [OF u reports_end] reports_trans [OF u reports_trans [OF e reports_end]] by auto
qed

lemma reports_send: "reports t (snd (WsTransport_send E m t))" "mState (snd (WsTransport_send E m t)) = mState t"
proof -
  have "reports t (snd (WsTransport_send E m t)) \<and> mState (snd (WsTransport_send E m t)) = mState t"
  proof (cases m)
    case None
    then show ?thesis by (simp add: WsTransport_send_def reports_refl)
  next
    case (Some x)
    let ?f = "mk_frame (if type x = String then TEXT_FRAME else BINARY_FRAME) (data x) (mIsClient t)"
    obtain r p u where s: "WsTransport_sendFrame E ?f t = (r, p, u)" by (metis prod_cases3)
    from reports_sendFrame [OF s] show ?thesis using Some s by (simp add: WsTransport_send_def reports_refl)
  qed
  then show "reports t (snd (WsTransport_send E m t))" "mState (snd (WsTransport_send E m t)) = mState t" by auto
qed

lemma ws_step_reports: "ws_step E t u \<Longrightarrow> reports t u"
  by (induction rule: ws_step.induct)
    (simp_all add: reports_send reports_close reports_incoming WsTransport_closeTimeout_def reports_changeState)

lemma ws_steps_report: "(ws_step E)\<^sup>*\<^sup>* t u \<Longrightarrow> reports t u"
  by (induction rule: rtranclp_induct) (auto intro: reports_refl reports_trans ws_step_reports)


section \<open>The object and its transport\<close>

text \<open>
  What a callback of the WebSocket transport \<open>i\<close> does to the object that owns it: \<open>initWsTransport\<close> gives the
  transport \<open>incoming\<close> for messages and the state callback above, and \<open>closeTransports\<close>, which takes the transport
  out of its slot, removes both. \<open>None\<close> is a delivery that blocks on the full receive queue.
\<close>

definition WebSocket_event :: "nat \<Rightarrow> event \<Rightarrow> WebSocket \<Rightarrow> WebSocket option" where
  "WebSocket_event i e w =
     (if mWsTransport w \<noteq> Some i then Some w
      else case e of
        StateCallback s \<Rightarrow> Some (WebSocket_onWsState s w)
      | RecvCallback m \<Rightarrow> WebSocket_incoming m w
      | Scheduled n \<Rightarrow> Some w)"

fun WebSocket_events :: "nat \<Rightarrow> event list \<Rightarrow> WebSocket \<Rightarrow> WebSocket option" where
  "WebSocket_events i [] w = Some w"
| "WebSocket_events i (e # es) w = Option.bind (WebSocket_event i e w) (WebSocket_events i es)"

lemma WebSocket_events_append:
  "WebSocket_events i (a @ b) w = Option.bind (WebSocket_events i a w) (WebSocket_events i b)"
  by (induction a arbitrary: w) (auto split: Option.bind_split)

text \<open>
  A method of the object, with the transport in its slot: when it stops the transport (\<open>close\<close> calls its \<open>stop\<close>),
  the transport does so, and calls back.
\<close>

definition WebSocket_call ::
  "'l ws_env \<Rightarrow> nat \<Rightarrow> (WebSocket \<Rightarrow> WebSocket) \<Rightarrow> WebSocket \<times> 'l WsTransport \<Rightarrow> (WebSocket \<times> 'l WsTransport) option" where
  "WebSocket_call E i f = (\<lambda>(w, t).
     (let w' = f w;
          t' = (if StopTransport WsKind i \<in> set (drop (length (effects w)) (effects w')) then WsTransport_stop E t else t)
      in map_option (\<lambda>w. (w, t')) (WebSocket_events i (new_events t t') w')))"

text \<open>\<open>outgoing\<close>, with the transport that it passes the message to.\<close>

definition WebSocket_send ::
  "'l ws_env \<Rightarrow> Message \<Rightarrow> WebSocket \<times> 'l WsTransport \<Rightarrow> bool res \<times> WebSocket \<times> 'l WsTransport" where
  "WebSocket_send E m = (\<lambda>(w, t).
     (WebSocket_outgoing \<lparr>ctor_throws = \<lambda>_ _. False, start_throws = \<lambda>_ _. False, closed_meanwhile = \<lambda>_ _. False,
        transport_send = \<lambda>_ m. fst (WsTransport_send E (Some m) t)\<rparr> m w, w,
      if mWsTransport w \<noteq> None \<and> wsState w = WsOpen \<and> length (data m) \<le> WebSocket_maxMessageSize w
      then snd (WsTransport_send E (Some m) t) else t))"

text \<open>
  The steps of the two: what reaches the transport from below, its timeout, the calls of the application, the
  callbacks of the other transports, the connection timeout. A callback that closes the object finds the transport
  no longer connected, so that the \<open>stop\<close> it calls does nothing.
\<close>

inductive app_step :: "ws_world \<Rightarrow> 'l ws_env \<Rightarrow> nat \<Rightarrow> WebSocket \<times> 'l WsTransport \<Rightarrow> WebSocket \<times> 'l WsTransport \<Rightarrow> bool"
  for W E i where
  arrives: "t' = WsTransport_incoming E m t \<Longrightarrow> WebSocket_events i (new_events t t') w = Some w' \<Longrightarrow> app_step W E i (w, t) (w', t')"
| timeout: "t' = WsTransport_closeTimeout t \<Longrightarrow> WebSocket_events i (new_events t t') w = Some w' \<Longrightarrow> app_step W E i (w, t) (w', t')"
| send: "app_step W E i (w, t) (snd (WebSocket_send E m (w, t)))"
| close: "WebSocket_call E i WebSocket_close p = Some p' \<Longrightarrow> app_step W E i p p'"
| forceClose: "WebSocket_call E i WebSocket_remoteClose p = Some p' \<Longrightarrow> app_step W E i p p'"
| connectionTimeout: "WebSocket_call E i WebSocket_connectionTimeout p = Some p' \<Longrightarrow> app_step W E i p p'"
| tcp: "mTcpTransport (fst p) = Some k \<Longrightarrow> WebSocket_call E i (WebSocket_onTcpState W s) p = Some p' \<Longrightarrow> app_step W E i p p'"
| proxy: "mProxyTransport (fst p) = Some k \<Longrightarrow> WebSocket_call E i (WebSocket_onProxyState W s) p = Some p' \<Longrightarrow> app_step W E i p p'"
| tls: "mTlsTransport (fst p) = Some k \<Longrightarrow> WebSocket_call E i (WebSocket_onTlsState W s) p = Some p' \<Longrightarrow> app_step W E i p p'"
| channel: "Channel.more w' = Channel.more w \<Longrightarrow> app_step W E i (w, t) (w', t)"

section \<open>The object follows the transport\<close>

definition linked :: "nat \<Rightarrow> State \<Rightarrow> WebSocket \<Rightarrow> bool" where
  "linked i s w \<longleftrightarrow>
     wsState w = WsClosed \<and> mTcpTransport w = None \<and> mTlsTransport w = None \<and> mWsTransport w = None
     \<or> wsState w \<noteq> WsClosed \<and> mWsTransport w = Some i \<and> s \<in> {Connecting, Connected}
       \<and> (wsState w = WsConnecting \<longrightarrow> s = Connecting) \<and> (wsState w = WsOpen \<longrightarrow> s = Connected)"

lemma linked_cong: "Channel.more w = Channel.more w' \<Longrightarrow> linked i s w = linked i s w'"
  using more_fields [of w w'] by (simp add: linked_def)

text \<open>Whatever the state, closing by force leaves a closed object.\<close>

lemma linked_remoteClose: "linked i s w \<Longrightarrow> linked i s' (WebSocket_remoteClose w)"
proof (cases "wsState w = WsClosed")
  case True
  then have "WebSocket_remoteClose w = w" by (simp add: remoteClose_closing)
  then show "linked i s w \<Longrightarrow> ?thesis" using True by (auto simp: linked_def)
next
  case False
  then show ?thesis using remoteClose_effects(2,3) [OF False]
    by (auto simp: linked_def transports_def slot_list_def split: option.splits)
qed

lemma linked_event:
  assumes "linked i s w" "WebSocket_event i e w = Some w'" "follows s [e] = Some s'"
  shows "linked i s' w'"
proof (cases "mWsTransport w = Some i")
  case False
  then show ?thesis using assms by (auto simp: linked_def WebSocket_event_def)
next
  case True
  then have w: "wsState w \<noteq> WsClosed" "s \<in> {Connecting, Connected}" using assms(1) by (auto simp: linked_def)
  show ?thesis
  proof (cases e)
    case (StateCallback q)
    have e: "linked i s (Channel_triggerError m w)" for m using assms(1) linked_cong trigger_more(4) by blast
    have o: "linked i Connected (Channel_triggerOpen (emit [Opened] (w\<lparr>wsState := WsOpen\<rparr>)))"
      unfolding linked_cong [OF trigger_more(2)] using True by (simp add: linked_def)
    have q: "q = s'" "q = Connected \<and> s = Connecting \<or> q = Disconnected \<or> q = Failed"
      using assms(3) StateCallback by (auto split: if_splits)
    have "w' = WebSocket_onWsState q w" using assms(2) True StateCallback by (simp add: WebSocket_event_def)
    moreover have "linked i s' (WebSocket_onWsState Connected w)" if "s' = Connected" "s = Connecting"
      using o that assms(1) by (simp add: WebSocket_onWsState_def WebSocket_changeState_def) (simp add: linked_def)
    moreover have "linked i s' (WebSocket_onWsState Disconnected w)" "linked i s' (WebSocket_onWsState Failed w)"
      using linked_remoteClose [OF assms(1)] linked_remoteClose [OF e] by (simp_all add: WebSocket_onWsState_def)
    ultimately show ?thesis using q by blast
  next
    case (RecvCallback m)
    show ?thesis
    proof (cases m)
      case None
      then show ?thesis using assms True RecvCallback w by (auto split: if_splits)
    next
      case (Some x)
      have "s' = s" using assms(3) RecvCallback Some by (auto split: if_splits)
      moreover have "Channel.more w' = Channel.more w"
        using assms(2) True RecvCallback Some by (auto simp: WebSocket_event_def WebSocket_incoming_def split: if_splits option.splits)
      ultimately show ?thesis using assms(1) linked_cong by metis
    qed
  next
    case (Scheduled n)
    then show ?thesis using assms by (simp add: WebSocket_event_def split: if_splits)
  qed
qed

lemma linked_events:
  "linked i s w \<Longrightarrow> WebSocket_events i es w = Some w' \<Longrightarrow> follows s es = Some s' \<Longrightarrow> linked i s' w'"
proof (induction es arbitrary: s w)
  case (Cons e es)
  from Cons.prems(2) obtain v where v: "WebSocket_event i e w = Some v" "WebSocket_events i es v = Some w'"
    by (auto simp: bind_eq_Some_conv)
  have "Option.bind (follows s [e]) (\<lambda>q. follows q es) = Some s'" using Cons.prems(3) follows_append [of s "[e]" es] by simp
  then obtain q where q: "follows s [e] = Some q" "follows q es = Some s'"
    unfolding bind_eq_Some_conv by blast
  from Cons.IH [OF linked_event [OF Cons.prems(1) v(1) q(1)] v(2) q(2)] show ?case .
qed simp

text \<open>The calls keep the object linked to the state that the transport had before.\<close>

lemma linked_close: "linked i s w \<Longrightarrow> linked i s (WebSocket_close w)"
proof (cases "wsState w = WsConnecting \<or> wsState w = WsOpen")
  case True
  moreover assume l: "linked i s w"
  ultimately obtain "mWsTransport w = Some i" by (auto simp: linked_def)
  with True l show ?thesis by (auto simp: WebSocket_close.simps WebSocket_changeState_def linked_def)
qed (simp add: WebSocket_close.simps)

lemma linked_error: "linked i s (Channel_triggerError m w) = linked i s w"
  by (rule linked_cong) simp

lemma linked_timeout: "linked i s w \<Longrightarrow> linked i s (WebSocket_connectionTimeout w)"
  by (auto simp: WebSocket_connectionTimeout_def linked_error intro: linked_remoteClose)

text \<open>Building the lower transports does not touch the slot of a WebSocket transport that is already there.\<close>

lemma linked_open_slot: "wsState w \<noteq> WsClosed \<Longrightarrow> k \<noteq> WsKind \<Longrightarrow> linked i s (set_slot k t w) = linked i s w"
  by (cases k) (simp_all add: set_slot_def linked_def)

lemma linked_fields [simp]:
  "linked i s (emit es w) = linked i s w" "linked i s (w\<lparr>mNextId := n\<rparr>) = linked i s w"
  "linked i s (w\<lparr>mWsHandshake := h\<rparr>) = linked i s w"
  by (simp_all add: linked_def)

lemma linked_empty_slot: "linked i s w \<Longrightarrow> k \<noteq> WsKind \<or> wsState w = WsClosed \<Longrightarrow> linked i s (set_slot k None w)"
  by (cases k) (auto simp: set_slot_def linked_def)

lemma linked_emplace_closed:
  assumes "linked i s w" "wsState w = WsClosed"
  shows "linked i s (snd (emplaceTransport W k w))"
proof -
  let ?t = "mNextId w"
  let ?w = "emit [StartTransport k ?t] (set_slot k (Some ?t) (w\<lparr>mNextId := ?t + 1\<rparr>))"
  have "wsState ?w = WsClosed" using assms(2) by (cases k) (simp_all add: set_slot_def)
  then have "snd (emplaceTransport W k w) = emit [StopTransport k ?t] (set_slot k None ?w)"
    by (simp add: emplaceTransport_def Let_def remoteClose_closing)
  also have "\<dots> = emit [StartTransport k ?t, StopTransport k ?t] (set_slot k None (w\<lparr>mNextId := ?t + 1\<rparr>))"
    by (cases k) (simp_all add: set_slot_def)
  finally show ?thesis using linked_empty_slot [of i s "w\<lparr>mNextId := ?t + 1\<rparr>" k] assms by simp
qed

lemma linked_emplace:
  assumes "linked i s w" "k \<noteq> WsKind \<or> wsState w = WsClosed"
  shows "linked i s (snd (emplaceTransport W k w))"
proof (cases "wsState w = WsClosed")
  case False
  let ?t = "mNextId w"
  let ?w = "emit [StartTransport k ?t] (set_slot k (Some ?t) (w\<lparr>mNextId := ?t + 1\<rparr>))"
  have w: "linked i s ?w" using assms False linked_open_slot [of "w\<lparr>mNextId := ?t + 1\<rparr>" k i s "Some ?t"] by simp
  have "linked i s (emit [StopTransport k ?t] (set_slot k None u))" if "linked i s u" for u
    using linked_empty_slot [OF that] assms(2) False by simp
  with w linked_remoteClose [OF w, of s] show ?thesis by (simp add: emplaceTransport_def Let_def)
qed (use assms linked_emplace_closed in blast)

lemma linked_failed: "linked i s w \<Longrightarrow> linked i s (snd (init_failed name w))"
  by (simp add: init_failed_def linked_remoteClose)

lemma linked_guard: "linked i s (snd r) \<Longrightarrow> linked i s (snd (init_guard name r))"
  by (cases r) (simp add: init_guard_def linked_failed split: sum.splits)

lemmas linked_intros = linked_failed linked_guard [OF linked_emplace]

lemma linked_init:
  assumes "linked i s w"
  shows "linked i s (snd (WebSocket_initProxyTransport W w))" "linked i s (snd (WebSocket_initTlsTransport W w))"
    "linked i s (snd (WebSocket_initWsTransport W w))"
proof -
  show "linked i s (snd (WebSocket_initProxyTransport W w))" "linked i s (snd (WebSocket_initTlsTransport W w))"
    using assms linked_intros [OF assms]
    by (simp_all add: WebSocket_initProxyTransport_def WebSocket_initTlsTransport_def Let_def)
  show "linked i s (snd (WebSocket_initWsTransport W w))"
  proof (cases "mWsTransport w")
    case None
    then have c: "wsState w = WsClosed" using assms by (simp add: linked_def)
    define v where "v = (if mWsHandshake w = None then w\<lparr>mWsHandshake := Some WsHandshake_default\<rparr> else w)"
    have v: "linked i s v" "wsState v = WsClosed" using assms c by (simp_all add: v_def)
    have "snd (WebSocket_initWsTransport W w) \<in> {w, snd (init_failed ''WebSocket'' w), snd (init_failed ''WebSocket'' v),
        snd (init_guard ''WebSocket'' (emplaceTransport W WsKind v))}"
      by (simp add: WebSocket_initWsTransport_def Let_def v_def)
    then show ?thesis using assms linked_failed [OF assms] linked_intros [OF v(1)] v(2) by auto
  qed (use assms in \<open>simp add: WebSocket_initWsTransport_def\<close>)
qed

lemma linked_handlers:
  assumes "linked i s w"
  shows "linked i s (WebSocket_onTcpState W q w)" "linked i s (WebSocket_onProxyState W q w)" "linked i s (WebSocket_onTlsState W q w)"
  using assms linked_init [OF assms, of W] linked_remoteClose [OF assms] linked_remoteClose [of i s "Channel_triggerError m w" s for m]
  by (cases q; simp add: WebSocket_onTcpState_def WebSocket_onProxyState_def WebSocket_onTlsState_def linked_error)+

text \<open>The invariant, for a transport whose state callback is set.\<close>

definition app_inv :: "nat \<Rightarrow> WebSocket \<times> 'l WsTransport \<Rightarrow> bool" where
  "app_inv i p \<longleftrightarrow> linked i (mState (snd p)) (fst p) \<and> mStateChangeCallback (snd p)"

lemma app_invD: "app_inv i p \<Longrightarrow> linked i (mState (snd p)) (fst p)"
  by (simp add: app_inv_def)

lemma app_inv_events:
  assumes "app_inv i (w, t)" "reports t t'" "linked i (mState t) w'" "WebSocket_events i (new_events t t') w' = Some w''"
  shows "app_inv i (w'', t')"
  using assms linked_events [OF assms(3,4)] by (auto simp: app_inv_def reports_def)

lemma app_inv_call:
  assumes "app_inv i p" "linked i (mState (snd p)) (f (fst p))" "WebSocket_call E i f p = Some p'"
  shows "app_inv i p'"
proof -
  obtain w t where p: "p = (w, t)" by fastforce
  define t' where "t' = (if StopTransport WsKind i \<in> set (drop (length (effects w)) (effects (f w))) then WsTransport_stop E t else t)"
  have "reports t t'" using reports_close [of t E] by (simp add: t'_def WsTransport_stop_def reports_refl)
  moreover obtain w'' where "WebSocket_events i (new_events t t') (f w) = Some w''" "p' = (w'', t')"
    using assms(3) unfolding p WebSocket_call_def Let_def case_prod_conv t'_def [symmetric] by auto
  ultimately show ?thesis using app_inv_events assms(1,2) p by fastforce
qed

lemma app_step_inv: "app_step W E i p p' \<Longrightarrow> app_inv i p \<Longrightarrow> app_inv i p'"
proof (induction rule: app_step.induct)
  case (arrives t' m t w w')
  then show ?case using app_inv_events [of i w t t' w w'] reports_incoming [of t E m] by (simp add: app_inv_def)
next
  case (timeout t' t w w')
  then show ?case using app_inv_events [of i w t t' w w'] reports_changeState [of Disconnected t] by (simp add: app_inv_def WsTransport_closeTimeout_def)
next
  case (send w t m)
  then show ?case using reports_send(1) [of t E "Some m"] reports_send(2) [of E "Some m" t] by (auto simp: app_inv_def WebSocket_send_def reports_def)
next
  case (channel w' w t)
  then show ?case using linked_cong [OF channel(1), of i "mState t"] by (simp add: app_inv_def)
next
  case (close p p')
  show ?case by (rule app_inv_call [OF close(2) linked_close [OF app_invD [OF close(2)]] close(1)])
next
  case (forceClose p p')
  show ?case by (rule app_inv_call [OF forceClose(2) linked_remoteClose [OF app_invD [OF forceClose(2)]] forceClose(1)])
next
  case (connectionTimeout p p')
  show ?case by (rule app_inv_call [OF connectionTimeout(2) linked_timeout [OF app_invD [OF connectionTimeout(2)]] connectionTimeout(1)])
next
  case (tcp p k s p')
  show ?case by (rule app_inv_call [OF tcp(3) linked_handlers(1) [OF app_invD [OF tcp(3)]] tcp(2)])
next
  case (proxy p k s p')
  show ?case by (rule app_inv_call [OF proxy(3) linked_handlers(2) [OF app_invD [OF proxy(3)]] proxy(2)])
next
  case (tls p k s p')
  show ?case by (rule app_inv_call [OF tls(3) linked_handlers(3) [OF app_invD [OF tls(3)]] tls(2)])
qed

lemma app_steps_inv: "(app_step W E i)\<^sup>*\<^sup>* p p' \<Longrightarrow> app_inv i p \<Longrightarrow> app_inv i p'"
  by (induction rule: rtranclp_induct) (auto intro: app_step_inv)


section \<open>A session, seen by the application\<close>

lemma onWsState_slot: "mWsTransport w = Some i \<Longrightarrow> mWsTransport (WebSocket_onWsState Connected w) = Some i"
  by (simp add: WebSocket_onWsState_def WebSocket_changeState_def)

lemma incoming_some_more: "WebSocket_incoming (Some m) w = Some w' \<Longrightarrow> Channel.more w' = Channel.more w"
  by (auto simp: WebSocket_incoming_def split: if_splits option.splits)

text \<open>A transport that is connected in the end has been so ever since it first was.\<close>

lemma follows_connected: "follows s es = Some Connected \<Longrightarrow> s = Connected \<or> s = Connecting"
  by (induction s es rule: follows.induct) (auto split: if_splits)

lemma events_connected:
  "follows Connected es = Some Connected \<Longrightarrow> mWsTransport w = Some i \<Longrightarrow>
   WebSocket_events i es w = incoming_all (map the (received es)) w"
proof (induction es arbitrary: w)
  case (Cons e es)
  show ?case
  proof (cases e)
    case (StateCallback q)
    then show ?thesis using Cons.prems follows_connected [of q es] by (auto split: if_splits)
  next
    case (RecvCallback m)
    then obtain x where x: "m = Some x" "follows Connected es = Some Connected" using Cons.prems(1) by (cases m) auto
    have "mWsTransport v = Some i" if "WebSocket_incoming (Some x) w = Some v" for v
      using more_fields(5) [OF incoming_some_more [OF that]] Cons.prems(2) by simp
    with Cons.IH [OF x(2)] RecvCallback x Cons.prems(2) show ?thesis
      by (cases "WebSocket_incoming (Some x) w") (simp_all add: WebSocket_event_def)
  next
    case (Scheduled n)
    then show ?thesis using Cons.IH Cons.prems by (simp add: WebSocket_event_def)
  qed
qed simp

lemma events_connecting:
  "follows Connecting es = Some Connected \<Longrightarrow> mWsTransport w = Some i \<Longrightarrow>
   WebSocket_events i es w = incoming_all (map the (received es)) (WebSocket_onWsState Connected w)"
proof (induction es)
  case (Cons e es)
  show ?case
  proof (cases e)
    case (StateCallback q)
    then have "q = Connected" using Cons.prems(1) follows_connected [of q es] by (auto split: if_splits)
    then show ?thesis using StateCallback Cons.prems events_connected [OF _ onWsState_slot [OF Cons.prems(2)], of es]
      by (simp add: WebSocket_event_def)
  next
    case (RecvCallback m)
    then show ?thesis using Cons.prems(1) by (cases m) auto
  next
    case (Scheduled n)
    then show ?thesis using Cons.IH Cons.prems by (simp add: WebSocket_event_def)
  qed
qed simp

text \<open>Opening without a message callback leaves the queue alone.\<close>

lemma opened_object:
  assumes "wsState w = WsConnecting" "messageCallback w = None" "w' = WebSocket_onWsState Connected w"
  shows "wsState w' = WsOpen" "effects w' = effects w @ [Opened]" "mRecvQueue w' = mRecvQueue w" "messageCallback w' = None"
proof -
  obtain made c where s: "stored_call () (openCallback w) = (made, c)" by fastforce
  have w': "w' = Channel_triggerOpen (emit [Opened] (w\<lparr>wsState := WsOpen\<rparr>))"
    using assms(1,3) by (simp add: WebSocket_onWsState_def WebSocket_changeState_def)
  then show "wsState w' = WsOpen" "effects w' = effects w @ [Opened]" by simp_all
  show "mRecvQueue w' = mRecvQueue w" "messageCallback w' = None"
    using assms(2) s unfolding w' Channel_triggerOpen_def
    by (simp_all add: Let_def flush_idle log_call_def split: option.splits prod.splits)
qed

lemma incoming_all_more: "incoming_all ms w = Some w' \<Longrightarrow> Channel.more w' = Channel.more w"
  by (induction ms arbitrary: w) (auto simp: bind_eq_Some_conv dest: incoming_some_more)

lemma feed_steps: "(ws_step E)\<^sup>*\<^sup>* t (WsTransport_feed E cs t)"
  by (induction cs arbitrary: t) (auto simp: WsTransport_feed_def intro: converse_rtranclp_into_rtranclp ws_step.incoming)

lemma send_all_steps: "(ws_step E)\<^sup>*\<^sup>* t (WsTransport_send_all E ms t)"
  by (induction ms arbitrary: t) (auto simp: WsTransport_send_all_def intro: converse_rtranclp_into_rtranclp ws_step.send)

text \<open>
  A transport that was connecting and is connected now: what its owner has received is what the transport has
  handed over, if there was room for it in the queue.
\<close>

lemma object_receives:
  assumes "reports t u" "mStateChangeCallback t" "mState t = Connecting" "mState u = Connected"
    and "received (trace u) = received (trace t) @ map Some ms" "list_all deliverable ms"
    and "wsState w = WsConnecting" "mWsTransport w = Some i" "messageCallback w = None" "mQueue (mRecvQueue w) = []"
      "\<not> mStopping (mRecvQueue w)" "length ms \<le> mLimit (mRecvQueue w)"
  shows "\<exists>w'. WebSocket_events i (new_events t u) w = Some w' \<and> wsState w' = WsOpen \<and> effects w' = effects w @ [Opened]
    \<and> fst (receive_all (length ms) w') = map (Some \<circ> to_variant) ms"
proof -
  let ?o = "WebSocket_onWsState Connected w"
  note o = opened_object [OF assms(7,9) refl]
  have f: "follows Connecting (new_events t u) = Some Connected" "trace u = trace t @ new_events t u"
    using assms(1-4) by (simp_all add: reports_def)
  have "received (new_events t u) = map Some ms" using assms(5) arg_cong [OF f(2), of received] by simp
  then have e: "WebSocket_events i (new_events t u) w = incoming_all ms ?o"
    using events_connecting [OF f(1) assms(8)] by (simp add: comp_def)
  obtain w' where w': "incoming_all ms ?o = Some w'" using incoming_all_room [OF assms(6), of ?o] o assms(10-12) by auto
  have "mQueue (mRecvQueue w') = ms" using incoming_all_queued [OF w' assms(6)] o assms(10,11) by simp
  then have "fst (receive_all (length ms) w') = map (Some \<circ> to_variant) ms" using receive_all_queue [of "length ms" w'] by simp
  with e w' o more_fields [OF incoming_all_more [OF w']] show ?thesis by simp
qed

text \<open>
  An object whose TCP connection is about to be reported, that uses neither a proxy nor TLS: it makes and starts a
  WebSocket transport, if that does not fail. \<open>i\<close> is the identity of the new transport.
\<close>

definition awaits_tcp :: "ws_world \<Rightarrow> nat \<Rightarrow> WebSocket \<Rightarrow> bool" where
  "awaits_tcp W i w \<longleftrightarrow> wsState w = WsConnecting \<and> proxyServer (config w) = None \<and> \<not> mIsSecure w \<and> mTcpTransport w \<noteq> None
     \<and> mWsTransport w = None \<and> mNextId w = i
     \<and> \<not> ctor_throws W WsKind i \<and> \<not> start_throws W WsKind i \<and> \<not> closed_meanwhile W WsKind i"

lemma tcp_connected:
  assumes "awaits_tcp W i w" "w' = WebSocket_onTcpState W Connected w"
  shows "wsState w' = WsConnecting" "mWsTransport w' = Some i" "effects w' = effects w @ [StartTransport WsKind i]"
    "mRecvQueue w' = mRecvQueue w" "messageCallback w' = messageCallback w"
proof -
  have "mTcpTransport w \<noteq> None" using assms(1) by (simp add: awaits_tcp_def)
  with assms show "wsState w' = WsConnecting" "mWsTransport w' = Some i" "effects w' = effects w @ [StartTransport WsKind i]"
    "mRecvQueue w' = mRecvQueue w" "messageCallback w' = messageCallback w"
    by (auto simp: awaits_tcp_def WebSocket_onTcpState_def WebSocket_initWsTransport_def Let_def emplaceTransport_def
        set_slot_def init_guard_def)
qed

text \<open>What the application gets for a message.\<close>

abbreviation variant_of :: "Message \<Rightarrow> message_variant" where
  "variant_of m \<equiv> (if type m = String then VString (string_of_bytes (data m)) else VBinary (data m))"

section \<open>Closing during the opening handshake\<close>

text \<open>
  \<open>stop\<close> does nothing on a transport that is not connected, and the timeouts look at objects that are connecting:
  an object closed during the opening handshake stays in the closing state as long as its peer keeps the
  connection, also when the handshake is completed.
\<close>

lemma closing_events:
  "WebSocket_events i es w = Some w' \<Longrightarrow> wsState w = WsClosing \<Longrightarrow> follows s es = Some s' \<Longrightarrow> s' \<in> {Connecting, Connected} \<Longrightarrow>
   wsState w' = WsClosing \<and> effects w' = effects w"
proof (induction es arbitrary: s w)
  case (Cons e es)
  from Cons.prems(1) obtain v where v: "WebSocket_event i e w = Some v" "WebSocket_events i es v = Some w'"
    by (auto simp: bind_eq_Some_conv)
  have ends: "s \<in> {Connecting, Connected}" if "follows s es = Some s'" for s es
    using that Cons.prems(4) by (induction s es rule: follows.induct) (auto split: if_splits)
  have step: "wsState v = WsClosing \<and> effects v = effects w \<and> (\<exists>s. follows s es = Some s')"
  proof (cases e)
    case (StateCallback q)
    then have "q = Connected" "follows q es = Some s'" using Cons.prems(3) ends [of q es] by (auto split: if_splits)
    then show ?thesis using v(1) StateCallback Cons.prems(2)
      by (auto simp: WebSocket_event_def WebSocket_onWsState_def split: if_splits)
  next
    case (RecvCallback m)
    then obtain x where x: "m = Some x" "follows s es = Some s'"
      using Cons.prems(3) ends [of Disconnected es] by (cases m) (auto split: if_splits)
    have "Channel.more v = Channel.more w" using v(1) RecvCallback x incoming_some_more by (auto simp: WebSocket_event_def split: if_splits)
    from more_fields [OF this] x Cons.prems(2) show ?thesis by auto
  next
    case (Scheduled n)
    then show ?thesis using v(1) Cons.prems(2,3) by (auto simp: WebSocket_event_def split: if_splits)
  qed
  then show ?case using Cons.IH [OF v(2)] Cons.prems(4) by auto
qed simp

lemma close_connecting:
  assumes "wsState w = WsConnecting" "mWsTransport w = Some i" "mState t = Connecting"
  shows "WebSocket_call E i WebSocket_close (w, t) = Some (emit [StopTransport WsKind i] (w\<lparr>wsState := WsClosing\<rparr>), t)"
  using assms by (simp add: WebSocket_call_def WebSocket_close.simps WebSocket_changeState_def WsTransport_stop_def
      WsTransport_close_def new_events_def)

text \<open>The invariant of the life of the object holds in the runs of the two as well.\<close>

lemma ws_inv_event: "ws_inv w \<Longrightarrow> WebSocket_event i e w = Some w' \<Longrightarrow> ws_inv w'"
  by (auto simp: WebSocket_event_def onWsState_inv incoming_inv split: event.splits if_splits)

lemma ws_inv_events: "WebSocket_events i es w = Some w' \<Longrightarrow> ws_inv w \<Longrightarrow> ws_inv w'"
  by (induction es arbitrary: w) (auto simp: bind_eq_Some_conv dest: ws_inv_event)

lemma ws_inv_call: "WebSocket_call E i f p = Some p' \<Longrightarrow> ws_inv (f (fst p)) \<Longrightarrow> ws_inv (fst p')"
  by (cases p) (auto simp: WebSocket_call_def Let_def dest: ws_inv_events)

lemma app_step_ws_inv: "app_step W E i p p' \<Longrightarrow> ws_inv (fst p) \<Longrightarrow> ws_inv (fst p')"
proof (induction rule: app_step.induct)
  case (arrives t' m t w w')
  then show ?case using ws_inv_events by simp
next
  case (timeout t' t w w')
  then show ?case using ws_inv_events by simp
next
  case (send w t m)
  then show ?case by (simp add: WebSocket_send_def)
next
  case (channel w' w t)
  then show ?case using ws_inv_cong [OF channel(1)] by simp
qed (simp_all add: ws_inv_call close_inv remoteClose_inv handlers_inv)

lemma app_steps_ws_inv: "(app_step W E i)\<^sup>*\<^sup>* p p' \<Longrightarrow> ws_inv (fst p) \<Longrightarrow> ws_inv (fst p')"
  by (induction rule: rtranclp_induct) (auto dest: app_step_ws_inv)
section \<open>Closing an open object\<close>

text \<open>
  \<open>close\<close> on an object with a connected transport: either the object is closed at once, as the close frame could not be
  sent, or the transport has scheduled its timeout, now or when it sent a close frame before. Whatever happens then,
  the object is closed once that timeout has run.
\<close>

lemma close_connected:
  assumes "wsState w = WsOpen" "mWsTransport w = Some i" "mState t = Connected" "mStateChangeCallback t" "\<not> mCloseSent t"
    and "WebSocket_call E i WebSocket_close (w, t) = Some (w', t')"
  shows "wsState w' = WsClosed \<or> wsState w' = WsClosing \<and> Scheduled 10 \<in> set (new_events t t') \<and> mState t' = Connected"
proof -
  let ?w = "emit [StopTransport WsKind i] (w\<lparr>wsState := WsClosing\<rparr>)"
  let ?t = "t\<lparr>mCloseSent := True\<rparr>"
  have c: "WebSocket_close w = ?w" using assms(1,2) by (simp add: WebSocket_close.simps WebSocket_changeState_def)
  have t': "t' = WsTransport_close E t" "WebSocket_events i (new_events t t') ?w = Some w'"
    using assms(6) by (auto simp: WebSocket_call_def c WsTransport_stop_def Let_def)
  obtain r p u where s: "WsTransport_sendFrame E (mk_frame CLOSE [] (mIsClient t)) ?t = (r, p, u)" by (metis prod_cases3)
  have u: "mState u = Connected" "trace u = trace t" "mStateChangeCallback u"
    using WsTransport_sendFrame_frame(1) [OF s] assms(3,4) by auto
  have e: "WsTransport_close E t = (case r of Inl e \<Rightarrow> Transport_changeState Disconnected u | Inr _ \<Rightarrow> schedule_in 10 u)"
    using assms(3,5) s by (simp add: WsTransport_close_def split: sum.split)
  show ?thesis
  proof (cases r)
    case (Inl x)
    then have "new_events t t' = [StateCallback Disconnected]"
      using u by (simp add: t'(1) e new_events_def Transport_changeState_def)
    then have "w' = WebSocket_remoteClose ?w" using t'(2) assms(2) by (simp add: WebSocket_event_def WebSocket_onWsState_def)
    then show ?thesis using remoteClose_effects(3) [of ?w] by simp
  next
    case (Inr x)
    then have "new_events t t' = [Scheduled 10]" "mState t' = Connected" using u by (simp_all add: t'(1) e new_events_def)
    then show ?thesis using t'(2) by (auto simp: WebSocket_event_def split: if_splits)
  qed
qed

lemma timeout_closes:
  assumes "app_inv i (w, t)" "WebSocket_events i (new_events t (WsTransport_closeTimeout t)) w = Some w'"
  shows "wsState w' = WsClosed \<and> transports w' = []"
proof -
  let ?t = "WsTransport_closeTimeout t"
  have "app_inv i (w', ?t)"
    using app_inv_events [OF assms(1) _ _ assms(2)] reports_changeState [of Disconnected t] assms(1)
    by (simp add: app_inv_def WsTransport_closeTimeout_def)
  then show ?thesis by (auto simp: app_inv_def linked_def WsTransport_closeTimeout_def transports_def slot_list_def)
qed

lemma received_close: "received (trace (WsTransport_close E t)) = received (trace t)"
proof -
  obtain r p u where s: "WsTransport_sendFrame E (mk_frame CLOSE [] (mIsClient t)) (t\<lparr>mCloseSent := True\<rparr>) = (r, p, u)"
    by (metis prod_cases3)
  then have "trace u = trace t" using WsTransport_sendFrame_frame(1) [OF s] by auto
  then show ?thesis using s by (simp add: WsTransport_close_def Transport_changeState_trace split: sum.split)
qed

text \<open>Closing is never blocked.\<close>

lemma events_run: "received es = [] \<Longrightarrow> \<exists>w'. WebSocket_events i es w = Some w'"
proof (induction es arbitrary: w)
  case (Cons e es)
  then have "received es = []" "\<exists>v. WebSocket_event i e w = Some v" by (cases e; simp add: WebSocket_event_def)+
  then show ?case using Cons.IH by auto
qed simp

lemma close_runs:
  assumes "mStateChangeCallback t"
  shows "\<exists>p. WebSocket_call E i WebSocket_close (w, t) = Some p"
proof -
  define u where "u = (if StopTransport WsKind i \<in> set (drop (length (effects w)) (effects (WebSocket_close w))) then WsTransport_close E t else t)"
  have "reports t u" "received (trace u) = received (trace t)" using reports_close [of t E] by (simp_all add: u_def reports_refl received_close)
  then have "received (new_events t u) = []" using assms by (auto simp: reports_def dest: arg_cong [of "trace u" _ received])
  from events_run [OF this] show ?thesis by (auto simp: WebSocket_call_def Let_def WsTransport_stop_def u_def)
qed

text \<open>The timeout is never blocked: it only reports states.\<close>

lemma timeout_runs: "\<exists>w'. WebSocket_events i (new_events t (WsTransport_closeTimeout t)) w = Some w'"
  by (simp add: WsTransport_closeTimeout_def new_events_def Transport_changeState_def WebSocket_event_def)

section \<open>Messages after a CLOSE frame\<close>

text \<open>
  The loop over the frames does not look at the state: a message that follows a CLOSE frame in the same chunk is
  handed over after the end has been reported, while in a chunk of its own it is dropped. The object does not see
  it in either case, as it has removed its callbacks when the end was reported.
\<close>

lemma message_after_close:
  assumes t: "mState t = Connected" "mIgnoreLength t = 0" "mBuffer t = []" "mRecvCallback t" "mPartial t = []"
    and close: "frame_ok (mMaxMessageSize t) (k, f)" "opcode f = CLOSE"
    and data: "frame_ok (mMaxMessageSize t) (k', g)" "opcode g = BINARY_FRAME" "fin g" "length (payload g) \<le> mMaxMessageSize t"
  shows "received (trace (WsTransport_feed E [enc (k, f) @ enc (k', g)] t)) =
      received (trace t) @ [Some (make_message (payload g) Binary)]"
    and "received (trace (WsTransport_feed E [enc (k, f), enc (k', g)] t)) = received (trace t)"
proof -
  define u where "u = Transport_changeState Disconnected (WsTransport_close E t)"
  from WsTransport_close_frame [of E t] obtain l n s c tr where
    cl: "WsTransport_close E t = t\<lparr>mCloseSent := c, mDraws := n, mLower := l, mState := s, trace := tr\<rparr>" by blast
  have rec: "received (trace u) = received (trace t)" by (simp add: u_def Transport_changeState_trace received_close)
  have u: "mState u = Disconnected" "mRecvCallback u" "mPartial u = []" "mMaxMessageSize u = mMaxMessageSize t"
    using t by (simp_all add: u_def cl Transport_changeState_def)
  have h: "WsTransport_handle E f t = (Inr (), u\<lparr>mBuffer := payload f\<rparr>)"
    using close(2) by (simp add: WsTransport_handle_def WsTransport_recvFrame_def u_def mBuffer_commute)
  define v where "v = snd (WsTransport_handle E g u)"
  have len: "frame_length g = length (payload g)" using data(1) by (simp add: frame_ok_def wf_frame_def)
  have hv: "WsTransport_handle E g u = (Inr (), v)" using handle_quiet(1) [of g E u] data(2) by (simp add: v_def prod_eq_iff)
  have v: "received (trace v) = received (trace u) @ [message_of (Binary, payload g)]"
    using handle_data(1) [OF _ len u(3) _ u(2) v_def] data(2-4) u(4) by simp
  have none: "WsTransport_frames E (w\<lparr>mBuffer := []\<rparr>) = (Inr (), w\<lparr>mBuffer := []\<rparr>)" for w :: "'a WsTransport"
    by (rule WsTransport_frames_None) (simp add: parseFrame_def)
  have ne: "enc (k, f) \<noteq> []" by (simp add: encodeFrame_def frame_header_def Let_def)
  have one: "WsTransport_frames E (t\<lparr>mBuffer := enc (k, f) @ rest\<rparr>) = WsTransport_frames E (u\<lparr>mBuffer := rest\<rparr>)" for rest
    using WsTransport_frames_encoded [OF close(1), of E "u\<lparr>mBuffer := payload f\<rparr>" rest] h by simp
  have two: "WsTransport_frames E (u\<lparr>mBuffer := enc (k', g)\<rparr>) = (Inr (), v\<lparr>mBuffer := []\<rparr>)"
    using WsTransport_frames_encoded [of u "(k', g)" E v "[]"] hv data(1) u(4) none [of v] by simp
  have "WsTransport_incoming E (Some (make_message (enc (k, f) @ enc (k', g)) Binary)) t = v\<lparr>mBuffer := []\<rparr>"
    by (rule WsTransport_incoming_data) (use t ne one two in simp_all)
  then show "received (trace (WsTransport_feed E [enc (k, f) @ enc (k', g)] t)) =
      received (trace t) @ [Some (make_message (payload g) Binary)]"
    using v rec by (simp add: WsTransport_feed_def message_of_def)
  have "WsTransport_incoming E (Some (make_message (enc (k, f)) Binary)) t = u\<lparr>mBuffer := []\<rparr>"
    by (rule WsTransport_incoming_data) (use t ne one [of "[]"] none [of u] in simp_all)
  then show "received (trace (WsTransport_feed E [enc (k, f), enc (k', g)] t)) = received (trace t)"
    using rec u(1) by (simp add: WsTransport_feed_def WsTransport_incoming_def)
qed
end
