(* ===== verification/Wsc_Interrupter.thy ===== *)
theory Wsc_Interrupter
  imports Wsc_PollService
begin

text \<open>
  The interrupter of the poll service on POSIX systems (\<open>src/impl/pollinterrupter.cpp\<close>), down to the calls of the operating
  system: a pipe whose two descriptors do not block. \<open>Wsc_PollService\<close> keeps of it the number of bytes in the pipe; that
  abstraction is justified here.
\<close>

section \<open>Pipes\<close>

datatype pipe_end = ReadEnd nat | WriteEnd nat

text \<open>
  The open descriptors, what lies in each pipe, the descriptors set to \<open>O_NONBLOCK\<close>, and the numbers not used yet.
  \<open>fcntl_works\<close> says whether \<open>F_SETFL\<close> has an effect; its result is not looked at.
\<close>

record os =
  fds :: "(nat \<times> pipe_end) list"
  content :: "nat \<Rightarrow> nat"
  capacity :: nat
  nonblocking :: "nat list"
  next_fd :: nat
  next_pipe :: nat
  fcntl_works :: bool

definition os_ok :: "os \<Rightarrow> bool" where
  "os_ok s \<longleftrightarrow> (\<forall>f \<in> fst ` set (fds s). f < next_fd s)"

definition os_pipe :: "os \<Rightarrow> (nat \<times> nat) \<times> os" where
  "os_pipe s =
     (let r = next_fd s; w = next_fd s + 1; p = next_pipe s
      in ((r, w), s\<lparr>fds := (r, ReadEnd p) # (w, WriteEnd p) # fds s, content := (content s)(p := 0),
                   next_fd := next_fd s + 2, next_pipe := p + 1\<rparr>))"

definition os_fcntl_nonblock :: "nat \<Rightarrow> os \<Rightarrow> os" where
  "os_fcntl_nonblock f s = (if fcntl_works s then s\<lparr>nonblocking := f # nonblocking s\<rparr> else s)"

definition os_close :: "nat \<Rightarrow> os \<Rightarrow> os" where
  "os_close f s = s\<lparr>fds := AList.delete f (fds s)\<rparr>"

text \<open>Writing and reading one byte: done, \<open>EAGAIN\<close>, another error, or the calling thread blocks.\<close>

datatype io = Done | WouldBlock | IoError | Blocks

definition os_write :: "nat \<Rightarrow> os \<Rightarrow> io \<times> os" where
  "os_write f s =
     (case map_of (fds s) f of
        Some (WriteEnd p) \<Rightarrow>
          if content s p < capacity s then (Done, s\<lparr>content := (content s)(p := content s p + 1)\<rparr>)
          else (if f \<in> set (nonblocking s) then WouldBlock else Blocks, s)
      | _ \<Rightarrow> (IoError, s))"

definition os_read :: "nat \<Rightarrow> os \<Rightarrow> io \<times> os" where
  "os_read f s =
     (case map_of (fds s) f of
        Some (ReadEnd p) \<Rightarrow>
          if content s p > 0 then (Done, s\<lparr>content := (content s)(p := content s p - 1)\<rparr>)
          else (if f \<in> set (nonblocking s) then WouldBlock else Blocks, s)
      | _ \<Rightarrow> (IoError, s))"

text \<open>Whether \<open>poll\<close> reports \<open>POLLIN\<close> for a descriptor.\<close>

definition os_readable :: "nat \<Rightarrow> os \<Rightarrow> bool" where
  "os_readable f s = (case map_of (fds s) f of Some (ReadEnd p) \<Rightarrow> content s p > 0 | _ \<Rightarrow> False)"

section \<open>The interrupter\<close>

record interrupter =
  mPipeIn :: nat
  mPipeOut :: nat

text \<open>The constructor; \<open>ok\<close> says whether \<open>pipe\<close> succeeds.\<close>

definition interrupter_new :: "bool \<Rightarrow> os \<Rightarrow> interrupter res \<times> os" where
  "interrupter_new ok s =
     (if \<not> ok then (Inl (runtime_error ''Failed to create pipe''), s)
      else case os_pipe s of ((p0, p1), s) \<Rightarrow>
        let s = os_fcntl_nonblock p1 (os_fcntl_nonblock p0 s)
        in (Inr \<lparr>mPipeIn = p0, mPipeOut = p1\<rparr>, s))"

definition interrupter_destroy :: "interrupter \<Rightarrow> os \<Rightarrow> os" where
  "interrupter_destroy i s = os_close (mPipeOut i) (os_close (mPipeIn i) s)"

text \<open>The descriptor it has polled, and for which events.\<close>

definition interrupter_prepare :: "interrupter \<Rightarrow> pollfd" where
  "interrupter_prepare i = \<lparr>fd = mPipeIn i, events_in = True, events_out = False\<rparr>"

text \<open>\<open>None\<close> while a call blocks. An error of the write is only logged.\<close>

definition interrupter_interrupt :: "interrupter \<Rightarrow> os \<Rightarrow> os option" where
  "interrupter_interrupt i s = (case os_write (mPipeOut i) s of (Blocks, s) \<Rightarrow> None | (_, s) \<Rightarrow> Some s)"

lemma os_read_Done:
  "os_read f s = (Done, s') \<Longrightarrow> \<exists>p. map_of (fds s) f = Some (ReadEnd p) \<and> content s p > 0 \<and> s' = s\<lparr>content := (content s)(p := content s p - 1)\<rparr>"
  by (auto simp: os_read_def split: option.splits pipe_end.splits if_splits)

function interrupter_drain :: "nat \<Rightarrow> os \<Rightarrow> os option" where
  "interrupter_drain f s =
     (case os_read f s of
        (Done, s) \<Rightarrow> interrupter_drain f s
      | (Blocks, s) \<Rightarrow> None
      | (_, s) \<Rightarrow> Some s)"
  by pat_completeness auto
termination
proof (relation "measure (\<lambda>(f, s). case map_of (fds s) f of Some (ReadEnd p) \<Rightarrow> content s p | _ \<Rightarrow> 0)", goal_cases)
  case (2 f s x s')
  then show ?case using os_read_Done [of f s s'] by auto
qed simp

declare interrupter_drain.simps [simp del]

definition interrupter_process :: "pollfd \<Rightarrow> bool \<Rightarrow> os \<Rightarrow> os option" where
  "interrupter_process pfd pollin s = (if pollin then interrupter_drain (fd pfd) s else Some s)"

section \<open>Its abstraction\<close>

definition interrupter_ok :: "interrupter \<Rightarrow> nat \<Rightarrow> os \<Rightarrow> bool" where
  "interrupter_ok i p s \<longleftrightarrow> map_of (fds s) (mPipeIn i) = Some (ReadEnd p) \<and> map_of (fds s) (mPipeOut i) = Some (WriteEnd p)
     \<and> mPipeIn i \<in> set (nonblocking s) \<and> mPipeOut i \<in> set (nonblocking s)"

text \<open>The bytes in the pipe are those that the poll service counts.\<close>

definition interrupter_abs :: "interrupter \<Rightarrow> nat \<Rightarrow> os \<Rightarrow> 'c PollService \<Rightarrow> bool" where
  "interrupter_abs i p s ps \<longleftrightarrow> interrupter_ok i p s \<and> content s p = mPipe ps \<and> capacity s = mPipeSize ps"

lemma interrupter_new_ok:
  assumes "fcntl_works s" "interrupter_new True s = (r, s')"
  shows "\<exists>i. r = Inr i \<and> interrupter_ok i (next_pipe s) s' \<and> content s' (next_pipe s) = 0 \<and> capacity s' = capacity s"
  using assms by (auto simp: interrupter_new_def os_pipe_def os_fcntl_nonblock_def Let_def interrupter_ok_def)

text \<open>Interrupting and draining never block, and do what the poll service takes them to do.\<close>

lemma interrupt_refines:
  assumes "interrupter_abs i p s ps"
  shows "\<exists>s'. interrupter_interrupt i s = Some s' \<and> interrupter_abs i p s' (PollInterrupter_interrupt ps)"
  using assms by (auto simp: interrupter_abs_def interrupter_ok_def interrupter_interrupt_def os_write_def PollInterrupter_interrupt_def)

lemma drain_empties:
  "interrupter_ok i p s \<Longrightarrow> interrupter_drain (mPipeIn i) s = Some (s\<lparr>content := (content s)(p := 0)\<rparr>)"
proof (induction "content s p" arbitrary: s)
  case 0
  then have "os_read (mPipeIn i) s = (WouldBlock, s)" "s\<lparr>content := (content s)(p := 0)\<rparr> = s"
    by (simp_all add: os_read_def interrupter_ok_def fun_upd_idem)
  then show ?case by (subst interrupter_drain.simps) simp
next
  case (Suc n)
  let ?s = "s\<lparr>content := (content s)(p := n)\<rparr>"
  have "os_read (mPipeIn i) s = (Done, ?s)" using Suc.prems Suc.hyps(2) [symmetric] by (simp add: os_read_def interrupter_ok_def)
  moreover have "interrupter_drain (mPipeIn i) ?s = Some (s\<lparr>content := (content s)(p := 0)\<rparr>)"
    using Suc.hyps(1) [of ?s] Suc.prems by (simp add: interrupter_ok_def)
  ultimately show ?case by (subst interrupter_drain.simps) simp
qed

lemma process_refines:
  assumes "interrupter_abs i p s ps"
  shows "\<exists>s'. interrupter_process (interrupter_prepare i) pollin s = Some s' \<and> interrupter_abs i p s' (PollInterrupter_process pollin ps)"
proof -
  have ok: "interrupter_ok i p s" using assms by (simp add: interrupter_abs_def)
  show ?thesis using assms drain_empties [OF ok]
    by (auto simp: interrupter_process_def interrupter_prepare_def interrupter_abs_def interrupter_ok_def PollInterrupter_process_def)
qed

text \<open>The descriptor that is polled is readable exactly while an interrupt has not been taken.\<close>

lemma prepared_readable:
  assumes "interrupter_abs i p s ps"
  shows "os_readable (fd (interrupter_prepare i)) s \<longleftrightarrow> mPipe ps > 0" "events_in (interrupter_prepare i)"
  using assms by (simp_all add: interrupter_abs_def interrupter_ok_def os_readable_def interrupter_prepare_def)

text \<open>What the constructor opens the destructor closes.\<close>

lemma interrupter_destroy_closes:
  assumes "os_ok s" "interrupter_new True s = (Inr i, s')" "fds s'' = fds s'"
  shows "fds (interrupter_destroy i s'') = fds s"
proof -
  have "AList.delete f (fds s) = fds s" if "f \<ge> next_fd s" for f
    using assms(1) that by (force simp: os_ok_def AList.delete_eq filter_id_conv)
  then show ?thesis using assms(2,3)
    by (auto simp: interrupter_new_def os_pipe_def os_fcntl_nonblock_def Let_def interrupter_destroy_def os_close_def split: if_splits)
qed

text \<open>If setting \<open>O_NONBLOCK\<close> has failed, which the constructor does not notice, taking an interrupt blocks the poll thread.\<close>

lemma process_blocks:
  assumes "map_of (fds s) f = Some (ReadEnd p)" "f \<notin> set (nonblocking s)"
  shows "interrupter_drain f s = None"
  using assms
proof (induction "content s p" arbitrary: s)
  case 0
  then show ?case by (subst interrupter_drain.simps) (simp add: os_read_def)
next
  case (Suc n)
  let ?s = "s\<lparr>content := (content s)(p := n)\<rparr>"
  have "os_read f s = (Done, ?s)" using Suc.prems Suc.hyps(2) [symmetric] by (simp add: os_read_def)
  with Suc.hyps(1) [of ?s] Suc.prems show ?case by (subst interrupter_drain.simps) simp
qed

end
