(* ===== verification/Wsc_HttpProxy.thy ===== *)
theory Wsc_HttpProxy
  imports Wsc_TcpTransport Wsc_Http
begin

text \<open>
  The HTTP proxy transport (\<open>src/impl/httpproxytransport.cpp\<close>): a \<open>CONNECT\<close> request to the proxy,
  and once the proxy has answered 200, a transparent byte stream in both directions. The lower
  transport is a parameter, as for the other transports.
\<close>

record 'l HttpProxyTransport = "'l Transport" +
  mProxyHostname :: string
  mProxyService :: string
  mProxyBuffer :: binary

definition HttpProxyTransport_new :: "'l \<Rightarrow> bool \<Rightarrow> string \<Rightarrow> string \<Rightarrow> bool \<Rightarrow> 'l HttpProxyTransport res" where
  "HttpProxyTransport_new lower lowerIsActive hostname service cb =
     (if \<not> lowerIsActive
      then Inl (logic_error ''HTTP proxy transport expects the lower transport to be active'')
      else Inr (Transport.extend (Transport_new (Some lower) cb) (HttpProxyTransport.fields hostname service [])))"

definition HttpProxyTransport_generateHttpRequest :: "'l HttpProxyTransport \<Rightarrow> string" where
  "HttpProxyTransport_generateHttpRequest t =
     ''CONNECT '' @ mProxyHostname t @ '':'' @ mProxyService t @ '' HTTP/1.1'' @ CRLF
     @ ''Host: '' @ mProxyHostname t @ CRLF @ CRLF"

definition HttpProxyTransport_parseHttpResponse :: "string \<Rightarrow> nat res" where
  "HttpProxyTransport_parseHttpResponse buffer =
     (case parseHttpLines buffer of (len, lines) \<Rightarrow>
        if len = 0 then Inr 0
        else case lines of
          [] \<Rightarrow> Inl (runtime_error ''Invalid response from HTTP proxy'')
        | status # _ \<Rightarrow>
            let code = status_code status
            in if code \<noteq> 200
               then Inl (runtime_error (''Unexpected response code '' @ to_string code @ '' from HTTP proxy''))
               else Inr len)"

definition HttpProxyTransport_sendHttpRequest ::
  "'l lower_ops \<Rightarrow> 'l HttpProxyTransport \<Rightarrow> bool res \<times> 'l HttpProxyTransport" where
  "HttpProxyTransport_sendHttpRequest ops t =
     Transport_outgoing ops
       (Some (make_message (bytes_of_string (HttpProxyTransport_generateHttpRequest t)) Binary)) t"

definition HttpProxyTransport_start :: "'l lower_ops \<Rightarrow> 'l HttpProxyTransport \<Rightarrow> unit res \<times> 'l HttpProxyTransport" where
  "HttpProxyTransport_start ops t =
     (let t = Transport_changeState Connecting (Transport_registerIncoming ops t)
      in case HttpProxyTransport_sendHttpRequest ops t of (r, t) \<Rightarrow> (map_sum id (\<lambda>_. ()) r, t))"

definition HttpProxyTransport_stop :: "'l lower_ops \<Rightarrow> 'l HttpProxyTransport \<Rightarrow> 'l HttpProxyTransport" where
  "HttpProxyTransport_stop ops t = Transport_unregisterIncoming ops t"

definition HttpProxyTransport_send ::
  "'l lower_ops \<Rightarrow> Message \<Rightarrow> 'l HttpProxyTransport \<Rightarrow> bool res \<times> 'l HttpProxyTransport" where
  "HttpProxyTransport_send ops message t =
     (if mState t \<noteq> Connected then (Inl (runtime_error ''HTTP proxy connection is not open''), t)
      else Transport_outgoing ops (Some message) t)"

text \<open>What \<open>incoming\<close> does after an exception or on the end of the stream.\<close>

definition HttpProxyTransport_incoming_end :: "'l HttpProxyTransport \<Rightarrow> 'l HttpProxyTransport" where
  "HttpProxyTransport_incoming_end t =
     (if mState t = Connected
      then Transport_recv None (Transport_changeState Disconnected t)
      else Transport_changeState Failed t)"

definition HttpProxyTransport_incoming :: "message_ptr \<Rightarrow> 'l HttpProxyTransport \<Rightarrow> 'l HttpProxyTransport" where
  "HttpProxyTransport_incoming message t =
     (if mState t \<noteq> Connecting \<and> mState t \<noteq> Connected then t
      else case message of
        None \<Rightarrow> HttpProxyTransport_incoming_end t
      | Some m \<Rightarrow>
          if mState t = Connecting then
            (let t = t\<lparr>mProxyBuffer := mProxyBuffer t @ data m\<rparr>
             in case HttpProxyTransport_parseHttpResponse (string_of_bytes (mProxyBuffer t)) of
                  Inl e \<Rightarrow> HttpProxyTransport_incoming_end t
                | Inr len \<Rightarrow>
                    if len = 0 then t
                    else
                      let t = (Transport_changeState Connected t)\<lparr>mProxyBuffer := drop len (mProxyBuffer t)\<rparr>
                      in if mProxyBuffer t \<noteq> []
                         then (Transport_recv (Some (make_message (mProxyBuffer t) Binary)) t)\<lparr>mProxyBuffer := []\<rparr>
                         else t)
          else Transport_recv (Some m) t)"

text \<open>
  \<open>send\<close> dereferences its argument; a null message, which no layer above passes, is the exception in
  \<open>proxy_ops\<close>.
\<close>

definition proxy_ops :: "'l lower_ops \<Rightarrow> 'l HttpProxyTransport lower_ops" where
  "proxy_ops ops =
     \<lparr>lower_send = (\<lambda>t m. case m of
          None \<Rightarrow> (Inl (logic_error ''null message''), t)
        | Some m \<Rightarrow> HttpProxyTransport_send ops m t),
      lower_onRecv = (\<lambda>t cb. Transport_onRecv cb t),
      lower_stop = HttpProxyTransport_stop ops\<rparr>"

section \<open>The tunnel\<close>

definition HttpProxyTransport_feed :: "binary list \<Rightarrow> 'l HttpProxyTransport \<Rightarrow> 'l HttpProxyTransport" where
  "HttpProxyTransport_feed cs t = fold (\<lambda>c. HttpProxyTransport_incoming (Some (make_message c Binary))) cs t"

lemma proxy_connected_step:
  assumes "mState t = Connected" "mRecvCallback t"
  shows "mState (HttpProxyTransport_incoming (Some m) t) = Connected"
    "mRecvCallback (HttpProxyTransport_incoming (Some m) t)"
    "delivered_bytes (HttpProxyTransport_incoming (Some m) t) = delivered_bytes t @ data m"
  using assms by (simp_all add: HttpProxyTransport_incoming_def delivered_bytes_def)

lemma proxy_connected_feed:
  "mState t = Connected \<Longrightarrow> mRecvCallback t \<Longrightarrow>
   mState (HttpProxyTransport_feed cs t) = Connected \<and> delivered_bytes (HttpProxyTransport_feed cs t) = delivered_bytes t @ concat cs"
proof (induction cs arbitrary: t)
  case (Cons c cs)
  note s = proxy_connected_step [OF Cons.prems, of "make_message c Binary"]
  from Cons.IH [OF s(1,2)] s(3) show ?case by (simp add: HttpProxyTransport_feed_def)
qed (simp add: HttpProxyTransport_feed_def)

text \<open>A response block whose status is 200 opens the tunnel; nothing before its last byte does.\<close>

lemma proxy_response_block:
  assumes "list_all http_line (status # hs)" "status_code status = 200"
  shows "HttpProxyTransport_parseHttpResponse (http_block (status # hs) @ rest) = Inr (length (http_block (status # hs)))"
  using parseHttpLines_block [OF assms(1), of rest] assms(2)
  by (simp add: HttpProxyTransport_parseHttpResponse_def Let_def)

lemma proxy_response_prefix:
  assumes "list_all http_line ls" "p @ q = http_block ls" "q \<noteq> []"
  shows "HttpProxyTransport_parseHttpResponse p = Inr 0"
  using parseHttpLines_prefix [OF assms] by (cases "parseHttpLines p") (simp add: HttpProxyTransport_parseHttpResponse_def)

lemma proxy_opening_feed:
  assumes ls: "list_all http_line (status # hs)" "status_code status = 200"
    and blk: "blk = bytes_of_string (http_block (status # hs))"
    and t: "mState t = Connecting" "mRecvCallback t"
    and s: "mProxyBuffer t @ concat cs = blk @ body" "length (mProxyBuffer t) < length blk"
  shows "mState (HttpProxyTransport_feed cs t) = Connected \<and>
    delivered_bytes (HttpProxyTransport_feed cs t) = delivered_bytes t @ body"
  using t s
proof (induction cs arbitrary: t)
  case Nil
  then show ?case by simp
next
  case (Cons c cs)
  let ?b = "mProxyBuffer t @ c"
  let ?u = "HttpProxyTransport_incoming (Some (make_message c Binary)) t"
  have feed: "HttpProxyTransport_feed (c # cs) t = HttpProxyTransport_feed cs ?u" by (simp add: HttpProxyTransport_feed_def)
  have b: "?b @ concat cs = blk @ body" using Cons.prems(3) by simp
  show ?case
  proof (cases "length ?b < length blk")
    case True
    with prefix_split [OF b [symmetric]] obtain q where q: "blk = ?b @ q" "q \<noteq> []"
      by (metis append_Nil2 less_imp_le_nat less_irrefl)
    have "string_of_bytes blk = http_block (status # hs)" by (simp add: blk)
    then have "string_of_bytes ?b @ string_of_bytes q = http_block (status # hs)" using q(1) by (metis map_append)
    from proxy_response_prefix [OF ls(1) this] q(2)
    have "HttpProxyTransport_parseHttpResponse (string_of_bytes ?b) = Inr 0" by simp
    then have u: "?u = t\<lparr>mProxyBuffer := ?b\<rparr>" using Cons.prems(1) by (simp add: HttpProxyTransport_incoming_def)
    have "delivered_bytes ?u = delivered_bytes t" unfolding u by (simp add: delivered_bytes_def)
    with Cons.IH [of ?u] u Cons.prems(1,2) b True show ?thesis by (simp add: feed)
  next
    case False
    with prefix_split [OF b] obtain rest where r: "?b = blk @ rest" by (metis not_less)
    then have body: "rest @ concat cs = body" using b by simp
    have "string_of_bytes ?b = http_block (status # hs) @ string_of_bytes rest" unfolding r by (simp add: blk)
    with proxy_response_block [OF ls] have p: "HttpProxyTransport_parseHttpResponse (string_of_bytes ?b) = Inr (length blk)"
      by (simp add: blk)
    have "length blk > 0" by (simp add: blk)
    with p r Cons.prems(1,2) have u: "mState ?u = Connected" "mRecvCallback ?u" "delivered_bytes ?u = delivered_bytes t @ rest"
      by (auto simp: HttpProxyTransport_incoming_def Let_def delivered_bytes_def Transport_changeState_def
          split: if_splits)
    from proxy_connected_feed [OF u(1,2), of cs] u(3) body show ?thesis by (simp add: feed)
  qed
qed

section \<open>The tunnel as a byte stream\<close>

definition proxy_usable :: "('l \<Rightarrow> bool) \<Rightarrow> 'l HttpProxyTransport \<Rightarrow> bool" where
  "proxy_usable usable t \<longleftrightarrow> mState t = Connected \<and> (\<exists>l. mLower t = Some l \<and> usable l)"

definition proxy_sent :: "('l \<Rightarrow> binary) \<Rightarrow> 'l HttpProxyTransport \<Rightarrow> binary" where
  "proxy_sent sent t = (case mLower t of None \<Rightarrow> [] | Some l \<Rightarrow> sent l)"

context byte_stream
begin

lemma proxy_send:
  assumes "proxy_usable usable t"
  shows "\<exists>b t'. lower_send (proxy_ops ops) t (Some m) = (Inr b, t') \<and> proxy_usable usable t'
    \<and> proxy_sent sent t' = proxy_sent sent t @ data m"
proof -
  from assms obtain l where l: "mState t = Connected" "mLower t = Some l" "usable l" by (auto simp: proxy_usable_def)
  from outgoing_accepts [OF l(2,3), of m] obtain b l' where
    "Transport_outgoing ops (Some m) t = (Inr b, t\<lparr>mLower := Some l'\<rparr>)" "usable l'" "sent l' = sent l @ data m"
    by metis
  with l show ?thesis
    by (simp add: proxy_ops_def HttpProxyTransport_send_def proxy_usable_def proxy_sent_def)
qed

lemma proxy_byte_stream: "byte_stream (proxy_ops ops) (proxy_usable usable) (proxy_sent sent)"
proof
  fix t :: "'l HttpProxyTransport" and m
  assume u: "proxy_usable usable t"
  from proxy_send [OF u] show "\<exists>b l'. lower_send (proxy_ops ops) t (Some m) = (Inr b, l')" by blast
  from u show "proxy_usable usable (lower_onRecv (proxy_ops ops) t b)" for b
    by (simp add: proxy_ops_def proxy_usable_def Transport_onRecv_def)
  fix r t'
  assume "lower_send (proxy_ops ops) t (Some m) = (r, t')"
  with proxy_send [OF u, of m] show "proxy_usable usable t'" "proxy_sent sent t' = proxy_sent sent t @ data m" by auto
qed (simp add: proxy_ops_def proxy_sent_def Transport_onRecv_def)

end

interpretation proxy_tcp: byte_stream "proxy_ops (tcp_ops E)" "proxy_usable (TcpTransport_usable E)"
  "proxy_sent TcpTransport_sent" for E :: "'a tcp_env"
  by (rule tcp.proxy_byte_stream)

end
