(* ===== verification/Wsc_Tls.thy ===== *)
theory Wsc_Tls
  imports Wsc_TcpTransport "HOL-Library.Sublist"
begin

unbundle bit_operations_syntax

text \<open>
  The TLS transport of the default build (\<open>src/impl/tlstransport.cpp\<close>, the OpenSSL branch, and
  \<open>check_error\<close> of \<open>src/impl/tls.cpp\<close>).

  \<^item> OpenSSL is a parameter: \<open>'s\<close> is a session object with its two memory BIOs and the error queue of
    the thread, and the record \<open>ssl_lib\<close> holds the functions that the transport calls on it. A
    function that can run the info callback returns the calls it made of it, in order; they are
    executed on the transport when the function returns, under the same mutex.
  \<^item> \<open>SSL_read\<close>, \<open>SSL_write\<close> and \<open>SSL_do_handshake\<close> stand for the call together with the
    \<open>SSL_get_error\<close> that follows it; the bytes in the caller's buffer are part of the result.
  \<^item> The loops of \<open>flushOutput\<close> and \<open>doRecv\<close> end when the library says so, so they are partial
    functions: \<open>None\<close> is a loop that never ends.
  \<^item> \<open>doRecv\<close> runs on the thread pool under \<open>mRecvMutex\<close> while the poll thread pushes to the incoming
    queue. One iteration of its loop is one step (\<open>doRecv_iteration\<close>), and the steps of both threads
    are interleaved in \<open>tls_step\<close>.
\<close>

datatype ssl_error =
    SSL_ERROR_NONE | SSL_ERROR_SSL | SSL_ERROR_WANT_READ | SSL_ERROR_WANT_WRITE
  | SSL_ERROR_WANT_X509_LOOKUP | SSL_ERROR_SYSCALL | SSL_ERROR_ZERO_RETURN
  | SSL_ERROR_WANT_CONNECT | SSL_ERROR_WANT_ACCEPT

type_synonym info = "32 word \<times> int"

record 's ssl_lib =
  SSL_do_handshake :: "'s \<Rightarrow> ssl_error \<times> info list \<times> 's"
  SSL_read :: "nat \<Rightarrow> 's \<Rightarrow> (binary \<times> ssl_error) \<times> info list \<times> 's"
  SSL_write :: "binary \<Rightarrow> 's \<Rightarrow> ssl_error \<times> info list \<times> 's"
  SSL_shutdown :: "'s \<Rightarrow> unit \<times> info list \<times> 's"
  BIO_write :: "binary \<Rightarrow> 's \<Rightarrow> 's"
  BIO_read :: "nat \<Rightarrow> 's \<Rightarrow> binary \<times> 's"
  ERR_peek_last_error :: "'s \<Rightarrow> nat"
  ERR_clear_error :: "'s \<Rightarrow> 's"
  error_string :: "nat \<Rightarrow> string"

record ('l, 's) TlsTransport = "'l Transport" +
  mTlsHost :: "string option"
  mTlsIsClient :: bool
  mIncomingQueue :: "Message Queue"
  mPendingRecvCount :: int
  mSsl :: 's

text \<open>The members a new transport starts with; what the constructor does to OpenSSL is in \<open>Wsc_TlsSetup\<close>.\<close>

definition TlsTransport_new :: "'l \<Rightarrow> bool \<Rightarrow> string option \<Rightarrow> 's \<Rightarrow> bool \<Rightarrow> ('l, 's) TlsTransport" where
  "TlsTransport_new lower lowerIsActive host ssl cb =
     Transport.extend (Transport_new (Some lower) cb)
       (TlsTransport.fields host lowerIsActive (Queue_new RECV_QUEUE_LIMIT (Some message_size_func)) 0 ssl)"

text \<open>
  \<open>weak_from_this().lock()\<close> fails once the last reference is gone, that is while the destructor
  runs \<open>stop\<close>; \<open>alive\<close> says which.
\<close>

definition enqueueRecv :: "bool \<Rightarrow> ('l, 's) TlsTransport \<Rightarrow> ('l, 's) TlsTransport" where
  "enqueueRecv alive t =
     (if mPendingRecvCount t > 0 then t
      else if alive then t\<lparr>mPendingRecvCount := mPendingRecvCount t + 1\<rparr> else t)"

definition SSL_CB_ALERT :: "32 word" where
  "SSL_CB_ALERT = 0x4000"

definition InfoCallback :: "info \<Rightarrow> ('l, 's) TlsTransport \<Rightarrow> ('l, 's) TlsTransport" where
  "InfoCallback i t =
     (if fst i AND SSL_CB_ALERT \<noteq> 0 then t\<lparr>mIncomingQueue := Queue_stop (mIncomingQueue t)\<rparr> else t)"

definition ssl_call ::
  "('s \<Rightarrow> 'r \<times> info list \<times> 's) \<Rightarrow> ('l, 's) TlsTransport \<Rightarrow> 'r \<times> ('l, 's) TlsTransport" where
  "ssl_call f t = (case f (mSsl t) of (r, is, s) \<Rightarrow> (r, fold InfoCallback is (t\<lparr>mSsl := s\<rparr>)))"

definition check_error ::
  "'s ssl_lib \<Rightarrow> ssl_error \<Rightarrow> string \<Rightarrow> ('l, 's) TlsTransport \<Rightarrow> bool res \<times> ('l, 's) TlsTransport" where
  "check_error L err message t =
     (let last_error = ERR_peek_last_error L (mSsl t);
          t = t\<lparr>mSsl := ERR_clear_error L (mSsl t)\<rparr>
      in if err = SSL_ERROR_NONE then (Inr True, t)
         else if err = SSL_ERROR_ZERO_RETURN
         then (Inl (runtime_error (message @ '': peer closed connection'')), t)
         else if err = SSL_ERROR_SYSCALL
         then (Inl (runtime_error (message @ '': fatal I/O error'')), t)
         else if err = SSL_ERROR_SSL
         then (Inl (runtime_error
                 (message @ (if last_error \<noteq> 0 then '': '' @ error_string L last_error else ''''))), t)
         else (Inr False, t))"

definition BUFFER_SIZE :: nat where
  "BUFFER_SIZE = 4096"

text \<open>The loop of \<open>flushOutput\<close>, with the \<open>result\<close> so far; an exception of \<open>outgoing\<close> leaves it.\<close>

partial_function (option) flushOutput_loop ::
  "'s ssl_lib \<Rightarrow> 'l lower_ops \<Rightarrow> bool \<Rightarrow> ('l, 's) TlsTransport \<Rightarrow> (bool res \<times> ('l, 's) TlsTransport) option" where
  "flushOutput_loop L ops result t =
     (case BIO_read L BUFFER_SIZE (mSsl t) of (buffer, s) \<Rightarrow>
        if buffer = [] then Some (Inr result, t\<lparr>mSsl := s\<rparr>)
        else case Transport_outgoing ops (Some (make_message buffer Binary)) (t\<lparr>mSsl := s\<rparr>) of (r, t) \<Rightarrow>
          case r of
            Inl e \<Rightarrow> Some (Inl e, t)
          | Inr b \<Rightarrow> flushOutput_loop L ops b t)"

definition flushOutput ::
  "'s ssl_lib \<Rightarrow> 'l lower_ops \<Rightarrow> ('l, 's) TlsTransport \<Rightarrow> (bool res \<times> ('l, 's) TlsTransport) option" where
  "flushOutput L ops t = flushOutput_loop L ops True t"

text \<open>A call of the library followed by \<open>flushOutput\<close>, under \<open>mSslMutex\<close>.\<close>

definition ssl_call_flush ::
  "'s ssl_lib \<Rightarrow> 'l lower_ops \<Rightarrow> ('s \<Rightarrow> 'r \<times> info list \<times> 's) \<Rightarrow> ('l, 's) TlsTransport
   \<Rightarrow> (('r \<times> bool) res \<times> ('l, 's) TlsTransport) option" where
  "ssl_call_flush L ops f t =
     (case ssl_call f t of (r, t) \<Rightarrow>
        Option.bind (flushOutput L ops t) (\<lambda>(res, t). Some (map_sum id (\<lambda>b. (r, b)) res, t)))"

definition TlsTransport_start ::
  "'s ssl_lib \<Rightarrow> 'l lower_ops \<Rightarrow> ('l, 's) TlsTransport \<Rightarrow> (unit res \<times> ('l, 's) TlsTransport) option" where
  "TlsTransport_start L ops t =
     (let t = Transport_changeState Connecting (Transport_registerIncoming ops t)
      in Option.bind (ssl_call_flush L ops (SSL_do_handshake L) t) (\<lambda>(r, t).
           case r of
             Inl e \<Rightarrow> Some (Inl e, t)
           | Inr (err, _) \<Rightarrow>
               (case check_error L err ''Handshake failed'' t of (c, t) \<Rightarrow> Some (map_sum id (\<lambda>_. ()) c, t))))"

definition TlsTransport_stop ::
  "bool \<Rightarrow> 'l lower_ops \<Rightarrow> ('l, 's) TlsTransport \<Rightarrow> ('l, 's) TlsTransport" where
  "TlsTransport_stop alive ops t =
     (let t = Transport_unregisterIncoming ops t
      in enqueueRecv alive (t\<lparr>mIncomingQueue := Queue_stop (mIncomingQueue t)\<rparr>))"

definition TlsTransport_outgoing ::
  "'l lower_ops \<Rightarrow> message_ptr \<Rightarrow> ('l, 's) TlsTransport \<Rightarrow> bool res \<times> ('l, 's) TlsTransport" where
  "TlsTransport_outgoing ops message t = Transport_outgoing ops message t"

definition TlsTransport_send ::
  "'s ssl_lib \<Rightarrow> 'l lower_ops \<Rightarrow> message_ptr \<Rightarrow> ('l, 's) TlsTransport \<Rightarrow> (bool res \<times> ('l, 's) TlsTransport) option" where
  "TlsTransport_send L ops message t =
     (if mState t \<noteq> Connected then Some (Inl (runtime_error ''TLS is not open''), t)
      else case message of
        None \<Rightarrow> Some (TlsTransport_outgoing ops None t)
      | Some m \<Rightarrow>
          if data m = [] then Some (TlsTransport_outgoing ops (Some m) t)
          else Option.bind (ssl_call_flush L ops (SSL_write L (data m)) t) (\<lambda>(r, t).
            case r of
              Inl e \<Rightarrow> Some (Inl e, t)
            | Inr (err, result) \<Rightarrow>
                (case check_error L err ''OpenSSL error'' t of
                   (Inl e, t) \<Rightarrow> Some (Inl e, t)
                 | (Inr ok, t) \<Rightarrow>
                     if ok then Some (Inr result, t)
                     else Some (Inl (runtime_error ''TLS send failed''), t))))"

text \<open>\<open>incoming\<close> blocks while a running queue is full: the result is then \<open>None\<close>.\<close>

definition TlsTransport_incoming ::
  "message_ptr \<Rightarrow> ('l, 's) TlsTransport \<Rightarrow> ('l, 's) TlsTransport option" where
  "TlsTransport_incoming message t =
     (case message of
        None \<Rightarrow> Some (enqueueRecv True (t\<lparr>mIncomingQueue := Queue_stop (mIncomingQueue t)\<rparr>))
      | Some m \<Rightarrow>
          Option.bind (Queue_push (mIncomingQueue t) m)
            (\<lambda>q. Some (enqueueRecv True (t\<lparr>mIncomingQueue := q\<rparr>))))"

section \<open>doRecv\<close>

text \<open>The inner loop, which reads until the library has nothing more; the error it stops on.\<close>

partial_function (option) doRecv_read ::
  "'s ssl_lib \<Rightarrow> 'l lower_ops \<Rightarrow> ('l, 's) TlsTransport \<Rightarrow> (ssl_error res \<times> ('l, 's) TlsTransport) option" where
  "doRecv_read L ops t =
     Option.bind (ssl_call_flush L ops (SSL_read L BUFFER_SIZE) t) (\<lambda>(r, t).
       case r of
         Inl e \<Rightarrow> Some (Inl e, t)
       | Inr ((buffer, err), _) \<Rightarrow>
           if err = SSL_ERROR_ZERO_RETURN then Some (Inr err, t)
           else case check_error L err ''OpenSSL error'' t of (c, t) \<Rightarrow>
             case c of
               Inl e \<Rightarrow> Some (Inl e, t)
             | Inr ok \<Rightarrow>
                 if ok then doRecv_read L ops (Transport_recv (Some (make_message buffer Binary)) t)
                 else Some (Inr err, t))"

text \<open>The handshake of an iteration; it does nothing in another state than \<open>Connecting\<close>.\<close>

definition doRecv_handshake ::
  "'s ssl_lib \<Rightarrow> 'l lower_ops \<Rightarrow> ('l, 's) TlsTransport \<Rightarrow> (unit res \<times> ('l, 's) TlsTransport) option" where
  "doRecv_handshake L ops t =
     (if mState t \<noteq> Connecting then Some (Inr (), t)
      else Option.bind (ssl_call_flush L ops (SSL_do_handshake L) t) (\<lambda>(r, t).
        case r of
          Inl e \<Rightarrow> Some (Inl e, t)
        | Inr (err, _) \<Rightarrow>
            (case check_error L err ''Handshake failed'' t of
               (Inl e, t) \<Rightarrow> Some (Inl e, t)
             | (Inr finished, t) \<Rightarrow>
                 Some (Inr (), if finished then Transport_changeState Connected t else t))))"

text \<open>
  How an iteration ends: with the next one, with the early return on an empty queue, by leaving the
  loop, or with an exception, which the handler of \<open>doRecv\<close> logs.
\<close>

datatype after_iteration = NextIteration | EarlyReturn | LeaveLoop | Thrown exn

definition doRecv_iteration ::
  "'s ssl_lib \<Rightarrow> 'l lower_ops \<Rightarrow> ('l, 's) TlsTransport \<Rightarrow> (after_iteration \<times> ('l, 's) TlsTransport) option" where
  "doRecv_iteration L ops t =
     (if \<not> Queue_running (mIncomingQueue t) then Some (LeaveLoop, t)
      else case Queue_pop (mIncomingQueue t) of
        (None, _) \<Rightarrow> Some (EarlyReturn, t)
      | (Some message, q) \<Rightarrow>
          let t = t\<lparr>mIncomingQueue := q\<rparr>;
              t = (if data message \<noteq> [] then t\<lparr>mSsl := BIO_write L (data message) (mSsl t)\<rparr>
                   else Transport_recv (Some message) t)
          in Option.bind (doRecv_handshake L ops t) (\<lambda>(r, t).
               case r of
                 Inl e \<Rightarrow> Some (Thrown e, t)
               | Inr _ \<Rightarrow>
                   if mState t = Connected then
                     Option.bind (doRecv_read L ops t) (\<lambda>(r, t).
                       case r of
                         Inl e \<Rightarrow> Some (Thrown e, t)
                       | Inr err \<Rightarrow>
                           Some (if err = SSL_ERROR_ZERO_RETURN then LeaveLoop else NextIteration, t))
                   else Some (NextIteration, t)))"

text \<open>After the loop: \<open>SSL_shutdown\<close> unless an exception was caught, then the last state.\<close>

definition doRecv_finish ::
  "'s ssl_lib \<Rightarrow> bool \<Rightarrow> ('l, 's) TlsTransport \<Rightarrow> ('l, 's) TlsTransport" where
  "doRecv_finish L thrown t =
     (let t = (if thrown then t else snd (ssl_call (SSL_shutdown L) t))
      in if mState t = Connected
         then Transport_recv None (Transport_changeState Disconnected t)
         else Transport_changeState Failed t)"

definition doRecv_begin :: "('l, 's) TlsTransport \<Rightarrow> bool \<times> ('l, 's) TlsTransport" where
  "doRecv_begin t =
     (let t = t\<lparr>mPendingRecvCount := mPendingRecvCount t - 1\<rparr>
      in (mState t = Connecting \<or> mState t = Connected, t))"

partial_function (option) doRecv_loop ::
  "'s ssl_lib \<Rightarrow> 'l lower_ops \<Rightarrow> ('l, 's) TlsTransport \<Rightarrow> ('l, 's) TlsTransport option" where
  "doRecv_loop L ops t =
     Option.bind (doRecv_iteration L ops t) (\<lambda>(a, t).
       case a of
         NextIteration \<Rightarrow> doRecv_loop L ops t
       | EarlyReturn \<Rightarrow> Some t
       | LeaveLoop \<Rightarrow> Some (doRecv_finish L False t)
       | Thrown e \<Rightarrow> Some (doRecv_finish L True t))"

definition doRecv ::
  "'s ssl_lib \<Rightarrow> 'l lower_ops \<Rightarrow> ('l, 's) TlsTransport \<Rightarrow> ('l, 's) TlsTransport option" where
  "doRecv L ops t = (case doRecv_begin t of (go, t) \<Rightarrow> if go then doRecv_loop L ops t else Some t)"

section \<open>What OpenSSL documents\<close>

text \<open>
  A session is observed through five functions: whether the handshake is over, the bytes written to
  its input BIO, the plaintext it has returned, the bytes its output BIO holds, and all the bytes it
  ever wrote there.
\<close>

record 's ssl_view =
  v_established :: "'s \<Rightarrow> bool"
  v_fed :: "'s \<Rightarrow> binary"
  v_taken :: "'s \<Rightarrow> binary"
  v_pending :: "'s \<Rightarrow> binary"
  v_wire :: "'s \<Rightarrow> binary"

definition same_input :: "'s ssl_view \<Rightarrow> 's \<Rightarrow> 's \<Rightarrow> bool" where
  "same_input V s s' \<longleftrightarrow> v_established V s' = v_established V s \<and> v_fed V s' = v_fed V s \<and> v_taken V s' = v_taken V s"

definition same_output :: "'s ssl_view \<Rightarrow> 's \<Rightarrow> 's \<Rightarrow> bool" where
  "same_output V s s' \<longleftrightarrow> v_pending V s' = v_pending V s \<and> v_wire V s' = v_wire V s"

definition writes :: "'s ssl_view \<Rightarrow> 's \<Rightarrow> 's \<Rightarrow> bool" where
  "writes V s s' \<longleftrightarrow> (\<exists>c. v_pending V s' = v_pending V s @ c \<and> v_wire V s' = v_wire V s @ c)"

definition no_alerts :: "info list \<Rightarrow> bool" where
  "no_alerts is \<longleftrightarrow> list_all (\<lambda>i. fst i AND SSL_CB_ALERT = 0) is"

text \<open>A memory BIO gives back what was written to it, in order; the error queue is no part of a session.\<close>

definition bio_documented :: "'s ssl_lib \<Rightarrow> 's ssl_view \<Rightarrow> bool" where
  "bio_documented L V \<longleftrightarrow>
     (\<forall>n s. n > 0 \<longrightarrow> (\<exists>s'. BIO_read L n s = (take n (v_pending V s), s') \<and>
        v_pending V s' = drop n (v_pending V s) \<and> v_wire V s' = v_wire V s \<and> same_input V s s')) \<and>
     (\<forall>b s. v_fed V (BIO_write L b s) = v_fed V s @ b \<and> v_taken V (BIO_write L b s) = v_taken V s \<and>
        v_established V (BIO_write L b s) = v_established V s \<and> same_output V s (BIO_write L b s)) \<and>
     (\<forall>s. same_input V s (ERR_clear_error L s) \<and> same_output V s (ERR_clear_error L s))"

text \<open>
  The record layer, while what is fed to the session is what a conforming peer sends: \<open>peer\<close> is all
  the bytes of the peer, \<open>dec b\<close> the application data in the records that \<open>b\<close> completes, and \<open>enc b\<close>
  the same for what this side has written. \<open>SSL_read\<close> returns the data in order, at most a buffer at
  a time, and wants more input when there is none; the handshake wants more input until it is over,
  and no application data comes before that; \<open>SSL_write\<close> writes all of its argument.
\<close>

definition handshake_documented ::
  "'s ssl_lib \<Rightarrow> 's ssl_view \<Rightarrow> binary \<Rightarrow> (binary \<Rightarrow> binary) \<Rightarrow> (binary \<Rightarrow> binary) \<Rightarrow> bool" where
  "handshake_documented L V peer dec enc \<longleftrightarrow>
     (\<forall>s. prefix (v_fed V s) peer \<longrightarrow> (\<exists>err is s'. SSL_do_handshake L s = (err, is, s') \<and> no_alerts is \<and>
        v_fed V s' = v_fed V s \<and> v_taken V s' = v_taken V s \<and> writes V s s' \<and> enc (v_wire V s') = enc (v_wire V s) \<and>
        (if v_established V s' then err = SSL_ERROR_NONE
         else err = SSL_ERROR_WANT_READ \<and> dec (v_fed V s) = [])))"

definition read_documented ::
  "'s ssl_lib \<Rightarrow> 's ssl_view \<Rightarrow> binary \<Rightarrow> (binary \<Rightarrow> binary) \<Rightarrow> (binary \<Rightarrow> binary) \<Rightarrow> bool" where
  "read_documented L V peer dec enc \<longleftrightarrow>
     (\<forall>n s. n > 0 \<and> prefix (v_fed V s) peer \<and> v_established V s \<and> prefix (v_taken V s) (dec (v_fed V s)) \<longrightarrow>
        (\<exists>b err is s'. SSL_read L n s = ((b, err), is, s') \<and> no_alerts is \<and>
           v_fed V s' = v_fed V s \<and> v_established V s' \<and> writes V s s' \<and> enc (v_wire V s') = enc (v_wire V s) \<and>
           (if v_taken V s = dec (v_fed V s) then err = SSL_ERROR_WANT_READ \<and> v_taken V s' = v_taken V s
            else err = SSL_ERROR_NONE \<and> b \<noteq> [] \<and> length b \<le> n \<and> v_taken V s' = v_taken V s @ b \<and>
                 prefix (v_taken V s') (dec (v_fed V s)))))"

definition write_documented ::
  "'s ssl_lib \<Rightarrow> 's ssl_view \<Rightarrow> binary \<Rightarrow> (binary \<Rightarrow> binary) \<Rightarrow> bool" where
  "write_documented L V peer enc \<longleftrightarrow>
     (\<forall>b s. b \<noteq> [] \<and> prefix (v_fed V s) peer \<and> v_established V s \<longrightarrow>
        (\<exists>is s'. SSL_write L b s = (SSL_ERROR_NONE, is, s') \<and> no_alerts is \<and> same_input V s s' \<and>
           writes V s s' \<and> enc (v_wire V s') = enc (v_wire V s) @ b))"

definition ssl_documented ::
  "'s ssl_lib \<Rightarrow> 's ssl_view \<Rightarrow> binary \<Rightarrow> (binary \<Rightarrow> binary) \<Rightarrow> (binary \<Rightarrow> binary) \<Rightarrow> bool" where
  "ssl_documented L V peer dec enc \<longleftrightarrow>
     bio_documented L V \<and> handshake_documented L V peer dec enc \<and> read_documented L V peer dec enc \<and>
     write_documented L V peer enc \<and> (\<forall>a b. prefix a b \<and> prefix b peer \<longrightarrow> prefix (dec a) (dec b))"

lemma Tls_base_simps [simp]:
  "mSsl (Transport_recv m t) = mSsl t" "mIncomingQueue (Transport_recv m t) = mIncomingQueue t"
  "mPendingRecvCount (Transport_recv m t) = mPendingRecvCount t"
  "mSsl (Transport_changeState s t) = mSsl t" "mIncomingQueue (Transport_changeState s t) = mIncomingQueue t"
  "mPendingRecvCount (Transport_changeState s t) = mPendingRecvCount t"
  by (simp_all add: Transport_recv_def Transport_changeState_def)

lemma InfoCallback_no_alerts: "no_alerts is \<Longrightarrow> fold InfoCallback is t = t"
  by (induction "is" arbitrary: t) (simp_all add: no_alerts_def InfoCallback_def)

lemma BIO_read_pending:
  assumes "bio_documented L V" "n > 0"
  obtains s' where "BIO_read L n s = (take n (v_pending V s), s')" "v_pending V s' = drop n (v_pending V s)"
    "v_wire V s' = v_wire V s" "same_input V s s'"
  using assms unfolding bio_documented_def by blast

lemma BUFFER_SIZE_pos [simp]: "0 < BUFFER_SIZE" "BUFFER_SIZE \<noteq> 0"
  by (simp_all add: BUFFER_SIZE_def)

lemma same_input_trans: "same_input V s s' \<Longrightarrow> same_input V s' s'' \<Longrightarrow> same_input V s s''"
  by (simp add: same_input_def)

text \<open>
  The link to the transport below: it has taken, after the first \<open>n\<close> bytes of its stream, everything
  the session has written.
\<close>

definition tls_linked ::
  "('l \<Rightarrow> bool) \<Rightarrow> ('l \<Rightarrow> binary) \<Rightarrow> nat \<Rightarrow> 's ssl_view \<Rightarrow> ('l, 's) TlsTransport \<Rightarrow> bool" where
  "tls_linked usable sent n V t \<longleftrightarrow>
     (\<exists>l. mLower t = Some l \<and> usable l \<and> n \<le> length (sent l) \<and> drop n (sent l) = v_wire V (mSsl t)
        \<and> v_pending V (mSsl t) = [])"

lemma tls_linked_cong:
  assumes "tls_linked usable sent n V t" "mLower t' = mLower t" "same_output V (mSsl t) (mSsl t')"
  shows "tls_linked usable sent n V t'"
  using assms by (simp add: tls_linked_def same_output_def)

lemma check_error_ok:
  "check_error L SSL_ERROR_NONE m t = (Inr True, t\<lparr>mSsl := ERR_clear_error L (mSsl t)\<rparr>)"
  "check_error L SSL_ERROR_WANT_READ m t = (Inr False, t\<lparr>mSsl := ERR_clear_error L (mSsl t)\<rparr>)"
  by (simp_all add: check_error_def Let_def)

lemma ERR_clear_same:
  assumes "bio_documented L V"
  shows "same_input V s (ERR_clear_error L s)" "same_output V s (ERR_clear_error L s)"
  using assms by (simp_all add: bio_documented_def)

context byte_stream
begin

text \<open>\<open>flushOutput\<close> ends and hands everything in the output BIO to the transport below, in order.\<close>

lemma flushOutput_loop_all:
  assumes bio: "bio_documented L V" and t: "mLower t = Some l" "usable l"
  obtains b l' s' where
    "flushOutput_loop L ops r t = Some (Inr b, t\<lparr>mLower := Some l', mSsl := s'\<rparr>)"
    "usable l'" "sent l' = sent l @ v_pending V (mSsl t)" "v_pending V s' = []" "v_wire V s' = v_wire V (mSsl t)"
    "same_input V (mSsl t) s'"
  using t
proof (induction "length (v_pending V (mSsl t))" arbitrary: t l r thesis rule: less_induct)
  case less
  let ?p = "v_pending V (mSsl t)"
  obtain s1 where s1: "BIO_read L BUFFER_SIZE (mSsl t) = (take BUFFER_SIZE ?p, s1)"
    "v_pending V s1 = drop BUFFER_SIZE ?p" "v_wire V s1 = v_wire V (mSsl t)" "same_input V (mSsl t) s1"
    by (rule BIO_read_pending [OF bio BUFFER_SIZE_pos(1)])
  show thesis
  proof (cases "?p = []")
    case True
    with s1(1) less.prems(2) have "flushOutput_loop L ops r t = Some (Inr r, t\<lparr>mLower := Some l, mSsl := s1\<rparr>)"
      by (subst flushOutput_loop.simps) (cases t, simp)
    then show thesis using less.prems(1,3) s1 True by auto
  next
    case False
    let ?t1 = "t\<lparr>mSsl := s1\<rparr>"
    let ?m = "make_message (take BUFFER_SIZE ?p) Binary"
    have "mLower ?t1 = Some l" using less.prems(2) by simp
    then obtain b1 l1 where o1: "Transport_outgoing ops (Some ?m) ?t1 = (Inr b1, ?t1\<lparr>mLower := Some l1\<rparr>)"
      "usable l1" "sent l1 = sent l @ data ?m" using outgoing_accepts less.prems(3) by blast
    let ?t2 = "?t1\<lparr>mLower := Some l1\<rparr>"
    have "length (v_pending V (mSsl ?t2)) < length ?p" using s1(2) False by simp
    from less.hyps [OF this, of b1 l1] o1(2) obtain b l' s' where
      f: "flushOutput_loop L ops b1 ?t2 = Some (Inr b, ?t2\<lparr>mLower := Some l', mSsl := s'\<rparr>)"
      "usable l'" "sent l' = sent l1 @ v_pending V s1" "v_pending V s' = []" "v_wire V s' = v_wire V s1" "same_input V s1 s'"
      by auto
    have "flushOutput_loop L ops r t = Some (Inr b, t\<lparr>mLower := Some l', mSsl := s'\<rparr>)"
      using s1(1) False o1(1) f(1) by (subst flushOutput_loop.simps) simp
    moreover have "sent l' = sent l @ ?p" using f(3) o1(3) s1(2) by (simp add: make_message_full_def)
    ultimately show thesis using less.prems(1) f s1 same_input_trans by metis
  qed
qed

text \<open>A call of the library without an alert, and the flush after it: the link is kept.\<close>

lemma ssl_call_flush_linked:
  assumes bio: "bio_documented L V" and t: "tls_linked usable sent n V t"
    and f: "f (mSsl t) = (r, is, s1)" "no_alerts is" "writes V (mSsl t) s1"
  obtains b l' s' where
    "ssl_call_flush L ops f t = Some (Inr (r, b), t\<lparr>mLower := Some l', mSsl := s'\<rparr>)"
    "tls_linked usable sent n V (t\<lparr>mLower := Some l', mSsl := s'\<rparr>)" "v_wire V s' = v_wire V s1" "same_input V s1 s'"
proof -
  from t obtain l where l: "mLower t = Some l" "usable l" "n \<le> length (sent l)" "drop n (sent l) = v_wire V (mSsl t)"
    "v_pending V (mSsl t) = []" by (auto simp: tls_linked_def)
  let ?t1 = "t\<lparr>mSsl := s1\<rparr>"
  have call: "ssl_call f t = (r, ?t1)" using f by (simp add: ssl_call_def InfoCallback_no_alerts)
  obtain c where c: "v_pending V s1 = c" "v_wire V s1 = v_wire V (mSsl t) @ c"
    using f(3) l(5) by (auto simp: writes_def)
  have "mLower ?t1 = Some l" using l(1) by simp
  from flushOutput_loop_all [OF bio this l(2), of True] obtain b l' s' where
    fl: "flushOutput_loop L ops True ?t1 = Some (Inr b, ?t1\<lparr>mLower := Some l', mSsl := s'\<rparr>)" "usable l'"
      "sent l' = sent l @ v_pending V (mSsl ?t1)" "v_pending V s' = []" "v_wire V s' = v_wire V (mSsl ?t1)"
      "same_input V (mSsl ?t1) s'" by metis
  have "ssl_call_flush L ops f t = Some (Inr (r, b), t\<lparr>mLower := Some l', mSsl := s'\<rparr>)"
    using call fl(1) by (simp add: ssl_call_flush_def flushOutput_def)
  moreover have "tls_linked usable sent n V (t\<lparr>mLower := Some l', mSsl := s'\<rparr>)"
    using fl l c by (simp add: tls_linked_def)
  ultimately show thesis using that fl by simp
qed

text \<open>\<open>doRecv_read\<close> ends, and hands up all the application data that has arrived.\<close>

lemma doRecv_read_all:
  assumes doc: "bio_documented L V" "read_documented L V peer dec enc" and t: "tls_linked usable sent n V t"
    and s: "prefix (v_fed V (mSsl t)) peer" "v_established V (mSsl t)" "prefix (v_taken V (mSsl t)) (dec (v_fed V (mSsl t)))"
  obtains cs l' s' t' where
    "t' = t\<lparr>mLower := Some l', mSsl := s', trace := trace t @
       (if mRecvCallback t then map (\<lambda>c. RecvCallback (Some (make_message c Binary))) cs else [])\<rparr>"
    "doRecv_read L ops t = Some (Inr SSL_ERROR_WANT_READ, t')" "tls_linked usable sent n V t'"
    "v_established V s'" "v_fed V s' = v_fed V (mSsl t)" "v_taken V s' = dec (v_fed V (mSsl t))"
    "v_taken V (mSsl t) @ concat cs = dec (v_fed V (mSsl t))" "enc (v_wire V s') = enc (v_wire V (mSsl t))"
  using t s
proof (induction "length (dec (v_fed V (mSsl t))) - length (v_taken V (mSsl t))" arbitrary: t thesis rule: less_induct)
  case less
  let ?s = "mSsl t"
  let ?all = "dec (v_fed V ?s)"
  from doc(2) less.prems(3-5) obtain b err "is" s1 where
    r: "SSL_read L BUFFER_SIZE ?s = ((b, err), is, s1)" "no_alerts is" "v_fed V s1 = v_fed V ?s" "v_established V s1"
      "writes V ?s s1" "enc (v_wire V s1) = enc (v_wire V ?s)"
      "if v_taken V ?s = ?all then err = SSL_ERROR_WANT_READ \<and> v_taken V s1 = v_taken V ?s
       else err = SSL_ERROR_NONE \<and> b \<noteq> [] \<and> length b \<le> BUFFER_SIZE \<and> v_taken V s1 = v_taken V ?s @ b \<and>
            prefix (v_taken V s1) ?all"
    unfolding read_documented_def by (metis BUFFER_SIZE_pos(1))
  obtain bb l2 s2 where
    c: "ssl_call_flush L ops (SSL_read L BUFFER_SIZE) t = Some (Inr ((b, err), bb), t\<lparr>mLower := Some l2, mSsl := s2\<rparr>)"
      "tls_linked usable sent n V (t\<lparr>mLower := Some l2, mSsl := s2\<rparr>)" "v_wire V s2 = v_wire V s1" "same_input V s1 s2"
    by (rule ssl_call_flush_linked [where f = "SSL_read L BUFFER_SIZE", OF doc(1) less.prems(2) r(1,2,5)])
  let ?s3 = "ERR_clear_error L s2"
  let ?t3 = "t\<lparr>mLower := Some l2, mSsl := ?s3\<rparr>"
  note e = ERR_clear_same [OF doc(1), of s2]
  have t3: "tls_linked usable sent n V ?t3" by (rule tls_linked_cong [OF c(2)]) (simp_all add: e)
  have s3: "v_established V ?s3" "v_fed V ?s3 = v_fed V ?s" "v_taken V ?s3 = v_taken V s1" "enc (v_wire V ?s3) = enc (v_wire V ?s)"
    using e c(3,4) r(3,4,6) by (simp_all add: same_input_def same_output_def)
  show thesis
  proof (cases "v_taken V ?s = ?all")
    case True
    with r(7) have err: "err = SSL_ERROR_WANT_READ" and tk: "v_taken V s1 = v_taken V ?s" by simp_all
    have "doRecv_read L ops t = Some (Inr SSL_ERROR_WANT_READ, ?t3)"
      by (subst doRecv_read.simps) (simp add: c(1) err check_error_ok)
    then show thesis using less.prems(1) [where t' = ?t3 and l' = l2 and s' = ?s3 and cs = "[]"] t3 s3 tk True by simp
  next
    case False
    with r(7) have err: "err = SSL_ERROR_NONE" and b: "b \<noteq> []" "v_taken V s1 = v_taken V ?s @ b" "prefix (v_taken V s1) ?all"
      by (auto simp: False)
    let ?t4 = "Transport_recv (Some (make_message b Binary)) ?t3"
    have s4: "mSsl ?t4 = ?s3" by simp
    have read: "doRecv_read L ops t = doRecv_read L ops ?t4"
      by (subst doRecv_read.simps) (simp add: c(1) err check_error_ok)
    have lt: "length (dec (v_fed V (mSsl ?t4))) - length (v_taken V (mSsl ?t4)) < length ?all - length (v_taken V ?s)"
      using b prefix_length_le [OF b(3)] by (cases b) (simp_all add: s3)
    have t4: "tls_linked usable sent n V ?t4" by (rule tls_linked_cong [OF t3]) (simp_all add: s4 same_output_def)
    have p4: "prefix (v_fed V (mSsl ?t4)) peer" "v_established V (mSsl ?t4)" "prefix (v_taken V (mSsl ?t4)) (dec (v_fed V (mSsl ?t4)))"
      using less.prems(3) s3 b by (simp_all add: s4)
    show thesis
    proof (rule less.hyps [OF lt _ t4 p4])
      fix cs l' s' t'
      assume h: "t' = ?t4\<lparr>mLower := Some l', mSsl := s', trace := trace ?t4 @
           (if mRecvCallback ?t4 then map (\<lambda>c. RecvCallback (Some (make_message c Binary))) cs else [])\<rparr>"
        "doRecv_read L ops ?t4 = Some (Inr SSL_ERROR_WANT_READ, t')" "tls_linked usable sent n V t'"
        "v_established V s'" "v_fed V s' = v_fed V (mSsl ?t4)" "v_taken V s' = dec (v_fed V (mSsl ?t4))"
        "v_taken V (mSsl ?t4) @ concat cs = dec (v_fed V (mSsl ?t4))" "enc (v_wire V s') = enc (v_wire V (mSsl ?t4))"
      have t': "t' = t\<lparr>mLower := Some l', mSsl := s', trace := trace t @
         (if mRecvCallback t then map (\<lambda>c. RecvCallback (Some (make_message c Binary))) (b # cs) else [])\<rparr>"
        unfolding h(1) by (simp add: Transport_recv_def)
      show thesis
        by (rule less.prems(1) [OF t']) (use h read s3 b s4 in simp_all)
    qed
  qed
qed

end

section \<open>Sending\<close>

text \<open>
  The TLS transport as the transport below another one. A call of \<open>send\<close> that does not return has no
  result; \<open>tls_ops\<close> gives it an exception.
\<close>

definition tls_ops :: "'s ssl_lib \<Rightarrow> 'l lower_ops \<Rightarrow> ('l, 's) TlsTransport lower_ops" where
  "tls_ops L ops =
     \<lparr>lower_send = (\<lambda>t m. case TlsTransport_send L ops m t of
          None \<Rightarrow> (Inl (logic_error ''no return''), t)
        | Some r \<Rightarrow> r),
      lower_onRecv = (\<lambda>t cb. Transport_onRecv cb t),
      lower_stop = TlsTransport_stop True ops\<rparr>"

definition tls_usable ::
  "('l \<Rightarrow> bool) \<Rightarrow> ('l \<Rightarrow> binary) \<Rightarrow> nat \<Rightarrow> 's ssl_view \<Rightarrow> binary \<Rightarrow> ('l, 's) TlsTransport \<Rightarrow> bool" where
  "tls_usable usable sent n V peer t \<longleftrightarrow>
     mState t = Connected \<and> tls_linked usable sent n V t \<and> v_established V (mSsl t) \<and> prefix (v_fed V (mSsl t)) peer"

definition tls_sent ::
  "('l \<Rightarrow> binary) \<Rightarrow> nat \<Rightarrow> (binary \<Rightarrow> binary) \<Rightarrow> ('l, 's) TlsTransport \<Rightarrow> binary" where
  "tls_sent sent n enc t = (case mLower t of None \<Rightarrow> [] | Some l \<Rightarrow> enc (drop n (sent l)))"

lemma tls_sent_linked: "tls_linked usable sent n V t \<Longrightarrow> tls_sent sent n enc t = enc (v_wire V (mSsl t))"
  by (auto simp: tls_linked_def tls_sent_def)

context byte_stream
begin

text \<open>A message sent on an open transport is written whole and everything it produced is handed down.\<close>

lemma TlsTransport_send_linked:
  assumes doc: "ssl_documented L V peer dec enc" and t: "mState t = Connected" "tls_linked usable sent n V t"
    "v_established V (mSsl t)" "prefix (v_fed V (mSsl t)) peer"
  obtains b l' s' where
    "TlsTransport_send L ops (Some m) t = Some (Inr b, t\<lparr>mLower := Some l', mSsl := s'\<rparr>)"
    "tls_linked usable sent n V (t\<lparr>mLower := Some l', mSsl := s'\<rparr>)" "same_input V (mSsl t) s'"
    "enc (v_wire V s') = enc (v_wire V (mSsl t)) @ data m"
proof (cases "data m = []")
  case True
  from t(2) obtain l where l: "mLower t = Some l" "usable l" "n \<le> length (sent l)" "drop n (sent l) = v_wire V (mSsl t)"
    "v_pending V (mSsl t) = []" by (auto simp: tls_linked_def)
  from outgoing_accepts [OF l(1,2), of m] obtain b l' where
    o: "Transport_outgoing ops (Some m) t = (Inr b, t\<lparr>mLower := Some l'\<rparr>)" "usable l'" "sent l' = sent l @ data m" by blast
  have eq: "t\<lparr>mLower := Some l', mSsl := mSsl t\<rparr> = t\<lparr>mLower := Some l'\<rparr>" by (cases t) simp
  show thesis
  proof (rule that [where b = b and l' = l' and s' = "mSsl t"])
    show "TlsTransport_send L ops (Some m) t = Some (Inr b, t\<lparr>mLower := Some l', mSsl := mSsl t\<rparr>)"
      using t(1) True o(1) unfolding eq by (simp add: TlsTransport_send_def TlsTransport_outgoing_def)
    show "tls_linked usable sent n V (t\<lparr>mLower := Some l', mSsl := mSsl t\<rparr>)"
      using l o True by (simp add: tls_linked_def)
  qed (simp_all add: same_input_def True)
next
  case False
  have bio: "bio_documented L V" and wr: "write_documented L V peer enc" using doc by (simp_all add: ssl_documented_def)
  from wr False t(3,4) obtain "is" s1 where w: "SSL_write L (data m) (mSsl t) = (SSL_ERROR_NONE, is, s1)" "no_alerts is"
    "writes V (mSsl t) s1" "same_input V (mSsl t) s1" "enc (v_wire V s1) = enc (v_wire V (mSsl t)) @ data m"
    unfolding write_documented_def by metis
  obtain b l2 s2 where
    c: "ssl_call_flush L ops (SSL_write L (data m)) t = Some (Inr (SSL_ERROR_NONE, b), t\<lparr>mLower := Some l2, mSsl := s2\<rparr>)"
      "tls_linked usable sent n V (t\<lparr>mLower := Some l2, mSsl := s2\<rparr>)" "v_wire V s2 = v_wire V s1" "same_input V s1 s2"
    by (rule ssl_call_flush_linked [where f = "SSL_write L (data m)", OF bio t(2) w(1-3)])
  note e = ERR_clear_same [OF bio, of s2]
  show thesis
  proof (rule that [where b = b and l' = l2 and s' = "ERR_clear_error L s2"])
    show "TlsTransport_send L ops (Some m) t = Some (Inr b, t\<lparr>mLower := Some l2, mSsl := ERR_clear_error L s2\<rparr>)"
      using t(1) False c(1) by (simp add: TlsTransport_send_def check_error_ok)
    show "tls_linked usable sent n V (t\<lparr>mLower := Some l2, mSsl := ERR_clear_error L s2\<rparr>)"
      by (rule tls_linked_cong [OF c(2)]) (simp_all add: e)
  qed (use e c w in \<open>simp_all add: same_input_def same_output_def\<close>)
qed

lemma tls_byte_stream:
  assumes doc: "ssl_documented L V peer dec enc"
  shows "byte_stream (tls_ops L ops) (tls_usable usable sent n V peer) (tls_sent sent n enc)"
proof
  fix t m
  assume u: "tls_usable usable sent n V peer t"
  then have t: "mState t = Connected" "tls_linked usable sent n V t" "v_established V (mSsl t)" "prefix (v_fed V (mSsl t)) peer"
    by (simp_all add: tls_usable_def)
  from u show "tls_usable usable sent n V peer (lower_onRecv (tls_ops L ops) t b)" for b
    by (simp add: tls_ops_def tls_usable_def tls_linked_def Transport_onRecv_def)
  obtain b l' s' where s: "TlsTransport_send L ops (Some m) t = Some (Inr b, t\<lparr>mLower := Some l', mSsl := s'\<rparr>)"
    "tls_linked usable sent n V (t\<lparr>mLower := Some l', mSsl := s'\<rparr>)" "same_input V (mSsl t) s'"
    "enc (v_wire V s') = enc (v_wire V (mSsl t)) @ data m"
    by (rule TlsTransport_send_linked [OF doc t])
  then have eq: "lower_send (tls_ops L ops) t (Some m) = (Inr b, t\<lparr>mLower := Some l', mSsl := s'\<rparr>)" by (simp add: tls_ops_def)
  from eq show "\<exists>b l'. lower_send (tls_ops L ops) t (Some m) = (Inr b, l')" by blast
  fix r t'
  assume "lower_send (tls_ops L ops) t (Some m) = (r, t')"
  with eq have t': "t' = t\<lparr>mLower := Some l', mSsl := s'\<rparr>" by simp
  show "tls_usable usable sent n V peer t'" using s t unfolding t' by (simp add: tls_usable_def same_input_def)
  show "tls_sent sent n enc t' = tls_sent sent n enc t @ data m"
    unfolding tls_sent_linked [OF t(2)] t' tls_sent_linked [OF s(2)] using s(4) by simp
qed (simp add: tls_ops_def tls_sent_def Transport_onRecv_def)

end

end
