(* ===== verification/Wsc_TlsReceive.thy ===== *)
theory Wsc_TlsReceive
  imports Wsc_Tls
begin

text \<open>
  What the TLS transport of \<open>Wsc_Tls\<close> receives: one iteration of the loop of \<open>doRecv\<close>, then the steps of
  the poll thread, of the thread pool and of a sender in any order, with the invariant that everything that
  arrived is decrypted and handed up in order and that no message is left behind without a task.
\<close>

section \<open>Receiving\<close>

text \<open>
  A transport at work: linked, fed with a prefix of what the peer sends, and everything decrypted so far
  handed up.
\<close>

definition tls_working ::
  "('l \<Rightarrow> bool) \<Rightarrow> ('l \<Rightarrow> binary) \<Rightarrow> nat \<Rightarrow> 's ssl_view \<Rightarrow> (binary \<Rightarrow> binary) \<Rightarrow> ('l, 's) TlsTransport \<Rightarrow> bool" where
  "tls_working usable sent n V dec t \<longleftrightarrow>
     tls_linked usable sent n V t \<and> mRecvCallback t \<and> v_taken V (mSsl t) = dec (v_fed V (mSsl t)) \<and>
     delivered_bytes t = dec (v_fed V (mSsl t)) \<and>
     (mState t = Connecting \<and> dec (v_fed V (mSsl t)) = [] \<or> mState t = Connected \<and> v_established V (mSsl t))"

lemma delivered_bytes_chunks:
  "concat (map (\<lambda>m. case m of None \<Rightarrow> [] | Some m \<Rightarrow> data m)
     (received (map (\<lambda>c. RecvCallback (Some (make_message c Binary))) cs))) = concat cs"
  by (induction cs) simp_all

context byte_stream
begin

lemma doRecv_handshake_ok:
  assumes doc: "ssl_documented L V peer dec enc" and t: "mState t = Connecting" "tls_linked usable sent n V t"
    "prefix (v_fed V (mSsl t)) peer"
  obtains u l' s' where "u = t\<lparr>mLower := Some l', mSsl := s'\<rparr>"
    "doRecv_handshake L ops t = Some (Inr (), if v_established V s' then Transport_changeState Connected u else u)"
    "tls_linked usable sent n V u" "v_fed V s' = v_fed V (mSsl t)" "v_taken V s' = v_taken V (mSsl t)"
    "enc (v_wire V s') = enc (v_wire V (mSsl t))" "v_established V s' \<or> dec (v_fed V (mSsl t)) = []"
proof -
  have bio: "bio_documented L V" and hs: "handshake_documented L V peer dec enc" using doc by (simp_all add: ssl_documented_def)
  from hs t(3) obtain err "is" s1 where h: "SSL_do_handshake L (mSsl t) = (err, is, s1)" "no_alerts is"
    "writes V (mSsl t) s1" "v_fed V s1 = v_fed V (mSsl t)" "v_taken V s1 = v_taken V (mSsl t)"
    "enc (v_wire V s1) = enc (v_wire V (mSsl t))"
    "if v_established V s1 then err = SSL_ERROR_NONE else err = SSL_ERROR_WANT_READ \<and> dec (v_fed V (mSsl t)) = []"
    unfolding handshake_documented_def by metis
  obtain b l2 s2 where
    c: "ssl_call_flush L ops (SSL_do_handshake L) t = Some (Inr (err, b), t\<lparr>mLower := Some l2, mSsl := s2\<rparr>)"
      "tls_linked usable sent n V (t\<lparr>mLower := Some l2, mSsl := s2\<rparr>)" "v_wire V s2 = v_wire V s1" "same_input V s1 s2"
    by (rule ssl_call_flush_linked [where f = "SSL_do_handshake L", OF bio t(2) h(1-3)])
  let ?s3 = "ERR_clear_error L s2"
  note e = ERR_clear_same [OF bio, of s2]
  have est: "v_established V ?s3 = v_established V s1" using e c(4) by (simp add: same_input_def)
  show thesis
  proof (rule that [OF refl])
    show "doRecv_handshake L ops t = Some (Inr (), if v_established V ?s3
       then Transport_changeState Connected (t\<lparr>mLower := Some l2, mSsl := ?s3\<rparr>) else t\<lparr>mLower := Some l2, mSsl := ?s3\<rparr>)"
      using t(1) c(1) h(7) est by (auto simp: doRecv_handshake_def check_error_ok)
    show "tls_linked usable sent n V (t\<lparr>mLower := Some l2, mSsl := ?s3\<rparr>)"
      by (rule tls_linked_cong [OF c(2)]) (simp_all add: e)
    show "v_established V ?s3 \<or> dec (v_fed V (mSsl t)) = []" using h(7) est by (auto split: if_splits)
  qed (use e c h in \<open>simp_all add: same_input_def same_output_def\<close>)
qed

end

text \<open>The first half of an iteration: the message taken from the queue goes into the input BIO.\<close>

definition doRecv_input :: "'s ssl_lib \<Rightarrow> Message \<Rightarrow> ('l, 's) TlsTransport \<Rightarrow> ('l, 's) TlsTransport" where
  "doRecv_input L message t =
     (if data message \<noteq> [] then t\<lparr>mSsl := BIO_write L (data message) (mSsl t)\<rparr> else Transport_recv (Some message) t)"

lemma doRecv_input_keeps [simp]:
  "mState (doRecv_input L m t) = mState t" "mRecvCallback (doRecv_input L m t) = mRecvCallback t"
  "mLower (doRecv_input L m t) = mLower t" "mIncomingQueue (doRecv_input L m t) = mIncomingQueue t"
  "mPendingRecvCount (doRecv_input L m t) = mPendingRecvCount t"
  "delivered_bytes (doRecv_input L m t) = delivered_bytes t"
  "None \<in> set (received (trace (doRecv_input L m t))) \<longleftrightarrow> None \<in> set (received (trace t))"
  by (simp_all add: doRecv_input_def delivered_bytes_def)

lemma doRecv_input_session:
  assumes "bio_documented L V"
  shows "v_fed V (mSsl (doRecv_input L m t)) = v_fed V (mSsl t) @ data m"
    "v_taken V (mSsl (doRecv_input L m t)) = v_taken V (mSsl t)"
    "v_established V (mSsl (doRecv_input L m t)) = v_established V (mSsl t)"
    "same_output V (mSsl t) (mSsl (doRecv_input L m t))"
  using assms by (simp_all add: doRecv_input_def bio_documented_def same_output_def)

text \<open>The second half: the handshake while it is not over, then the data.\<close>

definition doRecv_process ::
  "'s ssl_lib \<Rightarrow> 'l lower_ops \<Rightarrow> ('l, 's) TlsTransport \<Rightarrow> (after_iteration \<times> ('l, 's) TlsTransport) option" where
  "doRecv_process L ops t =
     Option.bind (doRecv_handshake L ops t) (\<lambda>(r, t).
       case r of
         Inl e \<Rightarrow> Some (Thrown e, t)
       | Inr _ \<Rightarrow>
           if mState t = Connected then
             Option.bind (doRecv_read L ops t) (\<lambda>(r, t).
               case r of
                 Inl e \<Rightarrow> Some (Thrown e, t)
               | Inr err \<Rightarrow>
                   Some (if err = SSL_ERROR_ZERO_RETURN then LeaveLoop else NextIteration, t))
           else Some (NextIteration, t))"

lemma doRecv_iteration_eq:
  "doRecv_iteration L ops t =
     (case mQueue (mIncomingQueue t) of
        [] \<Rightarrow> Some (if mStopping (mIncomingQueue t) then LeaveLoop else EarlyReturn, t)
      | m # rest \<Rightarrow> doRecv_process L ops (doRecv_input L m (t\<lparr>mIncomingQueue := snd (Queue_pop (mIncomingQueue t))\<rparr>)))"
  by (auto simp: doRecv_iteration_def doRecv_process_def doRecv_input_def Queue_running_def Queue_pop_def Let_def
      split: list.splits)

context byte_stream
begin

lemma doRecv_process_read:
  assumes doc: "ssl_documented L V peer dec enc" and t: "mState t = Connected" "tls_linked usable sent n V t" "mRecvCallback t"
    and s: "prefix (v_fed V (mSsl t)) peer" "v_established V (mSsl t)" "prefix (v_taken V (mSsl t)) (dec (v_fed V (mSsl t)))"
    "delivered_bytes t = v_taken V (mSsl t)"
  obtains t' where "doRecv_read L ops t = Some (Inr SSL_ERROR_WANT_READ, t')"
    "tls_working usable sent n V dec t'" "v_fed V (mSsl t') = v_fed V (mSsl t)" "mIncomingQueue t' = mIncomingQueue t"
    "mPendingRecvCount t' = mPendingRecvCount t" "None \<in> set (received (trace t')) \<longleftrightarrow> None \<in> set (received (trace t))"
    "tls_sent sent n enc t' = tls_sent sent n enc t" "mState t' = Connected"
proof -
  have d: "bio_documented L V" "read_documented L V peer dec enc" using doc by (simp_all add: ssl_documented_def)
  obtain cs l' s' t' where
    r: "t' = t\<lparr>mLower := Some l', mSsl := s', trace := trace t @
         (if mRecvCallback t then map (\<lambda>c. RecvCallback (Some (make_message c Binary))) cs else [])\<rparr>"
      "doRecv_read L ops t = Some (Inr SSL_ERROR_WANT_READ, t')" "tls_linked usable sent n V t'"
      "v_established V s'" "v_fed V s' = v_fed V (mSsl t)" "v_taken V s' = dec (v_fed V (mSsl t))"
      "v_taken V (mSsl t) @ concat cs = dec (v_fed V (mSsl t))" "enc (v_wire V s') = enc (v_wire V (mSsl t))"
    by (rule doRecv_read_all [OF d t(2) s(1-3)])
  have t': "mSsl t' = s'" "mState t' = Connected" "mRecvCallback t'" "mIncomingQueue t' = mIncomingQueue t"
    "mPendingRecvCount t' = mPendingRecvCount t"
    "trace t' = trace t @ map (\<lambda>c. RecvCallback (Some (make_message c Binary))) cs"
    using t unfolding r(1) by simp_all
  have none: "None \<notin> set (received (map (\<lambda>c. RecvCallback (Some (make_message c Binary))) cs))" by (induction cs) simp_all
  have del: "delivered_bytes t' = dec (v_fed V s')"
    using s(4) r(5,7) unfolding delivered_bytes_def t'(6) received_append map_append concat_append delivered_bytes_chunks
    by simp
  show thesis
  proof (rule that [OF r(2)])
    show "tls_working usable sent n V dec t'" using r t' del by (simp add: tls_working_def)
    show "tls_sent sent n enc t' = tls_sent sent n enc t"
      using tls_sent_linked [OF r(3)] tls_sent_linked [OF t(2)] r(8) t'(1) by simp
  qed (use r t' none in simp_all)
qed

lemma doRecv_process_working:
  assumes doc: "ssl_documented L V peer dec enc" and t: "tls_linked usable sent n V t" "mRecvCallback t"
    and s: "prefix (v_fed V (mSsl t)) peer" "prefix (v_taken V (mSsl t)) (dec (v_fed V (mSsl t)))"
      "delivered_bytes t = v_taken V (mSsl t)"
      "mState t = Connecting \<and> v_taken V (mSsl t) = [] \<or> mState t = Connected \<and> v_established V (mSsl t)"
  obtains t' where "doRecv_process L ops t = Some (NextIteration, t')"
    "tls_working usable sent n V dec t'" "v_fed V (mSsl t') = v_fed V (mSsl t)" "mIncomingQueue t' = mIncomingQueue t"
    "mPendingRecvCount t' = mPendingRecvCount t" "None \<in> set (received (trace t')) \<longleftrightarrow> None \<in> set (received (trace t))"
    "tls_sent sent n enc t' = tls_sent sent n enc t" "mState t = Connected \<Longrightarrow> mState t' = Connected"
proof (cases "mState t = Connected")
  case True
  with s(4) have est: "v_established V (mSsl t)" by simp
  obtain t' where r: "doRecv_read L ops t = Some (Inr SSL_ERROR_WANT_READ, t')"
    "tls_working usable sent n V dec t'" "v_fed V (mSsl t') = v_fed V (mSsl t)" "mIncomingQueue t' = mIncomingQueue t"
    "mPendingRecvCount t' = mPendingRecvCount t" "None \<in> set (received (trace t')) \<longleftrightarrow> None \<in> set (received (trace t))"
    "tls_sent sent n enc t' = tls_sent sent n enc t" "mState t' = Connected"
    by (rule doRecv_process_read [OF doc True t s(1) est s(2,3)])
  have "doRecv_process L ops t = Some (NextIteration, t')"
    using True r(1) by (simp add: doRecv_process_def doRecv_handshake_def)
  then show thesis using that r by blast
next
  case False
  with s(4) have c: "mState t = Connecting" "v_taken V (mSsl t) = []" by auto
  obtain u l' s' where
    h: "u = t\<lparr>mLower := Some l', mSsl := s'\<rparr>"
      "doRecv_handshake L ops t = Some (Inr (), if v_established V s' then Transport_changeState Connected u else u)"
      "tls_linked usable sent n V u" "v_fed V s' = v_fed V (mSsl t)" "v_taken V s' = v_taken V (mSsl t)"
      "enc (v_wire V s') = enc (v_wire V (mSsl t))" "v_established V s' \<or> dec (v_fed V (mSsl t)) = []"
    by (rule doRecv_handshake_ok [OF doc c(1) t(1) s(1)])
  have u: "mSsl u = s'" "mState u = Connecting" "mRecvCallback u" "mIncomingQueue u = mIncomingQueue t"
    "mPendingRecvCount u = mPendingRecvCount t" "trace u = trace t"
    using t(2) c(1) unfolding h(1) by simp_all
  have sent: "tls_sent sent n enc u = tls_sent sent n enc t"
    using tls_sent_linked [OF h(3)] tls_sent_linked [OF t(1)] h(6) u(1) by simp
  show thesis
  proof (cases "v_established V s'")
    case False
    with h(7) have e: "dec (v_fed V (mSsl t)) = []" by simp
    have "doRecv_process L ops t = Some (NextIteration, u)" using h(2) False u(2) by (simp add: doRecv_process_def)
    moreover have "tls_working usable sent n V dec u"
      using h u s(3) c e by (simp add: tls_working_def delivered_bytes_def)
    ultimately show thesis using that [of u] u h(4) sent c by simp
  next
    case True
    let ?v = "Transport_changeState Connected u"
    have v: "tls_linked usable sent n V ?v" by (rule tls_linked_cong [OF h(3)]) (simp_all add: same_output_def)
    have tr: "received (trace ?v) = received (trace t)" by (simp add: Transport_changeState_trace u)
    have del: "delivered_bytes ?v = delivered_bytes t" unfolding delivered_bytes_def tr ..
    have vs: "mState ?v = Connected" "mRecvCallback ?v" "prefix (v_fed V (mSsl ?v)) peer" "v_established V (mSsl ?v)"
      "prefix (v_taken V (mSsl ?v)) (dec (v_fed V (mSsl ?v)))" "delivered_bytes ?v = v_taken V (mSsl ?v)"
      using True u(1,3) h(4,5) s(1-3) by (simp_all add: del)
    obtain t' where r: "doRecv_read L ops ?v = Some (Inr SSL_ERROR_WANT_READ, t')"
      "tls_working usable sent n V dec t'" "v_fed V (mSsl t') = v_fed V (mSsl ?v)" "mIncomingQueue t' = mIncomingQueue ?v"
      "mPendingRecvCount t' = mPendingRecvCount ?v" "None \<in> set (received (trace t')) \<longleftrightarrow> None \<in> set (received (trace ?v))"
      "tls_sent sent n enc t' = tls_sent sent n enc ?v" "mState t' = Connected"
      by (rule doRecv_process_read [OF doc vs(1) v vs(2-6)])
    have "doRecv_process L ops t = Some (NextIteration, t')" using h(2) True r(1) by (simp add: doRecv_process_def)
    moreover have "tls_sent sent n enc ?v = tls_sent sent n enc u" by (simp add: tls_sent_def)
    ultimately show thesis using that [of t'] r u h(4) sent tr by simp
  qed
qed

text \<open>An iteration takes one message from the queue and leaves the transport at work.\<close>

lemma doRecv_iteration_working:
  assumes doc: "ssl_documented L V peer dec enc" and t: "tls_working usable sent n V dec t"
    and q: "mQueue (mIncomingQueue t) = m # rest" "prefix (v_fed V (mSsl t) @ data m) peer"
  obtains t' where "doRecv_iteration L ops t = Some (NextIteration, t')"
    "tls_working usable sent n V dec t'" "v_fed V (mSsl t') = v_fed V (mSsl t) @ data m"
    "mIncomingQueue t' = snd (Queue_pop (mIncomingQueue t))"
    "mPendingRecvCount t' = mPendingRecvCount t" "None \<in> set (received (trace t')) \<longleftrightarrow> None \<in> set (received (trace t))"
    "tls_sent sent n enc t' = tls_sent sent n enc t" "mState t = Connected \<Longrightarrow> mState t' = Connected"
proof -
  have bio: "bio_documented L V" and mono: "prefix (dec (v_fed V (mSsl t))) (dec (v_fed V (mSsl t) @ data m))"
    using doc q(2) by (simp_all add: ssl_documented_def)
  let ?q = "t\<lparr>mIncomingQueue := snd (Queue_pop (mIncomingQueue t))\<rparr>"
  let ?i = "doRecv_input L m ?q"
  note i = doRecv_input_session [OF bio, where m = m and t = ?q]
  have w: "tls_linked usable sent n V t" "mRecvCallback t" "v_taken V (mSsl t) = dec (v_fed V (mSsl t))"
    "delivered_bytes t = dec (v_fed V (mSsl t))"
    "mState t = Connecting \<and> dec (v_fed V (mSsl t)) = [] \<or> mState t = Connected \<and> v_established V (mSsl t)"
    using t by (simp_all add: tls_working_def)
  have link: "tls_linked usable sent n V ?i" by (rule tls_linked_cong [OF w(1)]) (use i(4) in simp_all)
  have del: "delivered_bytes ?q = delivered_bytes t" by (simp add: delivered_bytes_def)
  have p: "mRecvCallback ?i" "prefix (v_fed V (mSsl ?i)) peer" "prefix (v_taken V (mSsl ?i)) (dec (v_fed V (mSsl ?i)))"
    "delivered_bytes ?i = v_taken V (mSsl ?i)"
    "mState ?i = Connecting \<and> v_taken V (mSsl ?i) = [] \<or> mState ?i = Connected \<and> v_established V (mSsl ?i)"
    using w i mono q(2) by (simp_all add: del)
  have sent: "tls_sent sent n enc ?i = tls_sent sent n enc t" by (simp add: tls_sent_def)
  have eq: "doRecv_iteration L ops t = doRecv_process L ops ?i" by (simp add: doRecv_iteration_eq q(1))
  show thesis
    by (rule doRecv_process_working [OF doc link p], rule that)
      (simp_all add: eq i sent)
qed

end

section \<open>The poll thread and the pool\<close>

text \<open>
  A configuration is the transport and whether a \<open>doRecv\<close> task is in its loop; \<open>mRecvMutex\<close> keeps a
  second one out, and a task that was enqueued and has not begun is counted by \<open>mPendingRecvCount\<close>.
  A step is labelled with what arrives from below in it: a message, or the end of the stream, which
  \<open>stop\<close> counts as.
\<close>

inductive tls_step ::
  "'s ssl_lib \<Rightarrow> 'l lower_ops \<Rightarrow> bool \<times> ('l, 's) TlsTransport \<Rightarrow> message_ptr option
   \<Rightarrow> bool \<times> ('l, 's) TlsTransport \<Rightarrow> bool"
  for L ops where
  incoming: "TlsTransport_incoming m t = Some t' \<Longrightarrow> tls_step L ops (r, t) (Some m) (r, t')"
| stopped: "tls_step L ops (r, t) (Some None) (r, TlsTransport_stop True ops t)"
| send: "TlsTransport_send L ops (Some m) t = Some (res, t') \<Longrightarrow> tls_step L ops (r, t) None (r, t')"
| begins: "mPendingRecvCount t > 0 \<Longrightarrow> doRecv_begin t = (go, t') \<Longrightarrow> tls_step L ops (False, t) None (go, t')"
| iterates: "doRecv_iteration L ops t = Some (NextIteration, t') \<Longrightarrow> tls_step L ops (True, t) None (True, t')"
| returns: "doRecv_iteration L ops t = Some (EarlyReturn, t') \<Longrightarrow> tls_step L ops (True, t) None (False, t')"
| leaves: "doRecv_iteration L ops t = Some (LeaveLoop, t') \<Longrightarrow>
    tls_step L ops (True, t) None (False, doRecv_finish L False t')"
| throws: "doRecv_iteration L ops t = Some (Thrown e, t') \<Longrightarrow>
    tls_step L ops (True, t) None (False, doRecv_finish L True t')"

inductive tls_run ::
  "'s ssl_lib \<Rightarrow> 'l lower_ops \<Rightarrow> bool \<times> ('l, 's) TlsTransport \<Rightarrow> message_ptr list
   \<Rightarrow> bool \<times> ('l, 's) TlsTransport \<Rightarrow> bool"
  for L ops c where
  run_nil: "tls_run L ops c [] c"
| run_step: "tls_run L ops c ms c' \<Longrightarrow> tls_step L ops c' e c'' \<Longrightarrow>
    tls_run L ops c (ms @ (case e of None \<Rightarrow> [] | Some m \<Rightarrow> [m])) c''"

lemma tls_run_trans: "tls_run L ops b ms' c \<Longrightarrow> tls_run L ops a ms b \<Longrightarrow> tls_run L ops a (ms @ ms') c"
  by (induction rule: tls_run.induct) (auto intro: tls_run.run_step simp del: append_assoc simp: append_assoc [symmetric])

lemma tls_run_one: "tls_step L ops c None c' \<Longrightarrow> tls_run L ops c [] c'"
  using tls_run.run_step [OF tls_run.run_nil, of L ops c None c'] by simp

text \<open>The bytes that arrive before the end of the stream; what comes after it is discarded.\<close>

fun arrived :: "message_ptr list \<Rightarrow> binary" where
  "arrived [] = []"
| "arrived (None # ms) = []"
| "arrived (Some m # ms) = data m @ arrived ms"

lemma arrived_append: "arrived (ms @ ms') = arrived ms @ (if None \<in> set ms then [] else arrived ms')"
  by (induction ms rule: arrived.induct) auto

lemma fold_InfoCallback:
  "mState (fold InfoCallback is t) = mState t" "trace (fold InfoCallback is t) = trace t"
  "mRecvCallback (fold InfoCallback is t) = mRecvCallback t"
  "mPendingRecvCount (fold InfoCallback is t) = mPendingRecvCount t"
  "mLower (fold InfoCallback is t) = mLower t" "mSsl (fold InfoCallback is t) = mSsl t"
  "mQueue (mIncomingQueue (fold InfoCallback is t)) = mQueue (mIncomingQueue t)"
  "mStopping (mIncomingQueue t) \<Longrightarrow> mStopping (mIncomingQueue (fold InfoCallback is t))"
  by (induction "is" arbitrary: t) (auto simp: InfoCallback_def Queue_stop_def)

lemma ssl_call_keeps:
  "mState (snd (ssl_call f t)) = mState t" "trace (snd (ssl_call f t)) = trace t"
  "mRecvCallback (snd (ssl_call f t)) = mRecvCallback t" "mLower (snd (ssl_call f t)) = mLower t"
  "mPendingRecvCount (snd (ssl_call f t)) = mPendingRecvCount t"
  "mQueue (mIncomingQueue (snd (ssl_call f t))) = mQueue (mIncomingQueue t)"
  "mStopping (mIncomingQueue t) \<Longrightarrow> mStopping (mIncomingQueue (snd (ssl_call f t)))"
  by (cases "f (mSsl t)"; simp add: ssl_call_def fold_InfoCallback)+

text \<open>
  The last step of \<open>doRecv\<close>: \<open>Disconnected\<close>, with the end of the stream reported, if the connection was
  open, and \<open>Failed\<close> if it was not.
\<close>

lemma doRecv_finish_ends:
  "mState (doRecv_finish L b t) = (if mState t = Connected then Disconnected else Failed)"
  "mPendingRecvCount (doRecv_finish L b t) = mPendingRecvCount t"
  "mQueue (mIncomingQueue (doRecv_finish L b t)) = mQueue (mIncomingQueue t)"
  "mStopping (mIncomingQueue t) \<Longrightarrow> mStopping (mIncomingQueue (doRecv_finish L b t))"
  "mRecvCallback (doRecv_finish L b t) = mRecvCallback t"
  "mLower (doRecv_finish L b t) = mLower t"
  "received (trace (doRecv_finish L b t)) =
     received (trace t) @ (if mState t = Connected \<and> mRecvCallback t then [None] else [])"
  by (simp_all add: doRecv_finish_def Let_def ssl_call_keeps Transport_changeState_trace)

definition tls_inv ::
  "('l \<Rightarrow> bool) \<Rightarrow> ('l \<Rightarrow> binary) \<Rightarrow> nat \<Rightarrow> 's ssl_view \<Rightarrow> (binary \<Rightarrow> binary) \<Rightarrow> message_ptr list
   \<Rightarrow> bool \<times> ('l, 's) TlsTransport \<Rightarrow> bool" where
  "tls_inv usable sent n V dec ms c \<longleftrightarrow> (case c of (r, t) \<Rightarrow>
     mPendingRecvCount t \<ge> 0 \<and> (mStopping (mIncomingQueue t) \<longleftrightarrow> None \<in> set ms) \<and>
     (if mState t = Connecting \<or> mState t = Connected then
        tls_working usable sent n V dec t \<and>
        v_fed V (mSsl t) @ concat (map data (mQueue (mIncomingQueue t))) = arrived ms \<and>
        (mQueue (mIncomingQueue t) \<noteq> [] \<or> None \<in> set ms \<longrightarrow> r \<or> mPendingRecvCount t > 0) \<and>
        None \<notin> set (received (trace t))
      else
        \<not> r \<and> None \<in> set ms \<and> delivered_bytes t = dec (arrived ms) \<and>
        (mState t = Disconnected \<and> (\<exists>xs. received (trace t) = xs @ [None] \<and> None \<notin> set xs) \<or>
         mState t = Failed \<and> dec (arrived ms) = [] \<and> None \<notin> set (received (trace t)))))"

lemma tls_working_state: "tls_working usable sent n V dec t \<Longrightarrow> mState t = Connecting \<or> mState t = Connected"
  by (auto simp: tls_working_def)

lemma tls_working_cong:
  assumes "tls_working usable sent n V dec t" "mLower t' = mLower t" "mSsl t' = mSsl t" "mRecvCallback t' = mRecvCallback t"
    "trace t' = trace t" "mState t' = mState t"
  shows "tls_working usable sent n V dec t'"
  using assms by (simp add: tls_working_def tls_linked_def delivered_bytes_def)

lemma enqueueRecv_keeps [simp]:
  "mLower (enqueueRecv a t) = mLower t" "mSsl (enqueueRecv a t) = mSsl t" "mRecvCallback (enqueueRecv a t) = mRecvCallback t"
  "trace (enqueueRecv a t) = trace t" "mState (enqueueRecv a t) = mState t" "mIncomingQueue (enqueueRecv a t) = mIncomingQueue t"
  by (simp_all add: enqueueRecv_def)

lemma enqueueRecv_count:
  "mPendingRecvCount (enqueueRecv True t) = (if mPendingRecvCount t > 0 then mPendingRecvCount t else mPendingRecvCount t + 1)"
  by (simp add: enqueueRecv_def)

lemma Queue_push_inv: "Queue_push q m = Some q' \<Longrightarrow> mStopping q' = mStopping q \<and> mQueue q' = (if mStopping q then mQueue q else mQueue q @ [m])"
  by (auto simp: Queue_push_def split: if_splits)

text \<open>An arrival: the queue grows, or is stopped, and a task is pending.\<close>

lemma tls_inv_arrival:
  assumes i: "tls_inv usable sent n V dec ms (r, t)"
    and t': "mState t' = mState t" "trace t' = trace t" "mSsl t' = mSsl t" "mPendingRecvCount t' > 0"
      "tls_working usable sent n V dec t \<Longrightarrow> tls_working usable sent n V dec t'"
    and q: "mStopping (mIncomingQueue t') \<longleftrightarrow> mStopping (mIncomingQueue t) \<or> e = None"
      "concat (map data (mQueue (mIncomingQueue t'))) = concat (map data (mQueue (mIncomingQueue t))) @
         (if mStopping (mIncomingQueue t) then [] else case e of None \<Rightarrow> [] | Some m \<Rightarrow> data m)"
  shows "tls_inv usable sent n V dec (ms @ [e]) (r, t')"
proof -
  have stop: "mStopping (mIncomingQueue t) \<longleftrightarrow> None \<in> set ms" using i by (simp add: tls_inv_def)
  have arr: "arrived (ms @ [e]) = arrived ms @ (if mStopping (mIncomingQueue t) then [] else case e of None \<Rightarrow> [] | Some m \<Rightarrow> data m)"
    by (cases e) (simp_all add: arrived_append stop)
  have stop': "mStopping (mIncomingQueue t') \<longleftrightarrow> None \<in> set (ms @ [e])" using q(1) stop by auto
  show ?thesis
  proof (cases "mState t = Connecting \<or> mState t = Connected")
    case True
    with i have w: "tls_working usable sent n V dec t"
      "v_fed V (mSsl t) @ concat (map data (mQueue (mIncomingQueue t))) = arrived ms" "None \<notin> set (received (trace t))"
      by (simp_all add: tls_inv_def)
    have "v_fed V (mSsl t') @ concat (map data (mQueue (mIncomingQueue t'))) = arrived (ms @ [e])"
      unfolding arr q(2) w(2) [symmetric] t'(3) by simp
    with True w stop' t' show ?thesis by (simp add: tls_inv_def)
  next
    case False
    with i have "None \<in> set ms" by (simp add: tls_inv_def)
    with stop arr have "arrived (ms @ [e]) = arrived ms" by simp
    with i False stop' t' show ?thesis by (auto simp: tls_inv_def delivered_bytes_def)
  qed
qed

context byte_stream
begin

lemma tls_inv_incoming:
  assumes i: "tls_inv usable sent n V dec ms (r, t)" and s: "TlsTransport_incoming m t = Some t'"
  shows "tls_inv usable sent n V dec (ms @ [m]) (r, t')"
proof (cases m)
  case None
  with s have t': "t' = enqueueRecv True (t\<lparr>mIncomingQueue := Queue_stop (mIncomingQueue t)\<rparr>)"
    by (simp add: TlsTransport_incoming_def)
  show ?thesis
    by (rule tls_inv_arrival [OF i]) (use i in \<open>auto simp: t' None enqueueRecv_count Queue_stop_def tls_inv_def elim: tls_working_cong\<close>)
next
  case (Some a)
  with s obtain q where q: "Queue_push (mIncomingQueue t) a = Some q" "t' = enqueueRecv True (t\<lparr>mIncomingQueue := q\<rparr>)"
    by (auto simp: TlsTransport_incoming_def bind_eq_Some_conv)
  show ?thesis
    by (rule tls_inv_arrival [OF i])
      (use i Queue_push_inv [OF q(1)] in \<open>auto simp: q(2) Some enqueueRecv_count tls_inv_def elim: tls_working_cong\<close>)
qed

lemma tls_working_unregister:
  assumes "tls_working usable sent n V dec t"
  shows "tls_working usable sent n V dec (Transport_unregisterIncoming ops t)"
  using assms listen_usable listen_sent
  by (auto simp: tls_working_def tls_linked_def Transport_unregisterIncoming_def delivered_bytes_def)

lemma tls_inv_finish:
  assumes i: "tls_inv usable sent n V dec ms (True, t)"
    and q: "mQueue (mIncomingQueue t) = []" "mStopping (mIncomingQueue t)"
  shows "tls_inv usable sent n V dec ms (False, doRecv_finish L b t)"
proof -
  from i have st: "mState t = Connecting \<or> mState t = Connected" by (auto simp: tls_inv_def split: if_splits)
  with i have w: "tls_working usable sent n V dec t" "v_fed V (mSsl t) @ concat (map data (mQueue (mIncomingQueue t))) = arrived ms"
    "None \<notin> set (received (trace t))" "None \<in> set ms" "mPendingRecvCount t \<ge> 0"
    using q(2) by (auto simp: tls_inv_def)
  have fed: "v_fed V (mSsl t) = arrived ms" using w(2) q(1) by simp
  have del: "delivered_bytes (doRecv_finish L b t) = delivered_bytes t"
    by (simp add: delivered_bytes_def doRecv_finish_ends)
  show ?thesis
  proof (cases "mState t = Connected")
    case True
    then show ?thesis using w q fed
      by (simp add: tls_inv_def doRecv_finish_ends del tls_working_def)
  next
    case False
    with st have c: "mState t = Connecting" by simp
    with w(1) fed have "dec (arrived ms) = []" by (simp add: tls_working_def)
    with c show ?thesis using w q fed
      by (simp add: tls_inv_def doRecv_finish_ends del tls_working_def)
  qed
qed

lemma tls_inv_iteration:
  assumes doc: "ssl_documented L V peer dec enc" and i: "tls_inv usable sent n V dec ms (True, t)"
    and p: "prefix (arrived ms) peer" and q: "mQueue (mIncomingQueue t) = m # rest"
  obtains t' where "doRecv_iteration L ops t = Some (NextIteration, t')" "tls_inv usable sent n V dec ms (True, t')"
    "mQueue (mIncomingQueue t') = rest" "mPendingRecvCount t' = mPendingRecvCount t"
proof -
  from i have st: "mState t = Connecting \<or> mState t = Connected" by (auto simp: tls_inv_def split: if_splits)
  with i have w: "tls_working usable sent n V dec t" "v_fed V (mSsl t) @ concat (map data (mQueue (mIncomingQueue t))) = arrived ms"
    "None \<notin> set (received (trace t))" "mPendingRecvCount t \<ge> 0" "mStopping (mIncomingQueue t) \<longleftrightarrow> None \<in> set ms"
    by (simp_all add: tls_inv_def)
  have "prefix (v_fed V (mSsl t) @ data m) (arrived ms)" using w(2) q by (metis append_assoc concat.simps(2) list.simps(9) prefixI)
  with p have pm: "prefix (v_fed V (mSsl t) @ data m) peer" by (metis prefix_order.trans)
  obtain t' where r: "doRecv_iteration L ops t = Some (NextIteration, t')"
    "tls_working usable sent n V dec t'" "v_fed V (mSsl t') = v_fed V (mSsl t) @ data m"
    "mIncomingQueue t' = snd (Queue_pop (mIncomingQueue t))"
    "mPendingRecvCount t' = mPendingRecvCount t" "None \<in> set (received (trace t')) \<longleftrightarrow> None \<in> set (received (trace t))"
    by (rule doRecv_iteration_working [OF doc w(1) q pm])
  have q': "mQueue (mIncomingQueue t') = rest" "mStopping (mIncomingQueue t') = mStopping (mIncomingQueue t)"
    using q by (simp_all add: r(4) Queue_pop_def)
  have "tls_inv usable sent n V dec ms (True, t')"
    using w r(2,3,5,6) q q' tls_working_state [OF r(2)] by (simp add: tls_inv_def)
  then show thesis using that r q' by blast
qed

lemma tls_inv_send:
  assumes doc: "ssl_documented L V peer dec enc" and i: "tls_inv usable sent n V dec ms (r, t)" and p: "prefix (arrived ms) peer"
    and s: "TlsTransport_send L ops (Some m) t = Some (res, t')"
  shows "tls_inv usable sent n V dec ms (r, t')"
proof (cases "mState t = Connected")
  case False
  with s i show ?thesis by (simp add: TlsTransport_send_def)
next
  case True
  with i have w: "tls_working usable sent n V dec t" "v_fed V (mSsl t) @ concat (map data (mQueue (mIncomingQueue t))) = arrived ms"
    by (simp_all add: tls_inv_def)
  then have "prefix (v_fed V (mSsl t)) peer" using p by (metis prefixI prefix_order.trans)
  with w(1) True have l: "tls_linked usable sent n V t" "v_established V (mSsl t)" "prefix (v_fed V (mSsl t)) peer"
    by (simp_all add: tls_working_def)
  obtain b l' s' where o: "TlsTransport_send L ops (Some m) t = Some (Inr b, t\<lparr>mLower := Some l', mSsl := s'\<rparr>)"
    "tls_linked usable sent n V (t\<lparr>mLower := Some l', mSsl := s'\<rparr>)" "same_input V (mSsl t) s'"
    by (rule TlsTransport_send_linked [OF doc True l])
  with s have t': "t' = t\<lparr>mLower := Some l', mSsl := s'\<rparr>" by simp
  have "tls_working usable sent n V dec t'"
    using w(1) o(2,3) True unfolding t' by (simp add: tls_working_def same_input_def delivered_bytes_def)
  then show ?thesis using i o(3) True unfolding t' by (simp add: tls_inv_def same_input_def)
qed

lemma tls_inv_begins:
  assumes i: "tls_inv usable sent n V dec ms (False, t)" and s: "mPendingRecvCount t > 0" "doRecv_begin t = (go, t')"
  shows "tls_inv usable sent n V dec ms (go, t')"
proof -
  have go: "go \<longleftrightarrow> mState t = Connecting \<or> mState t = Connected" and t': "t' = t\<lparr>mPendingRecvCount := mPendingRecvCount t - 1\<rparr>"
    using s(2) by (auto simp: doRecv_begin_def Let_def)
  have w: "tls_working usable sent n V dec t \<Longrightarrow> tls_working usable sent n V dec t'"
    by (rule tls_working_cong) (simp_all add: t')
  show ?thesis
    using i s(1) w unfolding go
    by (auto simp: tls_inv_def delivered_bytes_def t')
qed

lemma tls_inv_stopped:
  assumes i: "tls_inv usable sent n V dec ms (r, t)"
  shows "tls_inv usable sent n V dec (ms @ [None]) (r, TlsTransport_stop True ops t)"
proof (rule tls_inv_arrival [OF i])
  assume "tls_working usable sent n V dec t"
  from tls_working_unregister [OF this] show "tls_working usable sent n V dec (TlsTransport_stop True ops t)"
    by (rule tls_working_cong) (simp_all add: TlsTransport_stop_def Let_def)
next
  show "mPendingRecvCount (TlsTransport_stop True ops t) > 0"
    using i by (simp add: TlsTransport_stop_def enqueueRecv_count Transport_unregisterIncoming_def tls_inv_def Let_def)
qed (simp_all add: TlsTransport_stop_def Let_def Transport_unregisterIncoming_def Queue_stop_def)

text \<open>How an iteration can end while the peer conforms: never with an exception.\<close>

lemma tls_inv_iterated:
  assumes doc: "ssl_documented L V peer dec enc" and i: "tls_inv usable sent n V dec ms (True, t)"
    and p: "prefix (arrived ms) peer" and s: "doRecv_iteration L ops t = Some (a, t')"
  shows "case a of
      NextIteration \<Rightarrow> tls_inv usable sent n V dec ms (True, t')
    | EarlyReturn \<Rightarrow> t' = t \<and> mQueue (mIncomingQueue t) = [] \<and> \<not> mStopping (mIncomingQueue t)
    | LeaveLoop \<Rightarrow> t' = t \<and> mQueue (mIncomingQueue t) = [] \<and> mStopping (mIncomingQueue t)
    | Thrown e \<Rightarrow> False"
proof (cases "mQueue (mIncomingQueue t)")
  case Nil
  with s show ?thesis by (auto simp: doRecv_iteration_eq)
next
  case (Cons m rest)
  obtain t1 where "doRecv_iteration L ops t = Some (NextIteration, t1)" "tls_inv usable sent n V dec ms (True, t1)"
    by (rule tls_inv_iteration [OF doc i p Cons])
  with s show ?thesis by auto
qed

lemma tls_inv_returns:
  assumes "tls_inv usable sent n V dec ms (True, t)" "mQueue (mIncomingQueue t) = []" "\<not> mStopping (mIncomingQueue t)"
  shows "tls_inv usable sent n V dec ms (False, t)"
  using assms by (cases "mState t = Connecting \<or> mState t = Connected") (simp_all add: tls_inv_def)

text \<open>Every step keeps the invariant, while what arrives is what the peer sends.\<close>

lemma tls_inv_step:
  assumes doc: "ssl_documented L V peer dec enc" and i: "tls_inv usable sent n V dec ms c"
    and s: "tls_step L ops c e c'" and p: "prefix (arrived ms) peer"
  shows "tls_inv usable sent n V dec (ms @ (case e of None \<Rightarrow> [] | Some m \<Rightarrow> [m])) c'"
  using s
proof (cases rule: tls_step.cases)
  case (incoming m t t' r)
  with i have "tls_inv usable sent n V dec ms (r, t)" by simp
  from tls_inv_incoming [OF this incoming(4)] show ?thesis by (simp add: incoming(2,3))
next
  case (stopped r t)
  with i have "tls_inv usable sent n V dec ms (r, t)" by simp
  from tls_inv_stopped [OF this] show ?thesis by (simp add: stopped(2,3))
next
  case (send m t res t' r)
  with i have "tls_inv usable sent n V dec ms (r, t)" by simp
  from tls_inv_send [OF doc this p send(4)] show ?thesis by (simp add: send(2,3))
next
  case (begins t go t')
  with i have "tls_inv usable sent n V dec ms (False, t)" by simp
  from tls_inv_begins [OF this begins(4,5)] show ?thesis by (simp add: begins(2,3))
next
  case (iterates t t')
  with i have c: "tls_inv usable sent n V dec ms (True, t)" by simp
  from tls_inv_iterated [OF doc c p iterates(4)] show ?thesis by (simp add: iterates(2,3))
next
  case (returns t t')
  with i have c: "tls_inv usable sent n V dec ms (True, t)" by simp
  from tls_inv_iterated [OF doc c p returns(4)] tls_inv_returns [OF c] show ?thesis by (simp add: returns(2,3))
next
  case (leaves t t')
  with i have c: "tls_inv usable sent n V dec ms (True, t)" by simp
  from tls_inv_iterated [OF doc c p leaves(4)] tls_inv_finish [OF c] show ?thesis by (simp add: leaves(2,3))
next
  case (throws t x t')
  with i have c: "tls_inv usable sent n V dec ms (True, t)" by simp
  from tls_inv_iterated [OF doc c p throws(4)] show ?thesis by simp
qed

lemma tls_inv_run:
  assumes doc: "ssl_documented L V peer dec enc" and i: "tls_inv usable sent n V dec [] c"
    and r: "tls_run L ops c ms c'" and p: "prefix (arrived ms) peer"
  shows "tls_inv usable sent n V dec ms c'"
  using r p
proof (induction rule: tls_run.induct)
  case run_nil
  show ?case by (rule i)
next
  case (run_step ms c' e c'')
  have "prefix (arrived ms) peer" using run_step.prems by (auto simp: arrived_append prefix_def)
  with run_step tls_inv_step [OF doc] show ?case by blast
qed

text \<open>A task in its loop finishes: it ends when the queue is empty.\<close>

lemma tls_task_ends:
  assumes doc: "ssl_documented L V peer dec enc" and p: "prefix (arrived ms) peer"
    and i: "tls_inv usable sent n V dec ms (True, t)"
  obtains t' where "tls_run L ops (True, t) [] (False, t')" "doRecv_loop L ops t = Some t'"
    "mPendingRecvCount t' = mPendingRecvCount t" "tls_inv usable sent n V dec ms (False, t')"
  using i
proof (induction "mQueue (mIncomingQueue t)" arbitrary: t thesis)
  case Nil
  show ?case
  proof (cases "mStopping (mIncomingQueue t)")
    case True
    with Nil(1) [symmetric] have it: "doRecv_iteration L ops t = Some (LeaveLoop, t)" by (simp add: doRecv_iteration_eq)
    have "doRecv_loop L ops t = Some (doRecv_finish L False t)" by (subst doRecv_loop.simps) (simp add: it)
    from Nil(2) [OF tls_run_one [OF tls_step.leaves [OF it]] this doRecv_finish_ends(2)
        tls_inv_finish [OF Nil(3) Nil(1) [symmetric] True]] show ?thesis .
  next
    case False
    with Nil(1) [symmetric] have it: "doRecv_iteration L ops t = Some (EarlyReturn, t)" by (simp add: doRecv_iteration_eq)
    have "doRecv_loop L ops t = Some t" by (subst doRecv_loop.simps) (simp add: it)
    from Nil(2) [OF tls_run_one [OF tls_step.returns [OF it]] this refl
        tls_inv_returns [OF Nil(3) Nil(1) [symmetric] False]] show ?thesis .
  qed
next
  case (Cons m rest)
  obtain t1 where t1: "doRecv_iteration L ops t = Some (NextIteration, t1)" "tls_inv usable sent n V dec ms (True, t1)"
    "mQueue (mIncomingQueue t1) = rest" "mPendingRecvCount t1 = mPendingRecvCount t"
    by (rule tls_inv_iteration [OF doc Cons.prems(2) p Cons.hyps(2) [symmetric]])
  show ?case
  proof (rule Cons.hyps(1) [OF t1(3) [symmetric] _ t1(2)])
    fix t'
    assume t': "tls_run L ops (True, t1) [] (False, t')" "doRecv_loop L ops t1 = Some t'"
      "mPendingRecvCount t' = mPendingRecvCount t1" "tls_inv usable sent n V dec ms (False, t')"
    have "doRecv_loop L ops t = Some t'" by (subst doRecv_loop.simps) (simp add: t1(1) t'(2))
    moreover have "tls_run L ops (True, t) [] (False, t')"
      using tls_run_trans [OF t'(1) tls_run_one [OF tls_step.iterates [OF t1(1)]]] by simp
    ultimately show ?case using Cons.prems(1) t' t1(4) by simp
  qed
qed

text \<open>From every configuration the pool alone reaches one in which nothing is pending.\<close>

lemma tls_becomes_idle:
  assumes doc: "ssl_documented L V peer dec enc" and p: "prefix (arrived ms) peer"
  shows "tls_inv usable sent n V dec ms (r, t) \<Longrightarrow> \<exists>t'. tls_run L ops (r, t) [] (False, t') \<and> mPendingRecvCount t' = 0"
proof (induction "nat (mPendingRecvCount t)" arbitrary: r t rule: less_induct)
  case less
  have pos: "mPendingRecvCount t \<ge> 0" using less.prems by (simp add: tls_inv_def)
  have idle: "\<exists>t'. tls_run L ops (False, u) [] (False, t') \<and> mPendingRecvCount t' = 0"
    if u: "tls_inv usable sent n V dec ms (False, u)" "mPendingRecvCount u = mPendingRecvCount t" for u
  proof (cases "mPendingRecvCount u = 0")
    case True
    then show ?thesis using tls_run.run_nil by blast
  next
    case False
    with pos u(2) have gt: "mPendingRecvCount u > 0" by simp
    obtain go v where v: "doRecv_begin u = (go, v)" by (cases "doRecv_begin u")
    then have "nat (mPendingRecvCount v) < nat (mPendingRecvCount t)" using gt u(2) by (auto simp: doRecv_begin_def Let_def)
    from less.hyps [OF this tls_inv_begins [OF u(1) gt v]] obtain t' where
      t': "tls_run L ops (go, v) [] (False, t')" "mPendingRecvCount t' = 0" by blast
    from tls_run_trans [OF t'(1) tls_run_one [OF tls_step.begins [OF gt v]]] t'(2) show ?thesis by auto
  qed
  show ?case
  proof (cases r)
    case True
    with less.prems have c: "tls_inv usable sent n V dec ms (True, t)" by simp
    obtain u where u: "tls_run L ops (True, t) [] (False, u)" "mPendingRecvCount u = mPendingRecvCount t"
      "tls_inv usable sent n V dec ms (False, u)"
      by (rule tls_task_ends [OF doc p c])
    from idle [OF u(3,2)] obtain t' where t': "tls_run L ops (False, u) [] (False, t')" "mPendingRecvCount t' = 0" by blast
    from tls_run_trans [OF t'(1) u(1)] t'(2) True show ?thesis by auto
  next
    case False
    with idle less.prems show ?thesis by simp
  qed
qed

end

text \<open>What the invariant says of the bytes delivered: a prefix at any time, all of them when nothing is pending.\<close>

lemma tls_inv_delivered:
  assumes doc: "ssl_documented L V peer dec enc" and i: "tls_inv usable sent n V dec ms (r, t)" and p: "prefix (arrived ms) peer"
  shows "prefix (delivered_bytes t) (dec (arrived ms))"
    "\<not> r \<Longrightarrow> mPendingRecvCount t = 0 \<Longrightarrow>
       delivered_bytes t = dec (arrived ms) \<and> (None \<in> set ms \<longleftrightarrow> mState t = Disconnected \<or> mState t = Failed)"
proof -
  have mono: "prefix a (arrived ms) \<Longrightarrow> prefix (dec a) (dec (arrived ms))" for a
    using doc p by (simp add: ssl_documented_def)
  show "prefix (delivered_bytes t) (dec (arrived ms))"
  proof (cases "mState t = Connecting \<or> mState t = Connected")
    case True
    with i have "delivered_bytes t = dec (v_fed V (mSsl t))"
      "v_fed V (mSsl t) @ concat (map data (mQueue (mIncomingQueue t))) = arrived ms"
      by (simp_all add: tls_inv_def tls_working_def)
    then show ?thesis using mono by (metis prefixI)
  next
    case False
    with i show ?thesis by (simp add: tls_inv_def)
  qed
  assume idle: "\<not> r" "mPendingRecvCount t = 0"
  show "delivered_bytes t = dec (arrived ms) \<and> (None \<in> set ms \<longleftrightarrow> mState t = Disconnected \<or> mState t = Failed)"
  proof (cases "mState t = Connecting \<or> mState t = Connected")
    case True
    with i idle have w: "tls_working usable sent n V dec t" "None \<notin> set ms" "mQueue (mIncomingQueue t) = []"
      by (simp_all add: tls_inv_def)
    from i True have "v_fed V (mSsl t) @ concat (map data (mQueue (mIncomingQueue t))) = arrived ms"
      by (simp add: tls_inv_def)
    with w have "delivered_bytes t = dec (arrived ms)" by (simp add: tls_working_def)
    with w(2) True show ?thesis by auto
  next
    case False
    with i show ?thesis by (auto simp: tls_inv_def)
  qed
qed

section \<open>Starting and closing\<close>

definition ssl_fresh :: "'s ssl_view \<Rightarrow> 's \<Rightarrow> bool" where
  "ssl_fresh V s \<longleftrightarrow> v_fed V s = [] \<and> v_taken V s = [] \<and> v_pending V s = [] \<and> v_wire V s = []"

context byte_stream
begin

text \<open>\<open>start\<close> on a new session sends what the handshake begins with, and waits.\<close>

lemma tls_starts:
  assumes doc: "ssl_documented L V peer dec enc" and s: "ssl_fresh V s" "dec [] = []" and l: "usable l" "n = length (sent l)"
  obtains t where
    "TlsTransport_start L ops (Transport_onRecv True (TlsTransport_new l act host s cb)) = Some (Inr (), t)"
    "tls_inv usable sent n V dec [] (False, t)" "mPendingRecvCount t = 0" "mState t = Connecting"
    "mIncomingQueue t = Queue_new RECV_QUEUE_LIMIT (Some message_size_func)"
proof -
  let ?n = "Transport_onRecv True (TlsTransport_new l act host s cb)"
  define u where "u = Transport_changeState Connecting (Transport_registerIncoming ops ?n)"
  have bio: "bio_documented L V" and hs: "handshake_documented L V peer dec enc" using doc by (simp_all add: ssl_documented_def)
  have t: "mLower u = Some (lower_onRecv ops l True)" "mSsl u = s" "mState u = Connecting" "mRecvCallback u"
    "received (trace u) = []" "mIncomingQueue u = Queue_new RECV_QUEUE_LIMIT (Some message_size_func)" "mPendingRecvCount u = 0"
    by (simp_all add: u_def Transport_changeState_def Transport_registerIncoming_def Transport_onRecv_def TlsTransport_new_def
        Transport_new_def Transport.defs TlsTransport.defs)
  have link: "tls_linked usable sent n V u"
    using l s(1) listen_usable listen_sent by (simp add: tls_linked_def t ssl_fresh_def)
  have "prefix (v_fed V s) peer" using s(1) by (simp add: ssl_fresh_def)
  with hs obtain err "is" s1 where h: "SSL_do_handshake L s = (err, is, s1)" "no_alerts is" "writes V s s1"
    "v_fed V s1 = v_fed V s" "v_taken V s1 = v_taken V s" "err = SSL_ERROR_NONE \<or> err = SSL_ERROR_WANT_READ"
    unfolding handshake_documented_def by metis
  obtain b l2 s2 where
    c: "ssl_call_flush L ops (SSL_do_handshake L) u = Some (Inr (err, b), u\<lparr>mLower := Some l2, mSsl := s2\<rparr>)"
      "tls_linked usable sent n V (u\<lparr>mLower := Some l2, mSsl := s2\<rparr>)" "same_input V s1 s2"
    by (rule ssl_call_flush_linked [where f = "SSL_do_handshake L", OF bio link h(1-3) [folded t(2)]])
  let ?s3 = "ERR_clear_error L s2"
  let ?v = "u\<lparr>mLower := Some l2, mSsl := ?s3\<rparr>"
  note e = ERR_clear_same [OF bio, of s2]
  show thesis
  proof (rule that [of ?v])
    show "TlsTransport_start L ops ?n = Some (Inr (), ?v)"
      using c(1) h(6) by (auto simp: TlsTransport_start_def Let_def u_def [symmetric] check_error_ok)
    have link': "tls_linked usable sent n V ?v" by (rule tls_linked_cong [OF c(2)]) (simp_all add: e)
    have fed: "v_fed V ?s3 = []" "v_taken V ?s3 = []"
      using e c(3) h(4,5) s(1) by (simp_all add: same_input_def ssl_fresh_def)
    have "tls_working usable sent n V dec ?v"
      using link' fed t s(2) by (simp add: tls_working_def delivered_bytes_def)
    then show "tls_inv usable sent n V dec [] (False, ?v)"
      using t fed by (simp add: tls_inv_def Queue_new_def)
  qed (use t in simp_all)
qed

end

text \<open>
  \<open>SSL_shutdown\<close> leaves the close notification in the output BIO, and nothing flushes it any more: after
  the end of \<open>doRecv\<close> no step hands a byte to the transport below or touches the session.
\<close>

lemma doRecv_finish_session: "mSsl (doRecv_finish L False t) = snd (snd (SSL_shutdown L (mSsl t)))"
  by (cases "SSL_shutdown L (mSsl t)") (simp add: doRecv_finish_def ssl_call_def fold_InfoCallback Let_def)

definition tls_over :: "('l, 's) TlsTransport \<Rightarrow> bool" where
  "tls_over t \<longleftrightarrow> mState t = Disconnected \<or> mState t = Failed"

lemma doRecv_finish_over: "tls_over (doRecv_finish L b t)"
  by (simp add: tls_over_def doRecv_finish_ends)

lemma TlsTransport_incoming_keeps:
  assumes "TlsTransport_incoming m t = Some t'"
  shows "mState t' = mState t" "mLower t' = mLower t" "mSsl t' = mSsl t" "trace t' = trace t"
  using assms by (auto simp: TlsTransport_incoming_def bind_eq_Some_conv split: option.splits)

lemma TlsTransport_stop_keeps:
  "mState (TlsTransport_stop a ops t) = mState t" "mSsl (TlsTransport_stop a ops t) = mSsl t"
  "mLower (TlsTransport_stop a ops t) = map_option (\<lambda>l. lower_onRecv ops l False) (mLower t)"
  by (simp_all add: TlsTransport_stop_def Transport_unregisterIncoming_def Let_def)

context byte_stream
begin

lemma tls_over_step:
  assumes s: "tls_step L ops (False, t) e (r, t')" and o: "tls_over t"
  shows "tls_over t' \<and> \<not> r \<and> mSsl t' = mSsl t \<and> map_option sent (mLower t') = map_option sent (mLower t)"
  using s
proof (cases rule: tls_step.cases)
  case (incoming m)
  then show ?thesis using o TlsTransport_incoming_keeps [of m t t'] by (simp add: tls_over_def)
next
  case stopped
  then show ?thesis using o listen_sent
    by (simp add: tls_over_def TlsTransport_stop_keeps option.map_comp comp_def)
next
  case (send m res)
  then show ?thesis using o by (auto simp: tls_over_def TlsTransport_send_def)
next
  case begins
  then show ?thesis using o by (auto simp: tls_over_def doRecv_begin_def Let_def)
qed simp_all

lemma tls_over_run:
  assumes "tls_run L ops (False, t) ms c" "tls_over t"
  shows "\<exists>t'. c = (False, t') \<and> tls_over t' \<and> mSsl t' = mSsl t \<and> map_option sent (mLower t') = map_option sent (mLower t)"
  using assms(1)
proof (induction rule: tls_run.induct)
  case run_nil
  show ?case using assms(2) by blast
next
  case (run_step ms c' e c'')
  then obtain u where u: "c' = (False, u)" "tls_over u" "mSsl u = mSsl t" "map_option sent (mLower u) = map_option sent (mLower t)"
    by blast
  obtain r t' where c'': "c'' = (r, t')" by (cases c'')
  from tls_over_step [OF run_step.hyps(2) [unfolded u(1) c''] u(2)] u(3,4) c'' show ?case by auto
qed

end

end
