(* ===== verification/Wsc_TlsPull.thy ===== *)
theory Wsc_TlsPull
  imports Wsc_TlsReceive
begin

text \<open>
  The TLS transport of the two other builds (the GnuTLS and MbedTLS branches of
  \<open>src/impl/tlstransport.cpp\<close>, and the \<open>check\<close> functions of \<open>src/impl/tls.cpp\<close>). These libraries pull
  and push their bytes through callbacks of the transport.

  \<^item> The library is a parameter. A call of it is an interaction tree \<open>tls_call\<close>: a tree that asks for
    bytes with \<open>ReadCallback\<close>, hands out bytes with \<open>WriteCallback\<close>, and returns; \<open>run_call\<close> executes it
    on the transport.
  \<^item> A return value is an \<open>int\<close>, negative for an error. The error codes that the code names are
    constants of the library's headers, and \<open>gnutls_error_is_fatal\<close> is a parameter.
  \<^item> The receive callback of the transport cannot raise (\<open>recv\<close> catches), so the exception handlers of
    the read callbacks have nothing to catch; the ones around \<open>outgoing\<close> do.
\<close>

record ('l, 's) PullTransport = "'l Transport" +
  pHost :: "string option"
  pIsClient :: bool
  pIncomingQueue :: "Message Queue"
  pPendingRecvCount :: int
  mIncomingMessage :: message_ptr
  mIncomingMessagePosition :: nat
  mOutgoingResult :: bool
  mSession :: 's

text \<open>
  What a read callback returns: some bytes, nothing yet (\<open>EAGAIN\<close>, \<open>WANT_READ\<close>), or an error for the end
  of the stream (\<open>MBEDTLS_ERR_SSL_CONN_EOF\<close>). GnuTLS has no such error: its callback reports the end
  with a count of zero, which is \<open>Bytes []\<close>.
\<close>

datatype pulled = Bytes binary | Again | ConnEof

datatype ('s, 'r) tls_call =
    Returns 'r 's
  | Pulls nat "pulled \<Rightarrow> ('s, 'r) tls_call"
  | Pushes binary "bool \<Rightarrow> ('s, 'r) tls_call"

datatype backend = GnuTLS | MbedTLS

section \<open>The callbacks\<close>

text \<open>
  The loop that looks for the next message with data; an empty one is handed up. It leaves the last
  message it took, which is empty if the queue ran out.
\<close>

function next_message :: "('l, 's) PullTransport \<Rightarrow> ('l, 's) PullTransport" where
  "next_message t =
     (case Queue_pop (pIncomingQueue t) of
        (None, _) \<Rightarrow> t
      | (Some m, q) \<Rightarrow>
          let t = t\<lparr>pIncomingQueue := q, mIncomingMessage := Some m\<rparr>
          in if data m \<noteq> [] then t else next_message (Transport_recv (Some m) t))"
  by pat_completeness auto

termination
  by (relation "measure (\<lambda>t. length (mQueue (pIncomingQueue t)))")
    (auto simp: Queue_pop_def Transport_recv_def split: list.splits)

declare next_message.simps [simp del]

definition ReadCallback :: "backend \<Rightarrow> nat \<Rightarrow> ('l, 's) PullTransport \<Rightarrow> pulled \<times> ('l, 's) PullTransport" where
  "ReadCallback B maxlen t =
     (let t = (case mIncomingMessage t of
                 Some m \<Rightarrow> if mIncomingMessagePosition t \<ge> length (data m) then t\<lparr>mIncomingMessage := None\<rparr> else t
               | None \<Rightarrow> t);
          t = (if mIncomingMessage t = None then next_message (t\<lparr>mIncomingMessagePosition := 0\<rparr>) else t)
      in case mIncomingMessage t of
           Some m \<Rightarrow>
             let available = length (data m) - mIncomingMessagePosition t;
                 len = min maxlen available
             in (Bytes (take len (drop (mIncomingMessagePosition t) (data m))),
                 t\<lparr>mIncomingMessagePosition := mIncomingMessagePosition t + len\<rparr>)
         | None \<Rightarrow> if Queue_running (pIncomingQueue t) then (Again, t)
                    else (case B of GnuTLS \<Rightarrow> Bytes [] | MbedTLS \<Rightarrow> ConnEof, t))"

definition PullTransport_outgoing ::
  "'l lower_ops \<Rightarrow> message_ptr \<Rightarrow> ('l, 's) PullTransport \<Rightarrow> bool res \<times> ('l, 's) PullTransport" where
  "PullTransport_outgoing ops message t =
     (case Transport_outgoing ops message t of
        (Inl e, t) \<Rightarrow> (Inl e, t)
      | (Inr result, t) \<Rightarrow> (Inr result, t\<lparr>mOutgoingResult := result\<rparr>))"

text \<open>
  The write callbacks. The one of GnuTLS catches an exception and fails with \<open>ECONNRESET\<close>, the result
  \<open>False\<close>; the one of MbedTLS lets it fly through the library.
\<close>

definition WriteCallback ::
  "backend \<Rightarrow> 'l lower_ops \<Rightarrow> binary \<Rightarrow> ('l, 's) PullTransport \<Rightarrow> bool res \<times> ('l, 's) PullTransport" where
  "WriteCallback B ops b t =
     (case B of
        GnuTLS \<Rightarrow>
          if b = [] then (Inr True, t)
          else (case PullTransport_outgoing ops (Some (make_message b Binary)) t of
                  (Inl e, t) \<Rightarrow> (Inr False, t)
                | (Inr _, t) \<Rightarrow> (Inr True, t))
      | MbedTLS \<Rightarrow>
          (case PullTransport_outgoing ops (Some (make_message b Binary)) t of
             (Inl e, t) \<Rightarrow> (Inl e, t)
           | (Inr _, t) \<Rightarrow> (Inr True, t)))"

text \<open>The time-out callback of GnuTLS: whether a read would find something.\<close>

definition TimeoutCallback :: "('l, 's) PullTransport \<Rightarrow> bool" where
  "TimeoutCallback t =
     ((case mIncomingMessage t of Some m \<Rightarrow> mIncomingMessagePosition t < length (data m) | None \<Rightarrow> False)
      \<or> \<not> Queue_empty (pIncomingQueue t))"

text \<open>
  An exception that flies through the library ends the call; the code does not use the session in a way
  that depends on what it is then, and the model leaves it as it was.
\<close>

primrec run_call ::
  "backend \<Rightarrow> 'l lower_ops \<Rightarrow> ('s, 'r) tls_call \<Rightarrow> ('l, 's) PullTransport \<Rightarrow> 'r res \<times> ('l, 's) PullTransport" where
  "run_call B ops (Returns r s) t = (Inr r, t\<lparr>mSession := s\<rparr>)"
| "run_call B ops (Pulls n k) t = (case ReadCallback B n t of (r, t) \<Rightarrow> run_call B ops (k r) t)"
| "run_call B ops (Pushes b k) t =
     (case WriteCallback B ops b t of
        (Inl e, t) \<Rightarrow> (Inl e, t)
      | (Inr r, t) \<Rightarrow> run_call B ops (k r) t)"

section \<open>The operations\<close>

record 's pull_lib =
  lib_handshake :: "'s \<Rightarrow> ('s, int) tls_call"
  lib_recv :: "nat \<Rightarrow> 's \<Rightarrow> ('s, int \<times> binary) tls_call"
  lib_send :: "binary \<Rightarrow> 's \<Rightarrow> ('s, int) tls_call"
  lib_bye :: "'s \<Rightarrow> ('s, int) tls_call"
  error_is_fatal :: "int \<Rightarrow> bool"
  strerror :: "int \<Rightarrow> string"

definition GNUTLS_E_AGAIN :: int where "GNUTLS_E_AGAIN = - 28"
definition GNUTLS_E_INTERRUPTED :: int where "GNUTLS_E_INTERRUPTED = - 52"
definition GNUTLS_E_PREMATURE_TERMINATION :: int where "GNUTLS_E_PREMATURE_TERMINATION = - 110"
definition MBEDTLS_ERR_SSL_WANT_READ :: int where "MBEDTLS_ERR_SSL_WANT_READ = - 0x6900"
definition MBEDTLS_ERR_SSL_WANT_WRITE :: int where "MBEDTLS_ERR_SSL_WANT_WRITE = - 0x6880"
definition MBEDTLS_ERR_SSL_ASYNC_IN_PROGRESS :: int where "MBEDTLS_ERR_SSL_ASYNC_IN_PROGRESS = - 0x6500"
definition MBEDTLS_ERR_SSL_CRYPTO_IN_PROGRESS :: int where "MBEDTLS_ERR_SSL_CRYPTO_IN_PROGRESS = - 0x7000"
definition MBEDTLS_ERR_SSL_PEER_CLOSE_NOTIFY :: int where "MBEDTLS_ERR_SSL_PEER_CLOSE_NOTIFY = - 0x7880"
definition MBEDTLS_ERR_SSL_RECEIVED_NEW_SESSION_TICKET :: int where
  "MBEDTLS_ERR_SSL_RECEIVED_NEW_SESSION_TICKET = - 0x7B00"

definition gnutls_check :: "'s pull_lib \<Rightarrow> int \<Rightarrow> string \<Rightarrow> bool res" where
  "gnutls_check L ret message =
     (if ret < 0
      then if \<not> error_is_fatal L ret then Inr False
           else Inl (runtime_error (message @ '': '' @ strerror L ret))
      else Inr True)"

definition mbedtls_check :: "'s pull_lib \<Rightarrow> int \<Rightarrow> string \<Rightarrow> bool res" where
  "mbedtls_check L ret message =
     (if ret < 0
      then if ret = MBEDTLS_ERR_SSL_WANT_READ \<or> ret = MBEDTLS_ERR_SSL_WANT_WRITE \<or>
              ret = MBEDTLS_ERR_SSL_ASYNC_IN_PROGRESS \<or> ret = MBEDTLS_ERR_SSL_CRYPTO_IN_PROGRESS \<or>
              ret = MBEDTLS_ERR_SSL_PEER_CLOSE_NOTIFY \<or> ret = MBEDTLS_ERR_SSL_RECEIVED_NEW_SESSION_TICKET
           then Inr False
           else Inl (runtime_error (message @ '': '' @ strerror L ret))
      else Inr True)"

definition pull_enqueueRecv :: "bool \<Rightarrow> ('l, 's) PullTransport \<Rightarrow> ('l, 's) PullTransport" where
  "pull_enqueueRecv alive t =
     (if pPendingRecvCount t > 0 then t
      else if alive then t\<lparr>pPendingRecvCount := pPendingRecvCount t + 1\<rparr> else t)"

definition PullTransport_new :: "'l \<Rightarrow> bool \<Rightarrow> string option \<Rightarrow> 's \<Rightarrow> bool \<Rightarrow> ('l, 's) PullTransport" where
  "PullTransport_new lower lowerIsActive host session cb =
     Transport.extend (Transport_new (Some lower) cb)
       (PullTransport.fields host lowerIsActive (Queue_new RECV_QUEUE_LIMIT (Some message_size_func)) 0 None 0 True session)"

definition PullTransport_start :: "'l lower_ops \<Rightarrow> ('l, 's) PullTransport \<Rightarrow> ('l, 's) PullTransport" where
  "PullTransport_start ops t =
     pull_enqueueRecv True (Transport_changeState Connecting (Transport_registerIncoming ops t))"

definition PullTransport_stop :: "bool \<Rightarrow> 'l lower_ops \<Rightarrow> ('l, 's) PullTransport \<Rightarrow> ('l, 's) PullTransport" where
  "PullTransport_stop alive ops t =
     (let t = Transport_unregisterIncoming ops t
      in pull_enqueueRecv alive (t\<lparr>pIncomingQueue := Queue_stop (pIncomingQueue t)\<rparr>))"

definition PullTransport_incoming :: "message_ptr \<Rightarrow> ('l, 's) PullTransport \<Rightarrow> ('l, 's) PullTransport option" where
  "PullTransport_incoming message t =
     (case message of
        None \<Rightarrow> Some (pull_enqueueRecv True (t\<lparr>pIncomingQueue := Queue_stop (pIncomingQueue t)\<rparr>))
      | Some m \<Rightarrow>
          Option.bind (Queue_push (pIncomingQueue t) m)
            (\<lambda>q. Some (pull_enqueueRecv True (t\<lparr>pIncomingQueue := q\<rparr>))))"

text \<open>The loop of \<open>send\<close>: it calls the library again while that asks for it.\<close>

definition send_again :: "backend \<Rightarrow> int \<Rightarrow> bool" where
  "send_again B ret \<longleftrightarrow>
     (case B of
        GnuTLS \<Rightarrow> ret = GNUTLS_E_INTERRUPTED \<or> ret = GNUTLS_E_AGAIN
      | MbedTLS \<Rightarrow> ret = MBEDTLS_ERR_SSL_WANT_WRITE)"

partial_function (option) send_loop ::
  "backend \<Rightarrow> 's pull_lib \<Rightarrow> 'l lower_ops \<Rightarrow> binary \<Rightarrow> ('l, 's) PullTransport
   \<Rightarrow> (int res \<times> ('l, 's) PullTransport) option" where
  "send_loop B L ops d t =
     (case run_call B ops (lib_send L d (mSession t)) t of (r, t) \<Rightarrow>
        case r of
          Inl e \<Rightarrow> Some (Inl e, t)
        | Inr ret \<Rightarrow> if send_again B ret then send_loop B L ops d t else Some (Inr ret, t))"

definition backend_check :: "backend \<Rightarrow> 's pull_lib \<Rightarrow> int \<Rightarrow> string \<Rightarrow> bool res" where
  "backend_check B L ret message =
     (case B of GnuTLS \<Rightarrow> gnutls_check L ret message | MbedTLS \<Rightarrow> mbedtls_check L ret message)"

definition backend_error :: "backend \<Rightarrow> string" where
  "backend_error B = (case B of GnuTLS \<Rightarrow> ''GnuTLS error'' | MbedTLS \<Rightarrow> ''MbedTLS error'')"

definition PullTransport_send ::
  "backend \<Rightarrow> 's pull_lib \<Rightarrow> 'l lower_ops \<Rightarrow> message_ptr \<Rightarrow> ('l, 's) PullTransport
   \<Rightarrow> (bool res \<times> ('l, 's) PullTransport) option" where
  "PullTransport_send B L ops message t =
     (if mState t \<noteq> Connected then Some (Inl (runtime_error ''TLS is not open''), t)
      else case message of
        None \<Rightarrow> Some (PullTransport_outgoing ops None t)
      | Some m \<Rightarrow>
          if data m = [] then Some (PullTransport_outgoing ops (Some m) t)
          else Option.bind (send_loop B L ops (data m) t) (\<lambda>(r, t).
            Some (case r of
              Inl e \<Rightarrow> (Inl e, t)
            | Inr ret \<Rightarrow>
                (case backend_check B L ret (backend_error B) of
                   Inl e \<Rightarrow> (Inl e, t)
                 | Inr ok \<Rightarrow>
                     if ok then (Inr (mOutgoingResult t), t)
                     else (Inl (runtime_error ''TLS send failed''), t)))))"

section \<open>doRecv\<close>

definition again_code :: "backend \<Rightarrow> int" where
  "again_code B = (case B of GnuTLS \<Rightarrow> GNUTLS_E_AGAIN | MbedTLS \<Rightarrow> MBEDTLS_ERR_SSL_WANT_READ)"

definition closed_code :: "backend \<Rightarrow> int" where
  "closed_code B = (case B of GnuTLS \<Rightarrow> GNUTLS_E_PREMATURE_TERMINATION | MbedTLS \<Rightarrow> MBEDTLS_ERR_SSL_PEER_CLOSE_NOTIFY)"

text \<open>How a part of \<open>doRecv\<close> ends: it goes on after it, the function returns, or an exception is caught.\<close>

datatype pull_end = GoesOn | Return | Caught exn

partial_function (option) pull_handshake ::
  "backend \<Rightarrow> 's pull_lib \<Rightarrow> 'l lower_ops \<Rightarrow> ('l, 's) PullTransport \<Rightarrow> (pull_end \<times> ('l, 's) PullTransport) option" where
  "pull_handshake B L ops t =
     (case run_call B ops (lib_handshake L (mSession t)) t of (r, t) \<Rightarrow>
        case r of
          Inl e \<Rightarrow> Some (Caught e, t)
        | Inr ret \<Rightarrow>
            if ret = again_code B then Some (Return, t)
            else case backend_check B L ret ''Handshake failed'' of
              Inl e \<Rightarrow> Some (Caught e, t)
            | Inr finished \<Rightarrow>
                if finished then Some (GoesOn, Transport_changeState Connected t)
                else pull_handshake B L ops t)"

partial_function (option) pull_read ::
  "backend \<Rightarrow> 's pull_lib \<Rightarrow> 'l lower_ops \<Rightarrow> ('l, 's) PullTransport \<Rightarrow> (pull_end \<times> ('l, 's) PullTransport) option" where
  "pull_read B L ops t =
     (case run_call B ops (lib_recv L BUFFER_SIZE (mSession t)) t of (r, t) \<Rightarrow>
        case r of
          Inl e \<Rightarrow> Some (Caught e, t)
        | Inr (ret, buffer) \<Rightarrow>
            if ret = again_code B then Some (Return, t)
            else if ret = closed_code B then Some (GoesOn, t)
            else case backend_check B L ret (backend_error B) of
              Inl e \<Rightarrow> Some (Caught e, t)
            | Inr ok \<Rightarrow>
                if ok \<and> ret = 0 then Some (GoesOn, t)
                else if ok
                then pull_read B L ops (Transport_recv (Some (make_message (take (nat ret) buffer) Binary)) t)
                else pull_read B L ops t)"

text \<open>After the try block. \<open>gnutls_bye\<close> sends the close notification; nothing in the MbedTLS branch does.\<close>

definition pull_finish ::
  "backend \<Rightarrow> 's pull_lib \<Rightarrow> 'l lower_ops \<Rightarrow> ('l, 's) PullTransport \<Rightarrow> ('l, 's) PullTransport" where
  "pull_finish B L ops t =
     (let t = (case B of GnuTLS \<Rightarrow> snd (run_call B ops (lib_bye L (mSession t)) t) | MbedTLS \<Rightarrow> t)
      in if mState t = Connected
         then Transport_recv None (Transport_changeState Disconnected t)
         else Transport_changeState Failed t)"

definition pull_doRecv ::
  "backend \<Rightarrow> 's pull_lib \<Rightarrow> 'l lower_ops \<Rightarrow> ('l, 's) PullTransport \<Rightarrow> ('l, 's) PullTransport option" where
  "pull_doRecv B L ops t =
     (let t = t\<lparr>pPendingRecvCount := pPendingRecvCount t - 1\<rparr>
      in if B = MbedTLS \<and> mState t \<noteq> Connecting \<and> mState t \<noteq> Connected then Some t
         else Option.bind (if mState t = Connecting then pull_handshake B L ops t else Some (GoesOn, t)) (\<lambda>(a, t).
           case a of
             Return \<Rightarrow> Some t
           | Caught e \<Rightarrow> Some (pull_finish B L ops t)
           | GoesOn \<Rightarrow>
               Option.bind (if mState t = Connected then pull_read B L ops t else Some (GoesOn, t)) (\<lambda>(a, t).
                 Some (if a = Return then t else pull_finish B L ops t))))"

section \<open>The stream that the read callback serves\<close>

lemma PullTransport_base_simps [simp]:
  "pIncomingQueue (Transport_recv m t) = pIncomingQueue t" "mIncomingMessage (Transport_recv m t) = mIncomingMessage t"
  "mIncomingMessagePosition (Transport_recv m t) = mIncomingMessagePosition t" "mSession (Transport_recv m t) = mSession t"
  "mSession (Transport_changeState s t) = mSession t" "pIncomingQueue (Transport_changeState s t) = pIncomingQueue t"
  by (simp_all add: Transport_recv_def Transport_changeState_def)

text \<open>What is still to be read: the rest of the current message, then the messages of the queue.\<close>

definition unread :: "('l, 's) PullTransport \<Rightarrow> binary" where
  "unread t =
     (case mIncomingMessage t of None \<Rightarrow> [] | Some m \<Rightarrow> drop (mIncomingMessagePosition t) (data m))
     @ concat (map data (mQueue (pIncomingQueue t)))"

definition no_empty :: "('l, 's) PullTransport \<Rightarrow> bool" where
  "no_empty t \<longleftrightarrow> list_all (\<lambda>m. data m \<noteq> []) (mQueue (pIncomingQueue t))"

definition end_of_stream :: "backend \<Rightarrow> pulled" where
  "end_of_stream B = (case B of GnuTLS \<Rightarrow> Bytes [] | MbedTLS \<Rightarrow> ConnEof)"

fun pulled_bytes :: "pulled \<Rightarrow> binary" where
  "pulled_bytes (Bytes b) = b"
| "pulled_bytes Again = []"
| "pulled_bytes ConnEof = []"

lemma next_message_no_empty:
  assumes "no_empty t"
  shows "next_message t =
    (case mQueue (pIncomingQueue t) of
       [] \<Rightarrow> t
     | m # rest \<Rightarrow> t\<lparr>pIncomingQueue := snd (Queue_pop (pIncomingQueue t)), mIncomingMessage := Some m\<rparr>)"
  using assms by (subst next_message.simps) (auto simp: Queue_pop_def no_empty_def split: list.splits)

text \<open>The two ways into the callback: a current message with bytes left, or a look into the queue.\<close>

definition reads_current :: "('l, 's) PullTransport \<Rightarrow> bool" where
  "reads_current t \<longleftrightarrow> (\<exists>m. mIncomingMessage t = Some m \<and> mIncomingMessagePosition t < length (data m))"

definition serve_current :: "nat \<Rightarrow> Message \<Rightarrow> ('l, 's) PullTransport \<Rightarrow> pulled \<times> ('l, 's) PullTransport" where
  "serve_current maxlen m t =
     (let len = min maxlen (length (data m) - mIncomingMessagePosition t)
      in (Bytes (take len (drop (mIncomingMessagePosition t) (data m))),
          t\<lparr>mIncomingMessagePosition := mIncomingMessagePosition t + len\<rparr>))"

lemma ReadCallback_cases:
  "ReadCallback B n t =
     (let t = (if reads_current t then t else next_message (t\<lparr>mIncomingMessage := None, mIncomingMessagePosition := 0\<rparr>))
      in case mIncomingMessage t of
           Some m \<Rightarrow> serve_current n m t
         | None \<Rightarrow> if Queue_running (pIncomingQueue t) then (Again, t) else (end_of_stream B, t))"
proof (cases "mIncomingMessage t")
  case None
  have "t\<lparr>mIncomingMessage := None, mIncomingMessagePosition := 0\<rparr> = t\<lparr>mIncomingMessagePosition := 0\<rparr>"
    using None by (cases t) simp
  then have "next_message (t\<lparr>mIncomingMessage := None, mIncomingMessagePosition := 0\<rparr>) =
      next_message (t\<lparr>mIncomingMessagePosition := 0\<rparr>)" by (rule arg_cong)
  with None show ?thesis
    by (simp add: ReadCallback_def reads_current_def serve_current_def end_of_stream_def Let_def split: option.split)
next
  case (Some m)
  then show ?thesis
    by (simp add: ReadCallback_def reads_current_def serve_current_def end_of_stream_def Let_def not_less split: option.split)
qed

lemma serve_current_unread:
  assumes "mIncomingMessage t = Some m" "mIncomingMessagePosition t < length (data m)" "n > 0" "serve_current n m t = (r, t')"
  shows "\<exists>b. r = Bytes b \<and> b \<noteq> [] \<and> length b \<le> n \<and> b @ unread t' = unread t \<and> pIncomingQueue t' = pIncomingQueue t"
proof -
  let ?p = "mIncomingMessagePosition t"
  let ?len = "min n (length (data m) - ?p)"
  have "take ?len (drop ?p (data m)) @ drop (?p + ?len) (data m) = drop ?p (data m)"
    by (metis append_take_drop_id drop_drop add.commute)
  with assms show ?thesis by (auto simp: serve_current_def unread_def Let_def)
qed

text \<open>
  One call of the callback, when no queued message is empty: it serves the next bytes if there are any,
  and otherwise tells a stream that has ended from one that has not.
\<close>

lemma ReadCallback_serves:
  assumes ne: "no_empty t" and n: "n > 0" and r: "ReadCallback B n t = (r, t')"
  shows "pulled_bytes r @ unread t' = unread t \<and> length (pulled_bytes r) \<le> n \<and> no_empty t'
    \<and> mStopping (pIncomingQueue t') = mStopping (pIncomingQueue t)
    \<and> r = (if unread t \<noteq> [] then Bytes (pulled_bytes r)
            else if mStopping (pIncomingQueue t) then end_of_stream B else Again)
    \<and> (unread t \<noteq> [] \<longrightarrow> pulled_bytes r \<noteq> [])"
proof (cases "reads_current t")
  case True
  then obtain m where m: "mIncomingMessage t = Some m" "mIncomingMessagePosition t < length (data m)"
    by (auto simp: reads_current_def)
  with r True have "serve_current n m t = (r, t')" by (simp add: ReadCallback_cases)
  from serve_current_unread [OF m n this] ne show ?thesis by (auto simp: no_empty_def)
next
  case False
  define u where "u = t\<lparr>mIncomingMessage := None, mIncomingMessagePosition := 0\<rparr>"
  have u: "pIncomingQueue u = pIncomingQueue t" "no_empty u" "mIncomingMessage u = None" "mIncomingMessagePosition u = 0"
    using ne by (simp_all add: u_def no_empty_def)
  have un: "unread t = concat (map data (mQueue (pIncomingQueue t)))"
    using False by (auto simp: unread_def reads_current_def split: option.splits)
  show ?thesis
  proof (cases "mQueue (pIncomingQueue t)")
    case Nil
    with next_message_no_empty [OF u(2)] u(1) have "next_message u = u" by simp
    with r False u Nil have "r = (if mStopping (pIncomingQueue t) then end_of_stream B else Again)" "t' = u"
      by (simp_all add: ReadCallback_cases u_def [symmetric] Queue_running_def split: if_splits)
    then show ?thesis using Nil un u by (auto simp: unread_def end_of_stream_def split: backend.splits)
  next
    case (Cons m rest)
    let ?v = "u\<lparr>pIncomingQueue := snd (Queue_pop (pIncomingQueue u)), mIncomingMessage := Some m\<rparr>"
    have v: "next_message u = ?v" using next_message_no_empty [OF u(2)] u(1) Cons by simp
    have m: "data m \<noteq> []" "list_all (\<lambda>m. data m \<noteq> []) rest" using ne Cons by (simp_all add: no_empty_def)
    have q: "mQueue (pIncomingQueue ?v) = rest" "mStopping (pIncomingQueue ?v) = mStopping (pIncomingQueue t)"
      using Cons u(1) by (simp_all add: Queue_pop_def)
    have uv: "unread ?v = unread t" "mIncomingMessage ?v = Some m" "mIncomingMessagePosition ?v < length (data m)"
      using q(1) m(1) u(4) un Cons by (simp_all add: unread_def)
    from r False v have "serve_current n m ?v = (r, t')" by (simp add: ReadCallback_cases u_def [symmetric])
    from serve_current_unread [OF uv(2,3) n this] uv(1) q m show ?thesis by (auto simp: no_empty_def)
  qed
qed

text \<open>Any sequence of arrivals and calls of the callback.\<close>

datatype pull_event = Arrives Message | Reads nat

fun serve :: "backend \<Rightarrow> pull_event list \<Rightarrow> ('l, 's) PullTransport \<Rightarrow> (pulled list \<times> ('l, 's) PullTransport) option" where
  "serve B [] t = Some ([], t)"
| "serve B (Arrives m # es) t = Option.bind (PullTransport_incoming (Some m) t) (serve B es)"
| "serve B (Reads n # es) t =
     (case ReadCallback B n t of (r, t) \<Rightarrow> Option.bind (serve B es t) (\<lambda>(rs, t). Some (r # rs, t)))"

fun pushed :: "pull_event list \<Rightarrow> binary" where
  "pushed [] = []"
| "pushed (Arrives m # es) = data m @ pushed es"
| "pushed (Reads n # es) = pushed es"

fun pull_event_ok :: "pull_event \<Rightarrow> bool" where
  "pull_event_ok (Arrives m) \<longleftrightarrow> data m \<noteq> []"
| "pull_event_ok (Reads n) \<longleftrightarrow> n > 0"

lemma PullTransport_incoming_unread:
  assumes "PullTransport_incoming (Some m) t = Some t'" "\<not> mStopping (pIncomingQueue t)" "data m \<noteq> []" "no_empty t"
  shows "unread t' = unread t @ data m" "no_empty t'" "\<not> mStopping (pIncomingQueue t')"
proof -
  from assms(1) obtain q where q: "Queue_push (pIncomingQueue t) m = Some q" "t' = pull_enqueueRecv True (t\<lparr>pIncomingQueue := q\<rparr>)"
    by (auto simp: PullTransport_incoming_def bind_eq_Some_conv)
  with assms(2) have "mQueue q = mQueue (pIncomingQueue t) @ [m]" "\<not> mStopping q" using Queue_push_inv [OF q(1)] by simp_all
  with assms(3,4) show "unread t' = unread t @ data m" "no_empty t'" "\<not> mStopping (pIncomingQueue t')"
    by (simp_all add: q(2) unread_def no_empty_def pull_enqueueRecv_def split: option.split)
qed

lemma serve_stream:
  "list_all pull_event_ok es \<Longrightarrow> no_empty t \<Longrightarrow> \<not> mStopping (pIncomingQueue t) \<Longrightarrow> serve B es t = Some (rs, t') \<Longrightarrow>
   concat (map pulled_bytes rs) @ unread t' = unread t @ pushed es \<and> no_empty t' \<and> \<not> mStopping (pIncomingQueue t')
   \<and> end_of_stream B \<notin> set rs"
proof (induction B es t arbitrary: rs rule: serve.induct)
  case (2 B m es t)
  then obtain u where u: "PullTransport_incoming (Some m) t = Some u" "serve B es u = Some (rs, t')"
    by (auto simp: bind_eq_Some_conv)
  note i = PullTransport_incoming_unread [OF u(1) 2(4) _ 2(3)]
  with 2 u show ?case by simp
next
  case (3 B n es t)
  obtain r u where r: "ReadCallback B n t = (r, u)" by (cases "ReadCallback B n t")
  with 3(5) obtain rs' where rs: "serve B es u = Some (rs', t')" "rs = r # rs'" by (auto simp: bind_eq_Some_conv)
  have n: "n > 0" using 3(2) by simp
  note s = ReadCallback_serves [OF 3(3) n r]
  have ih: "concat (map pulled_bytes rs') @ unread t' = unread u @ pushed es \<and> no_empty t' \<and> \<not> mStopping (pIncomingQueue t')
     \<and> end_of_stream B \<notin> set rs'"
    by (rule "3.IH" [OF r [symmetric] _ _ _ rs(1)]) (use 3 s in simp_all)
  have "r \<noteq> end_of_stream B" using s 3(4) by (cases B; auto simp: end_of_stream_def split: if_splits)
  moreover have "concat (map pulled_bytes rs) @ unread t' = unread t @ pushed (Reads n # es)"
  proof -
    have "concat (map pulled_bytes rs) @ unread t' = pulled_bytes r @ (concat (map pulled_bytes rs') @ unread t')"
      by (simp add: rs(2))
    also have "\<dots> = (pulled_bytes r @ unread u) @ pushed es" using ih by simp
    also have "\<dots> = unread t @ pushed es" using s by simp
    finally show ?thesis by simp
  qed
  ultimately show ?case using ih rs(2) by simp
qed simp

section \<open>An empty message at the end of the queue\<close>

text \<open>
  The TCP transport hands up an empty message when a read times out, so that the WebSocket transport can
  send a ping. If it is the last one in the queue, the callback keeps it as its current message and serves
  its bytes: a count of zero, which both libraries take for the end of the stream.
\<close>

lemma ReadCallback_empty_message:
  assumes "\<not> reads_current t" "mQueue (pIncomingQueue t) = [m]" "data m = []"
  obtains t' where "ReadCallback B n t = (Bytes [], t')" "mState t' = mState t" "mRecvCallback t' = mRecvCallback t"
    "mStateChangeCallback t' = mStateChangeCallback t"
    "trace t' = trace t @ (if mRecvCallback t then [RecvCallback (Some m)] else [])"
    "mStopping (pIncomingQueue t') = mStopping (pIncomingQueue t)" "mLower t' = mLower t"
proof -
  let ?u = "t\<lparr>mIncomingMessage := None, mIncomingMessagePosition := 0\<rparr>"
  obtain q0 where q: "Queue_pop (pIncomingQueue t) = (Some m, q0)" "mQueue q0 = []" "mStopping q0 = mStopping (pIncomingQueue t)"
    using assms(2) by (simp add: Queue_pop_def)
  define w where "w = ?u\<lparr>pIncomingQueue := q0, mIncomingMessage := Some m\<rparr>"
  define v where "v = Transport_recv (Some m) w"
  have v: "pIncomingQueue v = q0" "mIncomingMessage v = Some m" "mIncomingMessagePosition v = 0"
    "mState v = mState t" "mRecvCallback v = mRecvCallback t" "mStateChangeCallback v = mStateChangeCallback t"
    "trace v = trace t @ (if mRecvCallback t then [RecvCallback (Some m)] else [])" "mLower v = mLower t"
    by (simp_all add: v_def w_def)
  have e: "Queue_pop q0 = (None, q0)" using q(2) by (simp add: Queue_pop_def)
  have nv: "next_message v = v" by (subst next_message.simps) (simp add: v(1) e)
  have u: "pIncomingQueue ?u = pIncomingQueue t" by simp
  have nu: "next_message ?u = v"
    by (subst next_message.simps) (simp only: u q(1) prod.case option.case Let_def assms(3) simp_thms if_False w_def [symmetric] v_def [symmetric] nv)
  have self: "v\<lparr>mIncomingMessagePosition := 0\<rparr> = v" using v(3) by (cases v) simp
  have "ReadCallback B n t = (Bytes [], v)"
  proof -
    have "ReadCallback B n t = serve_current n m v" using assms(1) by (simp add: ReadCallback_cases nu v(2))
    also have "\<dots> = (Bytes [], v\<lparr>mIncomingMessagePosition := 0\<rparr>)" by (simp add: serve_current_def assms(3) v(3))
    finally show ?thesis by (simp only: self)
  qed
  from that [OF this] v q show thesis by simp
qed

text \<open>
  What the libraries document for a read of a record when the callback reports a count of zero: the
  connection was closed by the peer, which GnuTLS has a code of its own for and MbedTLS a fatal one.
  \<open>gnutls_bye\<close> sends a close notification.
\<close>

definition eof_documented :: "backend \<Rightarrow> 's pull_lib \<Rightarrow> 's \<Rightarrow> bool" where
  "eof_documented B L s \<longleftrightarrow> (\<exists>n k ret b s'. lib_recv L BUFFER_SIZE s = Pulls n k \<and> k (Bytes []) = Returns (ret, b) s' \<and>
     (case B of
        GnuTLS \<Rightarrow> ret = GNUTLS_E_PREMATURE_TERMINATION \<and> (\<exists>c r s''. lib_bye L s' = Pushes c (\<lambda>_. Returns r s''))
      | MbedTLS \<Rightarrow> ret = - 0x7280))"

lemma PullTransport_outgoing_keeps:
  assumes "PullTransport_outgoing ops m t = (r, t')"
  shows "mState t' = mState t" "trace t' = trace t" "mRecvCallback t' = mRecvCallback t"
  using assms
  by (auto simp: PullTransport_outgoing_def Transport_outgoing_def split: prod.splits sum.splits option.splits)

lemma WriteCallback_keeps:
  assumes "WriteCallback B ops b t = (r, t')"
  shows "mState t' = mState t" "trace t' = trace t" "mRecvCallback t' = mRecvCallback t"
  using assms
  by (auto simp: WriteCallback_def dest: PullTransport_outgoing_keeps split: backend.splits if_splits prod.splits sum.splits)

lemma gnutls_bye_keeps:
  assumes "lib_bye L (mSession t) = Pushes c (\<lambda>_. Returns r s)"
  shows "mState (snd (run_call GnuTLS ops (lib_bye L (mSession t)) t)) = mState t"
    "trace (snd (run_call GnuTLS ops (lib_bye L (mSession t)) t)) = trace t"
    "mRecvCallback (snd (run_call GnuTLS ops (lib_bye L (mSession t)) t)) = mRecvCallback t"
  using assms by (auto split: prod.splits sum.splits dest: WriteCallback_keeps)

lemma pull_finish_open:
  assumes "B = GnuTLS \<Longrightarrow> \<exists>c r s. lib_bye L (mSession t) = Pushes c (\<lambda>_. Returns r s)" "mState t = Connected" "mRecvCallback t"
  shows "mState (pull_finish B L ops t) = Disconnected"
    "received (trace (pull_finish B L ops t)) = received (trace t) @ [None]"
proof -
  have "mState (pull_finish B L ops t) = Disconnected \<and> received (trace (pull_finish B L ops t)) = received (trace t) @ [None]"
  proof (cases B)
    case GnuTLS
    with assms(1) obtain c r s where "lib_bye L (mSession t) = Pushes c (\<lambda>_. Returns r s)" by blast
    from gnutls_bye_keeps [OF this, of ops] assms(2,3) GnuTLS show ?thesis
      by (simp add: pull_finish_def Let_def Transport_changeState_trace)
  qed (use assms in \<open>simp add: pull_finish_def Transport_changeState_trace\<close>)
  then show "mState (pull_finish B L ops t) = Disconnected"
    "received (trace (pull_finish B L ops t)) = received (trace t) @ [None]" by blast+
qed

text \<open>So a time-out of an idle connection ends it.\<close>

lemma pull_idle_ends:
  assumes t: "mState t = Connected" "mRecvCallback t" "\<not> reads_current t" "mQueue (pIncomingQueue t) = [m]" "data m = []"
    and doc: "eof_documented B L (mSession t)"
  obtains t' where "pull_doRecv B L ops t = Some t'" "mState t' = Disconnected"
    "received (trace t') = received (trace t) @ [Some m, None]"
proof -
  let ?t = "t\<lparr>pPendingRecvCount := pPendingRecvCount t - 1\<rparr>"
  from doc obtain n k ret b s' where l: "lib_recv L BUFFER_SIZE (mSession t) = Pulls n k" "k (Bytes []) = Returns (ret, b) s'"
    "case B of GnuTLS \<Rightarrow> ret = GNUTLS_E_PREMATURE_TERMINATION \<and> (\<exists>c r s''. lib_bye L s' = Pushes c (\<lambda>_. Returns r s''))
      | MbedTLS \<Rightarrow> ret = - 0x7280"
    unfolding eof_documented_def by blast
  have cur: "\<not> reads_current ?t" "mQueue (pIncomingQueue ?t) = [m]" using t(3,4) by (simp_all add: reads_current_def)
  obtain u where u: "ReadCallback B n ?t = (Bytes [], u)" "mState u = Connected" "mRecvCallback u"
    "trace u = trace t @ [RecvCallback (Some m)]"
    by (rule ReadCallback_empty_message [OF cur t(5), where B = B and n = n]) (use t(1,2) in simp_all)
  let ?v = "u\<lparr>mSession := s'\<rparr>"
  have run: "run_call B ops (lib_recv L BUFFER_SIZE (mSession ?t)) ?t = (Inr (ret, b), ?v)"
    using l(1,2) u(1) by simp
  have rd: "\<exists>a. pull_read B L ops ?t = Some (a, ?v) \<and> a \<noteq> Return"
    using l(3) run by (subst pull_read.simps)
      (cases B; simp add: again_code_def closed_code_def backend_check_def mbedtls_check_def GNUTLS_E_AGAIN_def
        GNUTLS_E_PREMATURE_TERMINATION_def MBEDTLS_ERR_SSL_WANT_READ_def MBEDTLS_ERR_SSL_WANT_WRITE_def
        MBEDTLS_ERR_SSL_ASYNC_IN_PROGRESS_def MBEDTLS_ERR_SSL_CRYPTO_IN_PROGRESS_def
        MBEDTLS_ERR_SSL_PEER_CLOSE_NOTIFY_def MBEDTLS_ERR_SSL_RECEIVED_NEW_SESSION_TICKET_def)
  then have "pull_doRecv B L ops t = Some (pull_finish B L ops ?v)"
    using t(1) by (auto simp: pull_doRecv_def Let_def)
  moreover have "B = GnuTLS \<Longrightarrow> \<exists>c r s. lib_bye L (mSession ?v) = Pushes c (\<lambda>_. Returns r s)"
    using l(3) by simp
  then have "mState (pull_finish B L ops ?v) = Disconnected"
    "received (trace (pull_finish B L ops ?v)) = received (trace t) @ [Some m, None]"
    using pull_finish_open [of B L ?v ops] u by simp_all
  ultimately show thesis using that by blast
qed

section \<open>Messages longer than a record\<close>

text \<open>
  Both libraries document that a call for sending takes at most one record of data, and returns how
  many bytes it took: \<open>seal\<close> is the record made of them.
\<close>

definition MAX_RECORD :: nat where
  "MAX_RECORD = 16384"

definition one_record :: "'s pull_lib \<Rightarrow> ('s \<Rightarrow> binary \<Rightarrow> binary) \<Rightarrow> ('s \<Rightarrow> binary \<Rightarrow> 's) \<Rightarrow> bool" where
  "one_record L seal next \<longleftrightarrow> (\<forall>d s. lib_send L d s =
     (let d' = take MAX_RECORD d in Pushes (seal s d') (\<lambda>ok. Returns (int (length d')) (next s d'))) \<and> (d \<noteq> [] \<longrightarrow> seal s d \<noteq> []))"

context byte_stream
begin

text \<open>\<open>send\<close> does not look at how many bytes were taken: it reports success and never sends the rest.\<close>

lemma pull_send_one_record:
  assumes doc: "one_record L seal next" and t: "mState t = Connected" "mLower t = Some l" "usable l" and m: "data m \<noteq> []"
  obtains b l' where
    "PullTransport_send B L ops (Some m) t =
       Some (Inr b, t\<lparr>mLower := Some l', mOutgoingResult := b, mSession := next (mSession t) (take MAX_RECORD (data m))\<rparr>)"
    "usable l'" "sent l' = sent l @ seal (mSession t) (take MAX_RECORD (data m))"
    "Transport_outgoing ops (Some (make_message (seal (mSession t) (take MAX_RECORD (data m))) Binary)) t =
       (Inr b, t\<lparr>mLower := Some l'\<rparr>)"
proof -
  let ?d = "take MAX_RECORD (data m)"
  let ?r = "seal (mSession t) ?d"
  have d: "?d \<noteq> []" using m by (simp add: MAX_RECORD_def)
  have l: "lib_send L (data m) (mSession t) = Pushes ?r (\<lambda>ok. Returns (int (length ?d)) (next (mSession t) ?d))" and r: "?r \<noteq> []"
    using doc d by (simp_all add: one_record_def Let_def)
  from outgoing_accepts [OF t(2,3), of "make_message ?r Binary"] obtain b l' where
    o: "Transport_outgoing ops (Some (make_message ?r Binary)) t = (Inr b, t\<lparr>mLower := Some l'\<rparr>)" "usable l'"
      "sent l' = sent l @ data (make_message ?r Binary)" by metis
  have w: "WriteCallback B ops ?r t = (Inr True, t\<lparr>mLower := Some l', mOutgoingResult := b\<rparr>)"
    using r o(1) by (cases B) (simp_all add: WriteCallback_def PullTransport_outgoing_def)
  have pos: "\<not> send_again B (int (length ?d))" "\<not> int (length ?d) < 0"
    by (cases B; simp add: send_again_def GNUTLS_E_INTERRUPTED_def GNUTLS_E_AGAIN_def MBEDTLS_ERR_SSL_WANT_WRITE_def)+
  let ?t = "t\<lparr>mLower := Some l', mOutgoingResult := b, mSession := next (mSession t) ?d\<rparr>"
  have loop: "send_loop B L ops (data m) t = Some (Inr (int (length ?d)), ?t)"
    using pos(1) by (subst send_loop.simps) (simp add: l w del: length_take)
  have "backend_check B L (int (length ?d)) (backend_error B) = Inr True"
    by (cases B) (simp_all add: backend_check_def gnutls_check_def mbedtls_check_def)
  then have "PullTransport_send B L ops (Some m) t = Some (Inr b, ?t)"
    using t(1) m loop by (simp add: PullTransport_send_def del: length_take)
  with o that show thesis by (simp add: make_message_full_def)
qed

end

section \<open>A task after the end\<close>

text \<open>
  The GnuTLS branch of \<open>doRecv\<close> has no test of the state at its start: a task that begins after the
  connection has ended, for instance the one that \<open>stop\<close> enqueues, turns \<open>Disconnected\<close> into \<open>Failed\<close>.
\<close>

lemma pull_doRecv_after_end:
  assumes "mState t = Disconnected" "lib_bye L (mSession t) = Pushes c (\<lambda>_. Returns r s)"
  shows "\<exists>t'. pull_doRecv GnuTLS L ops t = Some t' \<and> mState t' = Failed"
    "pull_doRecv MbedTLS L ops t = Some (t\<lparr>pPendingRecvCount := pPendingRecvCount t - 1\<rparr>)"
proof -
  let ?t = "t\<lparr>pPendingRecvCount := pPendingRecvCount t - 1\<rparr>"
  have "mState (snd (run_call GnuTLS ops (lib_bye L (mSession ?t)) ?t)) = Disconnected"
    using gnutls_bye_keeps(1) [of L ?t c r s ops] assms by simp
  then show "\<exists>t'. pull_doRecv GnuTLS L ops t = Some t' \<and> mState t' = Failed"
    using assms(1) by (simp add: pull_doRecv_def pull_finish_def Let_def)
  show "pull_doRecv MbedTLS L ops t = Some ?t"
    using assms(1) by (simp add: pull_doRecv_def Let_def)
qed

end
