(* ===== verification/Wsc_Calls.thy ===== *)
theory Wsc_Calls
  imports Wsc_Prelude "HOL-Library.Sublist"
begin

text \<open>
  Sequences of calls of a C library, as the constructors of the TLS transports and the functions that make
  certificates consist of: each call with what the code does when it fails, and a handler that frees what
  was made before the exception goes on. \<open>'c\<close> is the type of the calls of one library. Which calls fail is
  a parameter, and so is the error string of a failed one.
\<close>

text \<open>
  A failed call is passed to the \<open>check\<close> function of the library, which throws, or tested by the code
  itself, or not looked at.
\<close>

datatype on_failure = Checked string | Fatal exn | Ignored

record 'c call_env =
  call_ok :: "'c \<Rightarrow> bool"
  call_error :: "'c \<Rightarrow> string option"

definition openssl_check :: "'c call_env \<Rightarrow> 'c \<Rightarrow> string \<Rightarrow> unit res" where
  "openssl_check E c message =
     (if call_ok E c then Inr ()
      else Inl (runtime_error (message @ (case call_error E c of None \<Rightarrow> '''' | Some s \<Rightarrow> '': '' @ s))))"

definition after_call :: "'c call_env \<Rightarrow> 'c \<Rightarrow> on_failure \<Rightarrow> unit res" where
  "after_call E c f =
     (case f of
        Checked message \<Rightarrow> openssl_check E c message
      | Fatal e \<Rightarrow> if call_ok E c then Inr () else Inl e
      | Ignored \<Rightarrow> Inr ())"

text \<open>The calls made, and the exception that ends them.\<close>

fun run_calls :: "'c call_env \<Rightarrow> ('c \<times> on_failure) list \<Rightarrow> 'c list \<times> unit res" where
  "run_calls E [] = ([], Inr ())"
| "run_calls E ((c, f) # cs) =
     (case after_call E c f of
        Inl e \<Rightarrow> ([c], Inl e)
      | Inr _ \<Rightarrow> (case run_calls E cs of (cs', r) \<Rightarrow> (c # cs', r)))"

text \<open>A try block whose handler makes the calls of \<open>frees\<close> and throws again.\<close>

definition run_guarded :: "'c call_env \<Rightarrow> ('c \<times> on_failure) list \<Rightarrow> 'c list \<Rightarrow> 'c list \<times> unit res" where
  "run_guarded E cs frees =
     (case run_calls E cs of
        (cs', Inr u) \<Rightarrow> (cs', Inr u)
      | (cs', Inl e) \<Rightarrow> (cs' @ frees, Inl e))"

text \<open>One block after another; an exception of the first leaves out the second.\<close>

definition then_calls :: "'c list \<times> unit res \<Rightarrow> 'c list \<times> unit res \<Rightarrow> 'c list \<times> unit res" where
  "then_calls a b = (case a of (cs, Inr _) \<Rightarrow> (cs @ fst b, snd b) | (cs, Inl e) \<Rightarrow> (cs, Inl e))"

definition last_some :: "('a \<Rightarrow> 'b option) \<Rightarrow> 'a list \<Rightarrow> 'b option" where
  "last_some f cs = fold (\<lambda>c m. case f c of Some v \<Rightarrow> Some v | None \<Rightarrow> m) cs None"

lemma fold_last_some:
  "fold (\<lambda>c m. case f c of Some v \<Rightarrow> Some v | None \<Rightarrow> m) ys a = (case last_some f ys of Some m \<Rightarrow> Some m | None \<Rightarrow> a)"
proof (induction ys arbitrary: a)
  case Nil
  then show ?case by (simp add: last_some_def)
next
  case (Cons y ys)
  have "last_some f (y # ys) = fold (\<lambda>c m. case f c of Some v \<Rightarrow> Some v | None \<Rightarrow> m) ys (f y)"
    unfolding last_some_def by (cases "f y") simp_all
  with Cons.IH show ?case by (simp split: option.split)
qed

lemma last_some_append:
  "last_some f (xs @ ys) = (case last_some f ys of Some m \<Rightarrow> Some m | None \<Rightarrow> last_some f xs)"
  unfolding last_some_def [of f "xs @ ys"] fold_append comp_apply fold_last_some
  by (simp split: option.split)

lemma last_some_Nil [simp]: "last_some f [] = None"
  by (simp add: last_some_def)

lemma last_some_Cons [simp]:
  "last_some f (x # xs) = (case last_some f xs of Some m \<Rightarrow> Some m | None \<Rightarrow> f x)"
proof -
  have "last_some f [x] = f x" unfolding last_some_def by (cases "f x") simp_all
  then show ?thesis using last_some_append [of f "[x]" xs] by (simp split: option.split)
qed

lemma run_calls_ok: "run_calls E cs = (ds, Inr u) \<Longrightarrow> ds = map fst cs"
  by (induction E cs arbitrary: ds rule: run_calls.induct) (auto split: sum.splits prod.splits)

lemma run_calls_prefix: "run_calls E cs = (ds, r) \<Longrightarrow> prefix ds (map fst cs)"
  by (induction E cs arbitrary: ds rule: run_calls.induct) (auto split: sum.splits prod.splits)

lemma run_guarded_ok: "run_guarded E cs frees = (ds, Inr u) \<Longrightarrow> ds = map fst cs"
  using run_calls_ok by (fastforce simp: run_guarded_def split: prod.splits sum.splits)

lemma then_calls_ok:
  "then_calls a b = (ds, Inr u) \<longleftrightarrow> (\<exists>xs ys v. a = (xs, Inr v) \<and> b = (ys, Inr u) \<and> ds = xs @ ys)"
  by (cases a; cases b) (auto simp: then_calls_def split: sum.splits)

text \<open>A handler runs exactly when the block ends with an exception; the block itself makes no call of it.\<close>

lemma run_guarded_frees:
  assumes "c \<in> set frees" "c \<notin> fst ` set cs" "run_guarded E cs frees = (ds, r)"
  shows "c \<in> set ds \<longleftrightarrow> (\<exists>e. r = Inl e)"
proof -
  obtain xs q where x: "run_calls E cs = (xs, q)" by (cases "run_calls E cs")
  have "c \<notin> set xs" using set_mono_prefix [OF run_calls_prefix [OF x]] assms(2) by auto
  with x assms(1,3) show ?thesis by (cases q) (auto simp: run_guarded_def)
qed

end
