(* ===== verification/Wsc_TlsSetup.thy ===== *)
theory Wsc_TlsSetup
  imports Wsc_Calls
begin

text \<open>
  How a TLS transport sets its library up: the constructors of \<open>src/impl/tlstransport.cpp\<close> in the three
  builds (for OpenSSL, with version 3 of the library), and the one of \<open>src/impl/verifiedtlstransport.cpp\<close>
  on top of it. A constructor is the list of the calls it makes, with the handler that frees what was made.

  In the OpenSSL build the pointers \<open>mCtx\<close> and \<open>mSsl\<close> have no initialisers in the class: until their
  assignment they are indeterminate.
\<close>

section \<open>OpenSSL\<close>

datatype verify_mode = SSL_VERIFY_NONE | SSL_VERIFY_PEER

datatype ssl_setup =
    SSL_CTX_new
  | SSL_CTX_set_cipher_list string
  | SSL_CTX_set1_groups_list string
  | SSL_CTX_set_default_verify_paths
  | SSL_CTX_use_certificate nat
  | SSL_CTX_use_PrivateKey nat
  | SSL_CTX_add1_chain_cert nat
  | SSL_CTX_set_options
  | SSL_CTX_set_min_proto_version
  | SSL_CTX_set_read_ahead bool
  | SSL_CTX_set_quiet_shutdown bool
  | SSL_CTX_set_info_callback
  | SSL_CTX_set_verify verify_mode
  | SSL_new
  | SSL_set_ex_data
  | SSL_set_hostflags nat
  | SSL_set1_host string
  | SSL_set_tlsext_host_name string
  | SSL_set_connect_state
  | SSL_set_accept_state
  | BIO_new_in
  | BIO_new_out
  | BIO_set_mem_eof_return
  | SSL_set_bio
  | SSL_CTX_load_verify_locations string
  | SSL_set_verify verify_mode
  | SSL_set_verify_depth nat
  | SSL_free
  | SSL_CTX_free

text \<open>The parts of a certificate that the constructors hand to their library.\<close>

record credentials =
  cert_x509 :: nat
  cert_pkey :: nat
  cert_chain :: "nat list"

definition tls_setup :: "bool \<Rightarrow> string option \<Rightarrow> credentials option \<Rightarrow> (ssl_setup \<times> on_failure) list" where
  "tls_setup isClient host cert =
     [(SSL_CTX_new, Fatal (runtime_error ''Failed to create SSL context'')),
      (SSL_CTX_set_cipher_list ''ALL:!LOW:!EXP:!RC4:!MD5:@STRENGTH'', Checked ''Failed to set SSL priorities''),
      (SSL_CTX_set1_groups_list ''P-256'', Checked ''Failed to set SSL groups'')]
     @ (if isClient then [(SSL_CTX_set_default_verify_paths, Ignored)] else [])
     @ (case cert of
          None \<Rightarrow> []
        | Some c \<Rightarrow>
            [(SSL_CTX_use_certificate (cert_x509 c), Ignored), (SSL_CTX_use_PrivateKey (cert_pkey c), Ignored)]
            @ map (\<lambda>x. (SSL_CTX_add1_chain_cert x, Ignored)) (cert_chain c))
     @ [(SSL_CTX_set_options, Ignored), (SSL_CTX_set_min_proto_version, Ignored),
        (SSL_CTX_set_read_ahead True, Ignored), (SSL_CTX_set_quiet_shutdown False, Ignored),
        (SSL_CTX_set_info_callback, Ignored), (SSL_CTX_set_verify SSL_VERIFY_NONE, Ignored),
        (SSL_new, Fatal (runtime_error ''Failed to create SSL instance'')), (SSL_set_ex_data, Ignored)]
     @ (case host of
          Some h \<Rightarrow>
            if isClient
            then [(SSL_set_hostflags 0, Ignored), (SSL_set1_host h, Checked ''Failed to set SSL host''),
                  (SSL_set_tlsext_host_name h, Ignored)]
            else []
        | None \<Rightarrow> [])
     @ [(if isClient then SSL_set_connect_state else SSL_set_accept_state, Ignored),
        (BIO_new_in, Fatal (runtime_error ''Failed to create BIO'')),
        (BIO_new_out, Fatal (runtime_error ''Failed to create BIO'')),
        (BIO_set_mem_eof_return, Ignored), (BIO_set_mem_eof_return, Ignored), (SSL_set_bio, Ignored)]"

text \<open>What a pointer holds after the calls: nothing it was ever given, a null pointer, or an object.\<close>

datatype pointer = Indeterminate | Null | Object

definition pointer_after :: "'c call_env \<Rightarrow> 'c \<Rightarrow> 'c list \<Rightarrow> pointer" where
  "pointer_after E maker cs =
     (if maker \<notin> set cs then Indeterminate else if call_ok E maker then Object else Null)"

text \<open>
  The handler of the constructor frees what the two pointers hold. The third component says whether it
  reads an indeterminate pointer, after which the language promises nothing.
\<close>

definition TlsTransport_ctor ::
  "ssl_setup call_env \<Rightarrow> bool \<Rightarrow> string option \<Rightarrow> credentials option \<Rightarrow> ssl_setup list \<times> unit res \<times> bool" where
  "TlsTransport_ctor E isClient host cert =
     (case run_calls E (tls_setup isClient host cert) of
        (cs, Inr _) \<Rightarrow> (cs, Inr (), False)
      | (cs, Inl e) \<Rightarrow>
          let ssl = pointer_after E SSL_new cs; ctx = pointer_after E SSL_CTX_new cs
          in (cs @ (if ssl = Object then [SSL_free] else []) @ (if ctx = Object then [SSL_CTX_free] else []),
              Inl e, ssl = Indeterminate \<or> ctx = Indeterminate))"

definition PemBeginCertificateTag :: string where
  "PemBeginCertificateTag = ''-----BEGIN CERTIFICATE-----''"

definition verified_setup :: "string option \<Rightarrow> (ssl_setup \<times> on_failure) list" where
  "verified_setup cacert =
     (case cacert of
        None \<Rightarrow> []
      | Some c \<Rightarrow>
          if \<not> sublist PemBeginCertificateTag c
          then [(SSL_CTX_load_verify_locations c, Checked ''Failed to load CA certificate'')]
          else [])
     @ [(SSL_set_verify SSL_VERIFY_PEER, Ignored), (SSL_set_verify_depth 4, Ignored)]"

text \<open>
  The derived constructor. An exception of its own runs the destructor of the base, which frees both
  objects.
\<close>

definition VerifiedTlsTransport_ctor ::
  "ssl_setup call_env \<Rightarrow> bool \<Rightarrow> string \<Rightarrow> credentials option \<Rightarrow> string option \<Rightarrow> ssl_setup list \<times> unit res \<times> bool" where
  "VerifiedTlsTransport_ctor E isClient host cert cacert =
     (case TlsTransport_ctor E isClient (Some host) cert of
        (cs, Inl e, u) \<Rightarrow> (cs, Inl e, u)
      | (cs, Inr _, u) \<Rightarrow>
          (case then_calls (cs, Inr ()) (run_guarded E (verified_setup cacert) [SSL_free, SSL_CTX_free]) of
             (cs, r) \<Rightarrow> (cs, r, u)))"

text \<open>The verify mode of the session: the one of its context until one is set on the session itself.\<close>

fun sets_mode :: "ssl_setup \<Rightarrow> verify_mode option" where
  "sets_mode (SSL_CTX_set_verify v) = Some v"
| "sets_mode (SSL_set_verify v) = Some v"
| "sets_mode c = None"

fun sets_host :: "ssl_setup \<Rightarrow> string option" where
  "sets_host (SSL_set1_host h) = Some h"
| "sets_host c = None"

definition mode_of :: "ssl_setup list \<Rightarrow> verify_mode option" where
  "mode_of cs = last_some sets_mode cs"

definition host_of :: "ssl_setup list \<Rightarrow> string option" where
  "host_of cs = last_some sets_host cs"

lemma tls_ctor_ok:
  assumes "TlsTransport_ctor E isClient host cert = (cs, Inr u, b)"
  shows "cs = map fst (tls_setup isClient host cert)" "\<not> b"
  using assms run_calls_ok
  by (auto simp: TlsTransport_ctor_def Let_def split: prod.splits sum.splits)

lemma last_some_none: "(\<And>x. x \<in> set xs \<Longrightarrow> f x = None) \<Longrightarrow> last_some f xs = None"
  by (induction xs) simp_all

lemma last_some_chain [simp]:
  "last_some sets_mode (map SSL_CTX_add1_chain_cert xs) = None"
  "last_some sets_host (map SSL_CTX_add1_chain_cert xs) = None"
  by (auto intro!: last_some_none)

lemma tls_setup_mode:
  "mode_of (map fst (tls_setup isClient host cert)) = Some SSL_VERIFY_NONE"
  "host_of (map fst (tls_setup isClient host cert)) = (if isClient then host else None)"
  by (cases host; cases cert; simp add: mode_of_def host_of_def tls_setup_def last_some_append comp_def)+

lemma verified_setup_mode:
  "mode_of (map fst (verified_setup cacert)) = Some SSL_VERIFY_PEER" "host_of (map fst (verified_setup cacert)) = None"
  by (simp_all add: mode_of_def host_of_def verified_setup_def split: option.split)

lemma verified_ctor_checks:
  assumes "VerifiedTlsTransport_ctor E isClient host cert cacert = (cs, Inr u, b)"
  shows "mode_of cs = Some SSL_VERIFY_PEER" "host_of cs = (if isClient then Some host else None)" "\<not> b"
proof -
  obtain c1 c2 where c: "TlsTransport_ctor E isClient (Some host) cert = (c1, Inr (), b)"
    "run_guarded E (verified_setup cacert) [SSL_free, SSL_CTX_free] = (c2, Inr ())" "cs = c1 @ c2"
    using assms by (auto simp: VerifiedTlsTransport_ctor_def then_calls_ok split: prod.splits sum.splits)
  from tls_ctor_ok [OF c(1)] run_guarded_ok [OF c(2)] show "mode_of cs = Some SSL_VERIFY_PEER"
    "host_of cs = (if isClient then Some host else None)" "\<not> b"
    using verified_setup_mode [of cacert] tls_setup_mode [of isClient "Some host" cert]
    by (simp_all add: c(3) mode_of_def host_of_def last_some_append)
qed

text \<open>
  The handler of the constructor: once the session has been asked for, it frees what exists; before that
  it reads the pointer to the session, which nothing has been assigned to.
\<close>

lemma SSL_CTX_new_first: "run_calls E (tls_setup isClient host cert) = (cs, r) \<Longrightarrow> SSL_CTX_new \<in> set cs"
  by (auto simp: tls_setup_def split: sum.splits prod.splits)

lemma no_free_in_setup: "SSL_free \<notin> set (map fst (tls_setup isClient host cert))" "SSL_CTX_free \<notin> set (map fst (tls_setup isClient host cert))"
  by (cases host; cases cert; auto simp: tls_setup_def)+

lemma tls_ctor_fails:
  assumes "TlsTransport_ctor E isClient host cert = (cs, Inl e, reads_indeterminate)"
  shows "reads_indeterminate \<longleftrightarrow> SSL_new \<notin> set cs"
    "SSL_free \<in> set cs \<longleftrightarrow> SSL_new \<in> set cs \<and> call_ok E SSL_new"
    "SSL_CTX_free \<in> set cs \<longleftrightarrow> call_ok E SSL_CTX_new"
proof -
  obtain ds where d: "run_calls E (tls_setup isClient host cert) = (ds, Inl e)"
    "reads_indeterminate \<longleftrightarrow> pointer_after E SSL_new ds = Indeterminate \<or> pointer_after E SSL_CTX_new ds = Indeterminate"
    "cs = ds @ (if pointer_after E SSL_new ds = Object then [SSL_free] else [])
       @ (if pointer_after E SSL_CTX_new ds = Object then [SSL_CTX_free] else [])"
    using assms by (auto simp: TlsTransport_ctor_def Let_def split: prod.splits sum.splits)
  have n: "SSL_free \<notin> set ds" "SSL_CTX_free \<notin> set ds"
    using no_free_in_setup [of isClient host cert] set_mono_prefix [OF run_calls_prefix [OF d(1)]] by blast+
  show "reads_indeterminate \<longleftrightarrow> SSL_new \<notin> set cs"
    "SSL_free \<in> set cs \<longleftrightarrow> SSL_new \<in> set cs \<and> call_ok E SSL_new"
    "SSL_CTX_free \<in> set cs \<longleftrightarrow> call_ok E SSL_CTX_new"
    using SSL_CTX_new_first [OF d(1)] n by (auto simp: d(2,3) pointer_after_def)
qed

section \<open>GnuTLS\<close>

text \<open>
  \<open>gnutls::check\<close> lets an error that is not fatal pass; such a call counts as one that succeeded.
\<close>

datatype gnutls_setup =
    gnutls_init bool
  | gnutls_priority_set_direct string
  | gnutls_certificate_allocate_credentials
  | gnutls_certificate_set_x509_system_trust
  | gnutls_credentials_set
  | gnutls_server_name_set string
  | gnutls_session_set_ptr
  | gnutls_transport_set_ptr
  | gnutls_transport_set_push_function
  | gnutls_transport_set_pull_function
  | gnutls_transport_set_pull_timeout_function
  | gnutls_session_set_verify_cert string
  | gnutls_deinit

text \<open>
  The credentials for connections without a certificate of their own are made once, in a static variable:
  whether it is set, and whether the trust anchors of the system were loaded into it. It is set before
  they are.
\<close>

record default_creds =
  has_creds :: bool
  has_trust :: bool

definition default_certificate_credentials ::
  "gnutls_setup call_env \<Rightarrow> default_creds \<Rightarrow> (gnutls_setup list \<times> unit res) \<times> default_creds" where
  "default_certificate_credentials E d =
     (if has_creds d then (([], Inr ()), d)
      else case run_calls E [(gnutls_certificate_allocate_credentials, Checked ''GnuTLS error'')] of
        (cs, Inl e) \<Rightarrow> ((cs, Inl e), d)
      | (cs, Inr _) \<Rightarrow>
          (case run_calls E [(gnutls_certificate_set_x509_system_trust, Checked ''GnuTLS error'')] of
             (cs', r) \<Rightarrow> ((cs @ cs', r), \<lparr>has_creds = True, has_trust = (r = Inr ())\<rparr>)))"

definition gnutls_setup_end :: "bool \<Rightarrow> string option \<Rightarrow> (gnutls_setup \<times> on_failure) list" where
  "gnutls_setup_end isClient host =
     [(gnutls_credentials_set, Checked ''GnuTLS error'')]
     @ (case host of
          Some h \<Rightarrow> if isClient then [(gnutls_server_name_set h, Ignored)] else []
        | None \<Rightarrow> [])
     @ [(gnutls_session_set_ptr, Ignored), (gnutls_transport_set_ptr, Ignored),
        (gnutls_transport_set_push_function, Ignored), (gnutls_transport_set_pull_function, Ignored),
        (gnutls_transport_set_pull_timeout_function, Ignored)]"

definition gnutls_setup_try ::
  "gnutls_setup call_env \<Rightarrow> bool \<Rightarrow> string option \<Rightarrow> bool \<Rightarrow> default_creds
   \<Rightarrow> (gnutls_setup list \<times> unit res) \<times> default_creds" where
  "gnutls_setup_try E isClient host cert d =
     (case run_calls E [(gnutls_priority_set_direct ''SECURE128:-VERS-SSL3.0:-ARCFOUR-128'', Checked ''Failed to set TLS priorities'')] of
        (cs, Inl e) \<Rightarrow> ((cs, Inl e), d)
      | (cs, Inr _) \<Rightarrow>
          (case if cert then (([], Inr ()), d) else default_certificate_credentials E d of (r, d) \<Rightarrow>
             (then_calls (then_calls (cs, Inr ()) r) (run_calls E (gnutls_setup_end isClient host)), d)))"

definition gnutls_ctor ::
  "gnutls_setup call_env \<Rightarrow> bool \<Rightarrow> string option \<Rightarrow> bool \<Rightarrow> default_creds
   \<Rightarrow> (gnutls_setup list \<times> unit res) \<times> default_creds" where
  "gnutls_ctor E isClient host cert d =
     (case run_calls E [(gnutls_init isClient, Checked ''GnuTLS error'')] of
        (cs, Inl e) \<Rightarrow> ((cs, Inl e), d)
      | (cs, Inr _) \<Rightarrow>
          (case gnutls_setup_try E isClient host cert d of
             ((cs', Inr _), d) \<Rightarrow> ((cs @ cs', Inr ()), d)
           | ((cs', Inl e), d) \<Rightarrow> ((cs @ cs' @ [gnutls_deinit], Inl e), d)))"

definition gnutls_verified_ctor ::
  "gnutls_setup call_env \<Rightarrow> bool \<Rightarrow> string \<Rightarrow> bool \<Rightarrow> default_creds
   \<Rightarrow> (gnutls_setup list \<times> unit res) \<times> default_creds" where
  "gnutls_verified_ctor E isClient host cert d =
     (case gnutls_ctor E isClient (Some host) cert d of
        (r, d) \<Rightarrow> (then_calls r (run_calls E [(gnutls_session_set_verify_cert host, Ignored)]), d))"

lemma gnutls_verified_checks:
  assumes "gnutls_verified_ctor E isClient host cert d = ((cs, Inr u), d')"
  shows "gnutls_session_set_verify_cert host \<in> set cs"
  using assms by (auto simp: gnutls_verified_ctor_def then_calls_ok after_call_def split: prod.splits)

lemma default_creds_no_deinit: "gnutls_deinit \<notin> set (fst (fst (default_certificate_credentials E d)))"
  by (auto simp: default_certificate_credentials_def split: prod.split sum.split)

lemma gnutls_try_no_deinit: "gnutls_deinit \<notin> set (fst (fst (gnutls_setup_try E isClient host cert d)))"
proof -
  obtain xs q where x: "run_calls E (gnutls_setup_end isClient host) = (xs, q)" by (cases "run_calls E (gnutls_setup_end isClient host)")
  have "gnutls_deinit \<notin> set (map fst (gnutls_setup_end isClient host))" by (cases host) (auto simp: gnutls_setup_end_def)
  with set_mono_prefix [OF run_calls_prefix [OF x]] have "gnutls_deinit \<notin> set xs" by blast
  with x default_creds_no_deinit [of E d] show ?thesis
    by (auto simp: gnutls_setup_try_def then_calls_def split: prod.splits sum.splits if_splits)
qed

text \<open>A session that was made is freed exactly when the constructor fails after that.\<close>

lemma gnutls_ctor_frees:
  assumes "gnutls_ctor E isClient host cert d = ((cs, r), d')"
  shows "gnutls_deinit \<in> set cs \<longleftrightarrow> (\<exists>e. r = Inl e) \<and> call_ok E (gnutls_init isClient)"
  using assms gnutls_try_no_deinit [of E isClient host cert d]
  by (auto simp: gnutls_ctor_def after_call_def openssl_check_def split: prod.splits sum.splits if_splits)

text \<open>
  After a first connection for which the trust anchors could not be loaded, the next one uses the same
  credentials without them, and its constructor succeeds.
\<close>

lemma gnutls_no_trust:
  assumes "\<not> call_ok E gnutls_certificate_set_x509_system_trust"
    and "\<And>c. c \<noteq> gnutls_certificate_set_x509_system_trust \<Longrightarrow> call_ok E c" and "\<And>c. call_ok E' c"
  obtains cs e d cs' where
    "gnutls_ctor E isClient host False \<lparr>has_creds = False, has_trust = False\<rparr> = ((cs, Inl e), d)"
    "gnutls_ctor E' isClient host False d = ((cs', Inr ()), d)" "\<not> has_trust d"
proof -
  let ?d = "\<lparr>has_creds = True, has_trust = False\<rparr>"
  have "\<exists>cs e. gnutls_ctor E isClient host False \<lparr>has_creds = False, has_trust = False\<rparr> = ((cs, Inl e), ?d)"
    using assms(1,2) by (simp add: gnutls_ctor_def gnutls_setup_try_def default_certificate_credentials_def after_call_def
        openssl_check_def then_calls_def)
  moreover have "\<exists>cs'. gnutls_ctor E' isClient host False ?d = ((cs', Inr ()), ?d)"
    using assms(3) by (cases host) (auto simp: gnutls_ctor_def gnutls_setup_try_def default_certificate_credentials_def after_call_def
        openssl_check_def then_calls_def gnutls_setup_end_def)
  ultimately show thesis using that by fastforce
qed

text \<open>A connection with a certificate of its own never loads trust anchors, whatever it then verifies.\<close>

lemma gnutls_own_certificate_no_trust:
  assumes "gnutls_verified_ctor E isClient host True d = ((cs, r), d')"
  shows "gnutls_certificate_set_x509_system_trust \<notin> set cs"
proof -
  obtain xs q where x: "run_calls E (gnutls_setup_end isClient (Some host)) = (xs, q)"
    by (cases "run_calls E (gnutls_setup_end isClient (Some host))")
  have "gnutls_certificate_set_x509_system_trust \<notin> set (map fst (gnutls_setup_end isClient (Some host)))"
    by (auto simp: gnutls_setup_end_def)
  with set_mono_prefix [OF run_calls_prefix [OF x]] have "gnutls_certificate_set_x509_system_trust \<notin> set xs" by blast
  with x assms show ?thesis
    by (auto simp: gnutls_verified_ctor_def gnutls_ctor_def gnutls_setup_try_def then_calls_def after_call_def
        split: prod.splits sum.splits if_splits)
qed

section \<open>Mbed TLS\<close>

datatype mbed_mode = MBEDTLS_SSL_VERIFY_OPTIONAL | MBEDTLS_SSL_VERIFY_REQUIRED

datatype mbed_setup =
    psa_crypto_init
  | mbedtls_entropy_init
  | mbedtls_ctr_drbg_init
  | mbedtls_ssl_init
  | mbedtls_ssl_config_init
  | mbedtls_ctr_drbg_set_prediction_resistance
  | mbedtls_ctr_drbg_seed
  | mbedtls_ssl_config_defaults bool
  | mbedtls_ssl_conf_max_version
  | mbedtls_ssl_conf_authmode mbed_mode
  | mbedtls_ssl_conf_rng
  | mbedtls_ssl_conf_own_cert nat nat
  | mbedtls_ssl_set_hostname string
  | mbedtls_ssl_setup
  | mbedtls_ssl_set_bio
  | mbedtls_x509_crt_init
  | mbedtls_x509_crt_parse_file string
  | mbedtls_x509_crt_parse string
  | mbedtls_ssl_conf_ca_chain
  | mbedtls_entropy_free
  | mbedtls_ctr_drbg_free
  | mbedtls_ssl_free
  | mbedtls_ssl_config_free
  | mbedtls_x509_crt_free

definition mbed_frees :: "mbed_setup list" where
  "mbed_frees = [mbedtls_entropy_free, mbedtls_ctr_drbg_free, mbedtls_ssl_free, mbedtls_ssl_config_free]"

definition mbed_setup_try :: "bool \<Rightarrow> string option \<Rightarrow> credentials option \<Rightarrow> (mbed_setup \<times> on_failure) list" where
  "mbed_setup_try isClient host cert =
     [(mbedtls_ctr_drbg_seed, Checked ''MbedTLS error''), (mbedtls_ssl_config_defaults isClient, Checked ''MbedTLS error''),
      (mbedtls_ssl_conf_max_version, Ignored), (mbedtls_ssl_conf_authmode MBEDTLS_SSL_VERIFY_OPTIONAL, Ignored),
      (mbedtls_ssl_conf_rng, Ignored)]
     @ (case cert of
          None \<Rightarrow> []
        | Some c \<Rightarrow> [(mbedtls_ssl_conf_own_cert (cert_x509 c) (cert_pkey c), Checked ''MbedTLS error'')])
     @ (case host of
          Some h \<Rightarrow> if isClient then [(mbedtls_ssl_set_hostname h, Ignored)] else []
        | None \<Rightarrow> [])
     @ [(mbedtls_ssl_setup, Checked ''MbedTLS error''), (mbedtls_ssl_set_bio, Ignored)]"

definition mbed_ctor ::
  "mbed_setup call_env \<Rightarrow> bool \<Rightarrow> string option \<Rightarrow> credentials option \<Rightarrow> mbed_setup list \<times> unit res" where
  "mbed_ctor E isClient host cert =
     then_calls
       (run_calls E (map (\<lambda>c. (c, Ignored))
          [psa_crypto_init, mbedtls_entropy_init, mbedtls_ctr_drbg_init, mbedtls_ssl_init, mbedtls_ssl_config_init,
           mbedtls_ctr_drbg_set_prediction_resistance]))
       (run_guarded E (mbed_setup_try isClient host cert) mbed_frees)"

definition mbed_verified_try :: "string option \<Rightarrow> (mbed_setup \<times> on_failure) list" where
  "mbed_verified_try cacert =
     (case cacert of
        None \<Rightarrow> []
      | Some c \<Rightarrow>
          [(if \<not> sublist PemBeginCertificateTag c then mbedtls_x509_crt_parse_file c else mbedtls_x509_crt_parse c,
            Checked ''MbedTLS error''),
           (mbedtls_ssl_conf_ca_chain, Ignored)])"

text \<open>The handler frees the CA certificate, and then the destructor of the base frees the rest.\<close>

definition mbed_verified_ctor ::
  "mbed_setup call_env \<Rightarrow> bool \<Rightarrow> string \<Rightarrow> credentials option \<Rightarrow> string option \<Rightarrow> mbed_setup list \<times> unit res" where
  "mbed_verified_ctor E isClient host cert cacert =
     then_calls (mbed_ctor E isClient (Some host) cert)
       (then_calls
          (run_calls E [(mbedtls_ssl_conf_authmode MBEDTLS_SSL_VERIFY_REQUIRED, Ignored), (mbedtls_x509_crt_init, Ignored)])
          (run_guarded E (mbed_verified_try cacert) (mbedtls_x509_crt_free # mbed_frees)))"

fun sets_authmode :: "mbed_setup \<Rightarrow> mbed_mode option" where
  "sets_authmode (mbedtls_ssl_conf_authmode v) = Some v"
| "sets_authmode c = None"

lemma mbed_ctor_ok:
  assumes "mbed_ctor E isClient host cert = (cs, Inr u)"
  shows "last_some sets_authmode cs = Some MBEDTLS_SSL_VERIFY_OPTIONAL"
    "mbedtls_ssl_set_hostname h \<in> set cs \<longleftrightarrow> isClient \<and> host = Some h"
proof -
  obtain ys where y: "run_guarded E (mbed_setup_try isClient host cert) mbed_frees = (ys, Inr u)"
    "cs = [psa_crypto_init, mbedtls_entropy_init, mbedtls_ctr_drbg_init, mbedtls_ssl_init, mbedtls_ssl_config_init,
           mbedtls_ctr_drbg_set_prediction_resistance] @ ys"
    using assms by (auto simp: mbed_ctor_def then_calls_ok after_call_def)
  from run_guarded_ok [OF y(1)] show "last_some sets_authmode cs = Some MBEDTLS_SSL_VERIFY_OPTIONAL"
    "mbedtls_ssl_set_hostname h \<in> set cs \<longleftrightarrow> isClient \<and> host = Some h"
    by (cases host; cases cert; auto simp: y(2) mbed_setup_try_def last_some_append)+
qed

lemma mbed_verified_checks:
  assumes "mbed_verified_ctor E isClient host cert cacert = (cs, Inr u)"
  shows "last_some sets_authmode cs = Some MBEDTLS_SSL_VERIFY_REQUIRED" "isClient \<Longrightarrow> mbedtls_ssl_set_hostname host \<in> set cs"
proof -
  obtain xs ys where x: "mbed_ctor E isClient (Some host) cert = (xs, Inr ())"
    "run_guarded E (mbed_verified_try cacert) (mbedtls_x509_crt_free # mbed_frees) = (ys, Inr u)"
    "cs = xs @ [mbedtls_ssl_conf_authmode MBEDTLS_SSL_VERIFY_REQUIRED, mbedtls_x509_crt_init] @ ys"
    using assms by (auto simp: mbed_verified_ctor_def then_calls_ok after_call_def)
  from run_guarded_ok [OF x(2)] show "last_some sets_authmode cs = Some MBEDTLS_SSL_VERIFY_REQUIRED"
    by (cases cacert) (auto simp: x(3) mbed_verified_try_def last_some_append)
  show "isClient \<Longrightarrow> mbedtls_ssl_set_hostname host \<in> set cs" using mbed_ctor_ok(2) [OF x(1)] x(3) by simp
qed

text \<open>The four contexts are freed exactly when the constructor fails.\<close>

lemma mbed_ctor_frees:
  assumes "mbed_ctor E isClient host cert = (cs, r)" "c \<in> set mbed_frees"
  shows "c \<in> set cs \<longleftrightarrow> (\<exists>e. r = Inl e)"
proof -
  obtain ys q where y: "run_guarded E (mbed_setup_try isClient host cert) mbed_frees = (ys, q)"
    by (cases "run_guarded E (mbed_setup_try isClient host cert) mbed_frees")
  with assms(1) have cs: "cs = [psa_crypto_init, mbedtls_entropy_init, mbedtls_ctr_drbg_init, mbedtls_ssl_init, mbedtls_ssl_config_init,
      mbedtls_ctr_drbg_set_prediction_resistance] @ ys" "q = r"
    by (auto simp: mbed_ctor_def then_calls_def after_call_def)
  have n: "c \<notin> fst ` set (mbed_setup_try isClient host cert)"
    using assms(2) by (cases host; cases cert; auto simp: mbed_setup_try_def mbed_frees_def)
  show ?thesis using run_guarded_frees [OF assms(2) n y] assms(2) cs by (auto simp: mbed_frees_def)
qed

end
