(* ===== verification/Wsc_TlsLife.thy ===== *)
theory Wsc_TlsLife
  imports Wsc_TlsPull Wsc_TlsSetup
begin

text \<open>
  The edges of the TLS builds: the callbacks as GnuTLS and Mbed TLS see them, with their return codes and \<open>errno\<close>, against
  the ones of \<open>Wsc_TlsPull\<close>; the destructors of \<open>tlstransport.cpp\<close> and \<open>verifiedtlstransport.cpp\<close>, and what
  becomes of the objects of the library over the life of a transport; the helpers of \<open>src/impl/tls.cpp\<close> that make and free
  such objects, initialise OpenSSL, and print a time.
\<close>

section \<open>The callbacks with their codes\<close>

text \<open>\<open>gnutls_transport_set_errno\<close> stores one of these.\<close>

datatype errno = NoError | EAGAIN | ECONNRESET

text \<open>The conversion \<open>int(len)\<close> of a \<open>size_t\<close>.\<close>

definition size_to_int :: "nat \<Rightarrow> int" where
  "size_to_int n = sint (word_of_nat n :: 32 word)"

lemma size_to_int_small: "n < 2 ^ 31 \<Longrightarrow> size_to_int n = int n"
  by (simp add: size_to_int_def signed_of_nat signed_take_bit_int_eq_self)

text \<open>The message that a read is served from, once an exhausted one has been dropped and the queue been asked.\<close>

definition current_message :: "('l, 's) PullTransport \<Rightarrow> ('l, 's) PullTransport" where
  "current_message t =
     (let t = (case mIncomingMessage t of
                 Some m \<Rightarrow> if mIncomingMessagePosition t \<ge> length (data m) then t\<lparr>mIncomingMessage := None\<rparr> else t
               | None \<Rightarrow> t)
      in if mIncomingMessage t = None then next_message (t\<lparr>mIncomingMessagePosition := 0\<rparr>) else t)"

text \<open>\<open>memcpy\<close> to the buffer of the library, and the position after it.\<close>

definition copy_out :: "nat \<Rightarrow> Message \<Rightarrow> ('l, 's) PullTransport \<Rightarrow> binary \<times> ('l, 's) PullTransport" where
  "copy_out maxlen m t =
     (let available = length (data m) - mIncomingMessagePosition t;
          len = min maxlen available
      in (take len (drop (mIncomingMessagePosition t) (data m)),
          t\<lparr>mIncomingMessagePosition := mIncomingMessagePosition t + len\<rparr>))"

definition gnutls_ReadCallback ::
  "nat \<Rightarrow> ('l, 's) PullTransport \<Rightarrow> (int \<times> errno \<times> binary) \<times> ('l, 's) PullTransport" where
  "gnutls_ReadCallback maxlen t =
     (let t = current_message t
      in case mIncomingMessage t of
           Some m \<Rightarrow> (case copy_out maxlen m t of (b, t) \<Rightarrow> ((int (length b), NoError, b), t))
         | None \<Rightarrow> if Queue_running (pIncomingQueue t) then ((- 1, EAGAIN, []), t) else ((0, NoError, []), t))"

definition MBEDTLS_ERR_SSL_CONN_EOF :: int where "MBEDTLS_ERR_SSL_CONN_EOF = - 0x7280"

definition mbedtls_ReadCallback ::
  "nat \<Rightarrow> ('l, 's) PullTransport \<Rightarrow> (int \<times> binary) \<times> ('l, 's) PullTransport" where
  "mbedtls_ReadCallback len t =
     (let t = current_message t
      in case mIncomingMessage t of
           Some m \<Rightarrow> (case copy_out len m t of (b, t) \<Rightarrow> ((size_to_int (length b), b), t))
         | None \<Rightarrow> if Queue_running (pIncomingQueue t) then ((MBEDTLS_ERR_SSL_WANT_READ, []), t)
                    else ((MBEDTLS_ERR_SSL_CONN_EOF, []), t))"

definition gnutls_WriteCallback ::
  "'l lower_ops \<Rightarrow> binary \<Rightarrow> ('l, 's) PullTransport \<Rightarrow> (int \<times> errno) \<times> ('l, 's) PullTransport" where
  "gnutls_WriteCallback ops b t =
     (case if b \<noteq> [] then PullTransport_outgoing ops (Some (make_message b Binary)) t else (Inr True, t) of
        (Inl e, t) \<Rightarrow> ((- 1, ECONNRESET), t)
      | (Inr _, t) \<Rightarrow> ((int (length b), NoError), t))"

definition mbedtls_WriteCallback ::
  "'l lower_ops \<Rightarrow> binary \<Rightarrow> ('l, 's) PullTransport \<Rightarrow> int res \<times> ('l, 's) PullTransport" where
  "mbedtls_WriteCallback ops b t =
     (case PullTransport_outgoing ops (Some (make_message b Binary)) t of
        (Inl e, t) \<Rightarrow> (Inl e, t)
      | (Inr _, t) \<Rightarrow> (Inr (size_to_int (length b)), t))"

text \<open>How the libraries read the codes.\<close>

definition gnutls_pulled :: "int \<times> errno \<times> binary \<Rightarrow> pulled" where
  "gnutls_pulled = (\<lambda>(ret, e, b). if ret < 0 then Again else Bytes b)"

definition mbedtls_pulled :: "int \<times> binary \<Rightarrow> pulled" where
  "mbedtls_pulled = (\<lambda>(ret, b). if ret = MBEDTLS_ERR_SSL_WANT_READ then Again
     else if ret = MBEDTLS_ERR_SSL_CONN_EOF then ConnEof else Bytes b)"

lemma ReadCallback_current:
  "ReadCallback B n t = (let t = current_message t in case mIncomingMessage t of
     Some m \<Rightarrow> (case copy_out n m t of (b, t) \<Rightarrow> (Bytes b, t))
   | None \<Rightarrow> if Queue_running (pIncomingQueue t) then (Again, t) else (case B of GnuTLS \<Rightarrow> Bytes [] | MbedTLS \<Rightarrow> ConnEof, t))"
  unfolding ReadCallback_def current_message_def copy_out_def Let_def
  by (simp only: prod.case cong: option.case_cong)

text \<open>
  The codes say what the model of the callbacks says, and a count of bytes is the count of the bytes written. With
  Mbed TLS this needs a buffer of less than two gigabytes.
\<close>

lemma gnutls_ReadCallback_refines:
  assumes "gnutls_ReadCallback n t = ((ret, e, b), u)"
  shows "ReadCallback GnuTLS n t = (gnutls_pulled (ret, e, b), u)" "ret = (if e = EAGAIN then - 1 else int (length b))" "length b \<le> n"
  using assms
  by (auto simp: gnutls_ReadCallback_def ReadCallback_current Let_def gnutls_pulled_def copy_out_def split: option.splits if_splits)

lemma mbedtls_ReadCallback_refines:
  assumes "mbedtls_ReadCallback n t = ((ret, b), u)" "n < 2 ^ 31"
  shows "ReadCallback MbedTLS n t = (mbedtls_pulled (ret, b), u)" "ret \<ge> 0 \<Longrightarrow> ret = int (length b)" "length b \<le> n"
proof -
  have small: "size_to_int (length b) = int (length b)" if "length b \<le> n" for b :: binary
    using that assms(2) by (intro size_to_int_small) simp
  have cut: "size_to_int (min n k) = int (min n k)" for k using assms(2) by (intro size_to_int_small) simp
  show "ReadCallback MbedTLS n t = (mbedtls_pulled (ret, b), u)" "ret \<ge> 0 \<Longrightarrow> ret = int (length b)" "length b \<le> n"
    using assms small cut
    by (auto simp: mbedtls_ReadCallback_def ReadCallback_current Let_def mbedtls_pulled_def copy_out_def
        MBEDTLS_ERR_SSL_WANT_READ_def MBEDTLS_ERR_SSL_CONN_EOF_def split: option.splits if_splits)
qed

lemma gnutls_WriteCallback_refines:
  assumes "gnutls_WriteCallback ops b t = ((ret, e), u)"
  shows "WriteCallback GnuTLS ops b t = (Inr (e = NoError), u)" "ret = (if e = NoError then int (length b) else - 1)"
  using assms by (auto simp: gnutls_WriteCallback_def WriteCallback_def split: if_splits prod.splits sum.splits)

lemma mbedtls_WriteCallback_refines:
  "WriteCallback MbedTLS ops b t = map_prod (map_sum id (\<lambda>_. True)) id (mbedtls_WriteCallback ops b t)"
  by (auto simp: mbedtls_WriteCallback_def WriteCallback_def split: prod.splits sum.splits)

section \<open>Destructors\<close>

text \<open>
  Each stops the transport first. The object is no longer shared then, so that the task that \<open>stop\<close> would enqueue cannot
  be (\<open>weak_from_this\<close> is expired). The base destructor comes last.
\<close>

definition TlsTransport_destroy ::
  "'l lower_ops \<Rightarrow> ('l, 's) TlsTransport \<Rightarrow> ssl_setup list \<times> ('l, 's) TlsTransport \<times> 'l option" where
  "TlsTransport_destroy ops t =
     (let t = TlsTransport_stop False ops t
      in ([SSL_free, SSL_CTX_free], Transport_destroy ops t))"

definition VerifiedTlsTransport_destroy ::
  "'l lower_ops \<Rightarrow> ('l, 's) TlsTransport \<Rightarrow> ssl_setup list \<times> ('l, 's) TlsTransport \<times> 'l option" where
  "VerifiedTlsTransport_destroy ops t = TlsTransport_destroy ops (TlsTransport_stop False ops t)"

definition gnutls_destroy ::
  "'l lower_ops \<Rightarrow> ('l, 's) PullTransport \<Rightarrow> gnutls_setup list \<times> ('l, 's) PullTransport \<times> 'l option" where
  "gnutls_destroy ops t =
     (let t = PullTransport_stop False ops t
      in ([gnutls_deinit], Transport_destroy ops t))"

definition mbed_destroy ::
  "'l lower_ops \<Rightarrow> ('l, 's) PullTransport \<Rightarrow> mbed_setup list \<times> ('l, 's) PullTransport \<times> 'l option" where
  "mbed_destroy ops t =
     (let t = PullTransport_stop False ops t
      in ([mbedtls_entropy_free, mbedtls_ctr_drbg_free, mbedtls_ssl_free, mbedtls_ssl_config_free], Transport_destroy ops t))"

definition mbed_verified_destroy ::
  "'l lower_ops \<Rightarrow> ('l, 's) PullTransport \<Rightarrow> mbed_setup list \<times> ('l, 's) PullTransport \<times> 'l option" where
  "mbed_verified_destroy ops t =
     (case mbed_destroy ops (PullTransport_stop False ops t) of
        (cs, r) \<Rightarrow> (mbedtls_x509_crt_free # cs, r))"

text \<open>Destroying schedules nothing, unregisters from the lower transport and stops it.\<close>

lemma TlsTransport_stop_destroyed:
  assumes "mLower t = Some l"
  shows "TlsTransport_stop False ops t =
    t\<lparr>mLower := Some (lower_onRecv ops l False), mIncomingQueue := Queue_stop (mIncomingQueue t)\<rparr>"
  using assms by (simp add: TlsTransport_stop_def Transport_unregisterIncoming_def enqueueRecv_def Let_def)

lemma TlsTransport_destroy_lower:
  assumes "mLower t = Some l" "TlsTransport_destroy ops t = (cs, u, l')"
  shows "mPendingRecvCount u = mPendingRecvCount t \<and> mLower u = None \<and> mStopping (mIncomingQueue u)
    \<and> l' = Some (lower_stop ops (lower_onRecv ops (lower_onRecv ops l False) False))"
proof -
  let ?t = "t\<lparr>mLower := Some (lower_onRecv ops l False), mIncomingQueue := Queue_stop (mIncomingQueue t)\<rparr>"
  have "Transport_destroy ops ?t = (u, l')" using assms TlsTransport_stop_destroyed [OF assms(1), of ops] by (simp add: TlsTransport_destroy_def)
  then show ?thesis by (auto simp: Transport_destroy_def Transport_unregisterIncoming_def Let_def Queue_stop_def)
qed

lemma VerifiedTlsTransport_destroy_lower:
  assumes "mLower t = Some l" "VerifiedTlsTransport_destroy ops t = (cs, u, l')"
  shows "mPendingRecvCount u = mPendingRecvCount t \<and> mLower u = None \<and> (\<exists>q. l' = Some (lower_stop ops q))"
proof -
  let ?t = "t\<lparr>mLower := Some (lower_onRecv ops l False), mIncomingQueue := Queue_stop (mIncomingQueue t)\<rparr>"
  have "TlsTransport_destroy ops ?t = (cs, u, l')"
    using assms TlsTransport_stop_destroyed [OF assms(1), of ops] by (simp add: VerifiedTlsTransport_destroy_def)
  from TlsTransport_destroy_lower [OF _ this] show ?thesis by auto
qed

lemma destroy_calls [simp]:
  "fst (TlsTransport_destroy ops t) = [SSL_free, SSL_CTX_free]" "fst (VerifiedTlsTransport_destroy ops t) = [SSL_free, SSL_CTX_free]"
  "fst (gnutls_destroy ops' t') = [gnutls_deinit]" "fst (mbed_destroy ops' t') = mbed_frees"
  "fst (mbed_verified_destroy ops' t') = mbedtls_x509_crt_free # mbed_frees"
  by (simp_all add: TlsTransport_destroy_def VerifiedTlsTransport_destroy_def gnutls_destroy_def mbed_destroy_def
      mbed_verified_destroy_def mbed_frees_def Let_def split: prod.split)

section \<open>Each object of the library is freed once\<close>

text \<open>The calls of the whole life of a transport: of its constructor and, if that succeeds, of its destructor.\<close>

definition lifetime :: "'c list \<times> unit res \<Rightarrow> 'c list \<Rightarrow> 'c list" where
  "lifetime ctor frees = (case ctor of (cs, Inl e) \<Rightarrow> cs | (cs, Inr _) \<Rightarrow> cs @ frees)"

lemma count_run_calls: "c \<notin> fst ` set cs \<Longrightarrow> count_list (fst (run_calls E cs)) c = 0"
  using run_calls_prefix [of E cs "fst (run_calls E cs)" "snd (run_calls E cs)"] set_mono_prefix
  by (fastforce intro: count_notin)

lemma run_calls_succeeds: "run_calls E cs = (ds, Inr u) \<Longrightarrow> (c, f) \<in> set cs \<Longrightarrow> f \<noteq> Ignored \<Longrightarrow> call_ok E c"
  by (induction E cs arbitrary: ds rule: run_calls.induct)
    (auto simp: after_call_def openssl_check_def split: sum.splits prod.splits on_failure.splits if_splits)

lemma count_guarded:
  assumes "c \<notin> fst ` set cs"
  shows "count_list (fst (run_guarded E cs frees)) c = (case snd (run_guarded E cs frees) of Inl e \<Rightarrow> count_list frees c | Inr _ \<Rightarrow> 0)"
  using count_run_calls [OF assms, of E] by (auto simp: run_guarded_def split: prod.splits sum.splits)

text \<open>
  With OpenSSL, unless the constructor reads an indeterminate pointer, the session and the context are freed once if
  they were made, whether or not the constructor succeeds, also the one of the verified transport.
\<close>

lemma openssl_lifetime:
  assumes "TlsTransport_ctor E isClient host cert = (cs, r, False)"
  shows "count_list (lifetime (cs, r) [SSL_free, SSL_CTX_free]) SSL_free = (if SSL_new \<in> set cs \<and> call_ok E SSL_new then 1 else 0)"
    "count_list (lifetime (cs, r) [SSL_free, SSL_CTX_free]) SSL_CTX_free = (if call_ok E SSL_CTX_new then 1 else 0)"
proof -
  obtain ds q where d: "run_calls E (tls_setup isClient host cert) = (ds, q)" by fastforce
  have n: "count_list ds SSL_free = 0" "count_list ds SSL_CTX_free = 0"
    using count_run_calls [of _ "tls_setup isClient host cert" E] no_free_in_setup [of isClient host cert] d by auto
  have ok: "SSL_new \<in> set ds \<and> call_ok E SSL_new \<and> call_ok E SSL_CTX_new" if "q = Inr u" for u
  proof -
    from run_calls_ok [of E "tls_setup isClient host cert" ds u] d that have ds: "ds = map fst (tls_setup isClient host cert)" by simp
    have "call_ok E SSL_new" "call_ok E SSL_CTX_new"
      using run_calls_succeeds [of E "tls_setup isClient host cert" ds u] d that by (force simp: tls_setup_def)+
    with ds show ?thesis by (auto simp: tls_setup_def)
  qed
  show "count_list (lifetime (cs, r) [SSL_free, SSL_CTX_free]) SSL_free = (if SSL_new \<in> set cs \<and> call_ok E SSL_new then 1 else 0)"
    "count_list (lifetime (cs, r) [SSL_free, SSL_CTX_free]) SSL_CTX_free = (if call_ok E SSL_CTX_new then 1 else 0)"
    using assms d n ok SSL_CTX_new_first [OF d]
    by (auto simp: TlsTransport_ctor_def lifetime_def Let_def pointer_after_def split: sum.splits if_splits)
qed

lemma verified_openssl_lifetime:
  assumes "VerifiedTlsTransport_ctor E isClient host cert cacert = (cs, r, False)"
  shows "count_list (lifetime (cs, r) [SSL_free, SSL_CTX_free]) SSL_free = (if SSL_new \<in> set cs \<and> call_ok E SSL_new then 1 else 0)"
    "count_list (lifetime (cs, r) [SSL_free, SSL_CTX_free]) SSL_CTX_free = (if call_ok E SSL_CTX_new then 1 else 0)"
proof -
  obtain c1 r1 b where c: "TlsTransport_ctor E isClient (Some host) cert = (c1, r1, b)" by (metis prod_cases3)
  have b: "b = False" using assms c by (auto simp: VerifiedTlsTransport_ctor_def then_calls_def split: sum.splits prod.splits)
  note base = openssl_lifetime [OF c [unfolded b]]
  obtain c2 r2 where g: "run_guarded E (verified_setup cacert) [SSL_free, SSL_CTX_free] = (c2, r2)" by fastforce
  have n: "x \<notin> fst ` set (verified_setup cacert)" if "x \<in> {SSL_free, SSL_CTX_free, SSL_new, SSL_CTX_new}" for x
    using that by (auto simp: verified_setup_def split: option.splits if_splits)
  have cnt: "count_list c2 SSL_free = (case r2 of Inl e \<Rightarrow> 1 | Inr _ \<Rightarrow> 0)" "count_list c2 SSL_CTX_free = (case r2 of Inl e \<Rightarrow> 1 | Inr _ \<Rightarrow> 0)"
    using count_guarded [OF n, of SSL_free E "[SSL_free, SSL_CTX_free]"] count_guarded [OF n, of SSL_CTX_free E "[SSL_free, SSL_CTX_free]"]
    by (simp_all add: g split: sum.split)
  have mem: "SSL_new \<notin> set c2"
  proof -
    obtain xs q where x: "run_calls E (verified_setup cacert) = (xs, q)" by fastforce
    have "SSL_new \<notin> set xs" using set_mono_prefix [OF run_calls_prefix [OF x]] n [of SSL_new] by auto
    then show ?thesis using g x by (auto simp: run_guarded_def split: sum.splits)
  qed
  show "count_list (lifetime (cs, r) [SSL_free, SSL_CTX_free]) SSL_free = (if SSL_new \<in> set cs \<and> call_ok E SSL_new then 1 else 0)"
    "count_list (lifetime (cs, r) [SSL_free, SSL_CTX_free]) SSL_CTX_free = (if call_ok E SSL_CTX_new then 1 else 0)"
    using assms c g base cnt mem
    by (auto simp: VerifiedTlsTransport_ctor_def then_calls_def lifetime_def split: sum.splits if_splits)
qed

text \<open>With GnuTLS the session is freed once if it was made.\<close>

lemma gnutls_lifetime:
  assumes "gnutls_ctor E isClient host cert d = ((cs, r), d')"
  shows "count_list (lifetime (cs, r) [gnutls_deinit]) gnutls_deinit = (if call_ok E (gnutls_init isClient) then 1 else 0)"
  using assms gnutls_try_no_deinit [of E isClient host cert d]
  by (auto simp: gnutls_ctor_def lifetime_def after_call_def openssl_check_def split: prod.splits sum.splits if_splits)

lemma gnutls_verified_lifetime:
  assumes "gnutls_verified_ctor E isClient host cert d = ((cs, r), d')"
  shows "count_list (lifetime (cs, r) [gnutls_deinit]) gnutls_deinit = (if call_ok E (gnutls_init isClient) then 1 else 0)"
proof -
  obtain c1 r1 where c: "gnutls_ctor E isClient (Some host) cert d = ((c1, r1), d')"
    using assms by (auto simp: gnutls_verified_ctor_def split: prod.splits)
  from assms c have "cs = c1 @ (if isl r1 then [] else [gnutls_session_set_verify_cert host])" "r = r1"
    by (auto simp: gnutls_verified_ctor_def then_calls_def after_call_def split: sum.splits)
  with gnutls_lifetime [OF c] show ?thesis by (cases r1) (auto simp: lifetime_def)
qed

text \<open>
  With Mbed TLS each of the four contexts is freed once, and the CA certificate of the verified transport as often as it was
  initialised.
\<close>

lemma count_mbed_frees: "c \<in> set mbed_frees \<Longrightarrow> count_list mbed_frees c = 1"
  by (auto simp: mbed_frees_def)

lemma mbed_lifetime:
  assumes "mbed_ctor E isClient host cert = (cs, r)" "c \<in> set mbed_frees"
  shows "count_list (lifetime (cs, r) mbed_frees) c = 1"
proof -
  obtain ys q where y: "run_guarded E (mbed_setup_try isClient host cert) mbed_frees = (ys, q)" by fastforce
  with assms(1) have cs: "cs = [psa_crypto_init, mbedtls_entropy_init, mbedtls_ctr_drbg_init, mbedtls_ssl_init, mbedtls_ssl_config_init,
      mbedtls_ctr_drbg_set_prediction_resistance] @ ys" "q = r"
    by (auto simp: mbed_ctor_def then_calls_def after_call_def)
  have n: "c \<notin> fst ` set (mbed_setup_try isClient host cert)"
    using assms(2) by (cases host; cases cert; auto simp: mbed_setup_try_def mbed_frees_def)
  from count_guarded [OF n, of E mbed_frees] y have "count_list ys c = (case r of Inl e \<Rightarrow> 1 | Inr _ \<Rightarrow> 0)"
    using count_mbed_frees [OF assms(2)] cs(2) by (simp split: sum.split)
  with cs count_mbed_frees [OF assms(2)] assms(2) show ?thesis
    by (cases r) (auto simp: lifetime_def mbed_frees_def)
qed

lemma mbed_verified_lifetime:
  assumes "mbed_verified_ctor E isClient host cert cacert = (cs, r)"
  shows "c \<in> set mbed_frees \<Longrightarrow> count_list (lifetime (cs, r) (mbedtls_x509_crt_free # mbed_frees)) c = 1"
    "count_list (lifetime (cs, r) (mbedtls_x509_crt_free # mbed_frees)) mbedtls_x509_crt_free = count_list cs mbedtls_x509_crt_init"
proof -
  obtain c1 r1 where c: "mbed_ctor E isClient (Some host) cert = (c1, r1)" by fastforce
  obtain c2 r2 where g: "run_guarded E (mbed_verified_try cacert) (mbedtls_x509_crt_free # mbed_frees) = (c2, r2)" by fastforce
  have cs: "(cs, r) = (case r1 of Inl e \<Rightarrow> (c1, Inl e) | Inr _ \<Rightarrow>
      (c1 @ [mbedtls_ssl_conf_authmode MBEDTLS_SSL_VERIFY_REQUIRED, mbedtls_x509_crt_init] @ c2, r2))"
    using assms c g by (auto simp: mbed_verified_ctor_def then_calls_def after_call_def split: sum.splits)
  have n: "x \<notin> fst ` set (mbed_verified_try cacert)" if "x \<in> {mbedtls_x509_crt_free, mbedtls_x509_crt_init} \<union> set mbed_frees" for x
    using that by (auto simp: mbed_verified_try_def mbed_frees_def split: option.splits if_splits)
  note cnt = count_guarded [OF n, of _ E "mbedtls_x509_crt_free # mbed_frees", unfolded g fst_conv snd_conv]
  have no: "count_list c1 mbedtls_x509_crt_free = 0" "count_list c1 mbedtls_x509_crt_init = 0"
  proof -
    have "x \<notin> fst ` set (mbed_setup_try isClient (Some host) cert) \<and> count_list mbed_frees x = 0"
      if "x \<in> {mbedtls_x509_crt_free, mbedtls_x509_crt_init}" for x
      using that by (cases cert) (auto simp: mbed_setup_try_def mbed_frees_def)
    then have "count_list (fst (run_guarded E (mbed_setup_try isClient (Some host) cert) mbed_frees)) x = 0"
      if "x \<in> {mbedtls_x509_crt_free, mbedtls_x509_crt_init}" for x
      using that count_guarded [of x "mbed_setup_try isClient (Some host) cert" E mbed_frees] by (auto split: sum.splits)
    then show "count_list c1 mbedtls_x509_crt_free = 0" "count_list c1 mbedtls_x509_crt_init = 0"
      using c by (auto simp: mbed_ctor_def then_calls_def after_call_def split: prod.splits sum.splits)
  qed
  have init: "count_list (mbedtls_x509_crt_free # mbed_frees) mbedtls_x509_crt_init = 0"
    "count_list (mbedtls_x509_crt_free # mbed_frees) mbedtls_x509_crt_free = 1" by (simp_all add: mbed_frees_def)
  show "count_list (lifetime (cs, r) (mbedtls_x509_crt_free # mbed_frees)) mbedtls_x509_crt_free = count_list cs mbedtls_x509_crt_init"
    using cs no init cnt [of mbedtls_x509_crt_free] cnt [of mbedtls_x509_crt_init]
    by (cases r1; cases r2) (simp_all add: lifetime_def)
  show "count_list (lifetime (cs, r) (mbedtls_x509_crt_free # mbed_frees)) c = 1" if f: "c \<in> set mbed_frees"
  proof -
    have c: "count_list (mbedtls_x509_crt_free # mbed_frees) c = 1" "c \<noteq> mbedtls_x509_crt_init"
      "c \<noteq> mbedtls_ssl_conf_authmode MBEDTLS_SSL_VERIFY_REQUIRED" using f by (auto simp: mbed_frees_def)
    have "count_list (lifetime (c1, r1) mbed_frees) c = 1" by (rule mbed_lifetime [OF \<open>mbed_ctor _ _ _ _ = _\<close> f])
    then show ?thesis using cs c cnt [of c] f count_mbed_frees [OF f]
      by (cases r1; cases r2) (auto simp: lifetime_def)
  qed
qed

section \<open>The helpers of \<open>tls.cpp\<close>\<close>

text \<open>
  Structures of a library on the heap: the memory is allocated with \<open>new\<close> and initialised by the library; the
  deleter undoes both. With GnuTLS the initialisation is checked, and the check may throw; there is no handler.
\<close>

datatype heap_object = GnuCredentials | GnuCrt | GnuPrivkey | PkContext | MbedCrt

datatype heap_call = CppNew heap_object | LibInit heap_object | LibFree heap_object | CppDelete heap_object

definition new_credentials :: "heap_call call_env \<Rightarrow> heap_call list \<times> unit res" where
  "new_credentials E = run_calls E [(CppNew GnuCredentials, Ignored), (LibInit GnuCredentials, Checked ''GnuTLS error'')]"

definition free_credentials :: "heap_call list" where
  "free_credentials = [LibFree GnuCredentials, CppDelete GnuCredentials]"

definition new_crt :: "heap_call call_env \<Rightarrow> heap_call list \<times> unit res" where
  "new_crt E = run_calls E [(CppNew GnuCrt, Ignored), (LibInit GnuCrt, Checked ''GnuTLS error'')]"

definition free_crt :: "heap_call list" where
  "free_crt = [LibFree GnuCrt, CppDelete GnuCrt]"

definition new_privkey :: "heap_call call_env \<Rightarrow> heap_call list \<times> unit res" where
  "new_privkey E = run_calls E [(CppNew GnuPrivkey, Ignored), (LibInit GnuPrivkey, Checked ''GnuTLS error'')]"

definition free_privkey :: "heap_call list" where
  "free_privkey = [LibFree GnuPrivkey, CppDelete GnuPrivkey]"

text \<open>The shared pointers of the Mbed TLS build: the calls that make the object, and the deleter.\<close>

definition new_pk_context :: "heap_call list \<times> heap_call list" where
  "new_pk_context = ([CppNew PkContext, LibInit PkContext], [LibFree PkContext, CppDelete PkContext])"

definition new_x509_crt :: "heap_call list \<times> heap_call list" where
  "new_x509_crt = ([CppNew MbedCrt, LibInit MbedCrt], [LibFree MbedCrt, CppDelete MbedCrt])"

text \<open>What a sequence of calls leaves: the objects allocated and not deleted, and those initialised and not freed.\<close>

fun heap_after :: "heap_call list \<Rightarrow> heap_object list \<times> heap_object list \<Rightarrow> heap_object list \<times> heap_object list" where
  "heap_after [] h = h"
| "heap_after (CppNew x # cs) (a, i) = heap_after cs (x # a, i)"
| "heap_after (CppDelete x # cs) (a, i) = heap_after cs (remove1 x a, i)"
| "heap_after (LibInit x # cs) (a, i) = heap_after cs (a, x # i)"
| "heap_after (LibFree x # cs) (a, i) = heap_after cs (a, remove1 x i)"

lemma heap_after_append: "heap_after (xs @ ys) h = heap_after ys (heap_after xs h)"
  by (induction xs h rule: heap_after.induct) auto

text \<open>An object that was made and then freed leaves nothing, whatever else lies on the heap; one whose making throws leaves its memory.\<close>

lemma gnutls_objects_balanced:
  assumes "(new, free) \<in> {(new_credentials, free_credentials), (new_crt, free_crt), (new_privkey, free_privkey)}"
  shows "new E = (cs, Inr u) \<Longrightarrow> heap_after (cs @ free) h = h"
    "new E = (cs, Inl e) \<Longrightarrow> \<exists>x. CppNew x \<in> set cs \<and> CppDelete x \<notin> set cs"
  using assms
  by (cases h; auto simp: new_credentials_def new_crt_def new_privkey_def free_credentials_def free_crt_def free_privkey_def
      after_call_def split: sum.splits)+

lemma mbed_objects_balanced:
  "heap_after (fst new_pk_context @ snd new_pk_context) h = h" "heap_after (fst new_x509_crt @ snd new_x509_crt) h = h"
  by (cases h; simp add: new_pk_context_def new_x509_crt_def)+

text \<open>
  OpenSSL is initialised once, and the index of the extra data that leads from a session to its transport is made once,
  however often \<open>Init\<close> is called. The state is the two static variables; the second component of the result are the calls.
\<close>

datatype openssl_call = OPENSSL_init_ssl | OPENSSL_init_crypto | SSL_get_ex_new_index

record openssl_statics =
  init_done :: bool
  TransportExIndex :: int

definition openssl_init :: "openssl_statics \<Rightarrow> openssl_statics \<times> openssl_call list" where
  "openssl_init s = (s\<lparr>init_done := True\<rparr>, if \<not> init_done s then [OPENSSL_init_ssl, OPENSSL_init_crypto] else [])"

definition TlsTransport_Init :: "int \<Rightarrow> openssl_statics \<Rightarrow> openssl_statics \<times> openssl_call list" where
  "TlsTransport_Init index s =
     (case openssl_init s of (s, cs) \<Rightarrow>
        if TransportExIndex s < 0 then (s\<lparr>TransportExIndex := index\<rparr>, cs @ [SSL_get_ex_new_index]) else (s, cs))"

fun Init_times :: "int list \<Rightarrow> openssl_statics \<Rightarrow> openssl_statics \<times> openssl_call list" where
  "Init_times [] s = (s, [])"
| "Init_times (i # is) s = (case TlsTransport_Init i s of (s, cs) \<Rightarrow> (case Init_times is s of (s, ds) \<Rightarrow> (s, cs @ ds)))"

lemma Init_again: "init_done s \<Longrightarrow> TransportExIndex s \<ge> 0 \<Longrightarrow> Init_times is s = (s, [])"
  by (induction "is"; cases s) (simp_all add: TlsTransport_Init_def openssl_init_def)

lemma Init_once:
  assumes "i \<ge> 0"
  shows "Init_times (i # is) \<lparr>init_done = False, TransportExIndex = - 1\<rparr> =
    (\<lparr>init_done = True, TransportExIndex = i\<rparr>, [OPENSSL_init_ssl, OPENSSL_init_crypto, SSL_get_ex_new_index])"
  using assms Init_again [of "\<lparr>init_done = True, TransportExIndex = i\<rparr>" "is"]
  by (simp add: TlsTransport_Init_def openssl_init_def)

text \<open>\<open>ERR_error_string_n\<close> writes at most 255 characters and a zero.\<close>

definition openssl_error_string :: "(nat \<Rightarrow> string) \<Rightarrow> nat \<Rightarrow> string" where
  "openssl_error_string text error = (let bufferSize = 256 in take (bufferSize - 1) (text error))"

subsection \<open>Printing a time\<close>

text \<open>A broken-down time, as \<open>gmtime_r\<close> gives it: the year since 1900, the month from 0.\<close>

record tm =
  tm_sec :: nat
  tm_min :: nat
  tm_hour :: nat
  tm_mday :: nat
  tm_mon :: nat
  tm_year :: nat

definition two_digits :: "nat \<Rightarrow> string" where
  "two_digits n = (if n < 10 then ''0'' else []) @ to_string n"

text \<open>The format of \<open>strftime\<close> that is used, and its result: the text if it fits the buffer with a zero after it.\<close>

definition strftime :: "nat \<Rightarrow> tm \<Rightarrow> string option" where
  "strftime bufsize g =
     (let s = to_string (1900 + tm_year g) @ two_digits (tm_mon g + 1) @ two_digits (tm_mday g)
            @ two_digits (tm_hour g) @ two_digits (tm_min g) @ two_digits (tm_sec g)
      in if length s < bufsize then Some s else None)"

definition my_strftme :: "(int \<Rightarrow> tm option) \<Rightarrow> nat \<Rightarrow> int \<Rightarrow> string option" where
  "my_strftme my_gmtime bufsize t = (case my_gmtime t of None \<Rightarrow> None | Some g \<Rightarrow> strftime bufsize g)"

definition mbed_format_time :: "(int \<Rightarrow> tm option) \<Rightarrow> int \<Rightarrow> string res" where
  "mbed_format_time my_gmtime t =
     (case my_strftme my_gmtime 256 t of
        None \<Rightarrow> Inl (runtime_error ''Time conversion failed'')
      | Some s \<Rightarrow> Inr s)"

text \<open>In the years of four digits the text has the fourteen digits that a certificate needs.\<close>

lemma length_to_string: "length (to_string n) = (if n < 10 then 1 else Suc (length (to_string (n div 10))))"
  by (subst to_string.simps) simp

lemma two_digits_length: "n < 100 \<Longrightarrow> length (two_digits n) = 2"
  using length_to_string [of n] length_to_string [of "n div 10"] by (auto simp: two_digits_def)

lemma four_digits_length:
  assumes "1000 \<le> n" "n < 10000"
  shows "length (to_string n) = 4"
proof -
  have "n \<ge> 10" "n div 10 \<ge> 10" "n div 10 div 10 \<ge> 10" "n div 10 div 10 div 10 < 10" using assms by auto
  then show ?thesis
    by (simp only: length_to_string [of n] length_to_string [of "n div 10"] length_to_string [of "n div 10 div 10"]
        length_to_string [of "n div 10 div 10 div 10"] not_less if_True) simp
qed

lemma format_time_digits:
  assumes "gm t = Some g" "tm_year g < 8100" "tm_mon g < 12" "tm_mday g < 32" "tm_hour g < 24" "tm_min g < 60" "tm_sec g < 62"
  shows "\<exists>s. mbed_format_time gm t = Inr s \<and> length s = 14 \<and> (\<forall>c \<in> set s. isdigit c)"
proof -
  let ?s = "to_string (1900 + tm_year g) @ two_digits (tm_mon g + 1) @ two_digits (tm_mday g)
            @ two_digits (tm_hour g) @ two_digits (tm_min g) @ two_digits (tm_sec g)"
  have n: "length ?s = 14" using assms(2-7) by (simp add: two_digits_length four_digits_length)
  have "\<forall>c \<in> set (two_digits n). isdigit c" for n using to_string_digits [of n] by (auto simp: two_digits_def isdigit_def)
  then have "\<forall>c \<in> set ?s. isdigit c" using to_string_digits by auto
  with n assms(1) show ?thesis by (simp add: mbed_format_time_def my_strftme_def strftime_def Let_def)
qed

end
