(* ===== verification/Wsc_Certificate.thy ===== *)
theory Wsc_Certificate
  imports Wsc_Calls Wsc_Utils
begin

text \<open>
  Certificates (\<open>src/impl/certificate.cpp\<close>, and \<open>BIO_new_from_file\<close> of \<open>src/impl/tls.cpp\<close>): fingerprints and
  their test, and importing from PEM text and files in the OpenSSL build. Generating certificates, and importing
  them in the other builds, is in \<open>Wsc_CertGenerate\<close>.

  \<^item> The digests of the three libraries and the PEM parser of OpenSSL are parameters (\<open>pem_lib\<close>) over the types \<open>'x\<close> of certificates
    and \<open>'k\<close> of keys; smart pointers free what the parser returns, so only the BIOs are accounted for: what
    is done to them is recorded in \<open>bio_log\<close>.
  \<^item> A digest is as long as the algorithm says; that is a hypothesis where it matters.
\<close>

section \<open>Fingerprints\<close>

datatype Algorithm = Sha1 | Sha224 | Sha256 | Sha384 | Sha512

record CertificateFingerprint =
  fp_algorithm :: Algorithm
  fp_value :: string

fun AlgorithmSize :: "Algorithm \<Rightarrow> nat" where
  "AlgorithmSize Sha1 = 20"
| "AlgorithmSize Sha224 = 28"
| "AlgorithmSize Sha256 = 32"
| "AlgorithmSize Sha384 = 48"
| "AlgorithmSize Sha512 = 64"

fun AlgorithmIdentifier :: "Algorithm \<Rightarrow> string" where
  "AlgorithmIdentifier Sha1 = ''sha-1''"
| "AlgorithmIdentifier Sha224 = ''sha-224''"
| "AlgorithmIdentifier Sha256 = ''sha-256''"
| "AlgorithmIdentifier Sha384 = ''sha-256''"
| "AlgorithmIdentifier Sha512 = ''sha-512''"

definition fingerprint_isValid :: "CertificateFingerprint \<Rightarrow> bool" where
  "fingerprint_isValid f =
     (let expectedSize = AlgorithmSize (fp_algorithm f); value = fp_value f
      in expectedSize \<noteq> 0 \<and> length value = expectedSize * 3 - 1 \<and>
         list_all (\<lambda>i. if i mod 3 = 2 then value ! i = CHR '':'' else isxdigit (value ! i)) [0..<length value])"

text \<open>A byte with two hexadecimal digits, in upper case for OpenSSL and GnuTLS and in lower case for Mbed TLS.\<close>

definition lower_digit :: "nat \<Rightarrow> char" where
  "lower_digit n = (if n < 10 then char_of (48 + n) else char_of (87 + n))"

definition hex_byte :: "bool \<Rightarrow> byte \<Rightarrow> string" where
  "hex_byte upper b =
     (let digit = (if upper then hex_digit else lower_digit) in [digit (unat b div 16), digit (unat b mod 16)])"

text \<open>The loops over the digest: a colon before every byte but the first.\<close>

fun fingerprint_string :: "bool \<Rightarrow> binary \<Rightarrow> string" where
  "fingerprint_string upper [] = []"
| "fingerprint_string upper [b] = hex_byte upper b"
| "fingerprint_string upper (b # bs) = hex_byte upper b @ CHR '':'' # fingerprint_string upper bs"

definition make_fingerprint :: "(Algorithm \<Rightarrow> 'x \<Rightarrow> binary option) \<Rightarrow> 'x \<Rightarrow> Algorithm \<Rightarrow> string res" where
  "make_fingerprint digest x a =
     (case digest a x of
        None \<Rightarrow> Inl (runtime_error ''X509 fingerprint error'')
      | Some buffer \<Rightarrow> Inr (fingerprint_string True buffer))"

text \<open>GnuTLS adds the error string of the library to the message; so does Mbed TLS, which has one function for two algorithms.\<close>

definition gnutls_make_fingerprint :: "(Algorithm \<Rightarrow> 'x \<Rightarrow> string + binary) \<Rightarrow> 'x \<Rightarrow> Algorithm \<Rightarrow> string res" where
  "gnutls_make_fingerprint digest x a =
     (case digest a x of
        Inl e \<Rightarrow> Inl (runtime_error (''X509 fingerprint error'' @ '': '' @ e))
      | Inr buffer \<Rightarrow> Inr (fingerprint_string True buffer))"

datatype mbed_hash = mbedtls_sha1 | mbedtls_sha256 bool | mbedtls_sha512 bool

fun mbed_hash_of :: "Algorithm \<Rightarrow> mbed_hash" where
  "mbed_hash_of Sha1 = mbedtls_sha1"
| "mbed_hash_of Sha224 = mbedtls_sha256 True"
| "mbed_hash_of Sha256 = mbedtls_sha256 False"
| "mbed_hash_of Sha384 = mbedtls_sha512 True"
| "mbed_hash_of Sha512 = mbedtls_sha512 False"

definition mbed_make_fingerprint :: "(mbed_hash \<Rightarrow> 'x \<Rightarrow> string + binary) \<Rightarrow> 'x \<Rightarrow> Algorithm \<Rightarrow> string res" where
  "mbed_make_fingerprint digest x a =
     (case digest (mbed_hash_of a) x of
        Inl e \<Rightarrow> Inl (runtime_error (''Failed to generate certificate fingerprint'' @ '': '' @ e))
      | Inr buffer \<Rightarrow> Inr (fingerprint_string False buffer))"

text \<open>The reference: reading the digest back.\<close>

fun fingerprint_bytes :: "string \<Rightarrow> binary" where
  "fingerprint_bytes (a # b # c # rest) = word_of_nat (16 * xdigit_value a + xdigit_value b) # fingerprint_bytes rest"
| "fingerprint_bytes [a, b] = [word_of_nat (16 * xdigit_value a + xdigit_value b)]"
| "fingerprint_bytes _ = []"

lemma lower_digit_xdigit: "n < 16 \<Longrightarrow> isxdigit (lower_digit n) \<and> xdigit_value (lower_digit n) = n"
  by (auto simp: lower_digit_def isxdigit_def xdigit_value_def Let_def)

lemma hex_byte_digits:
  "\<exists>x y. hex_byte u b = [x, y] \<and> isxdigit x \<and> isxdigit y \<and> word_of_nat (16 * xdigit_value x + xdigit_value y) = b"
proof -
  have n: "unat b div 16 < 16" "unat b mod 16 < 16" using unat_byte_less [of b] by simp_all
  have "word_of_nat (16 * (unat b div 16) + unat b mod 16) = b" by simp
  with hex_digit_xdigit [OF n(1)] hex_digit_xdigit [OF n(2)] lower_digit_xdigit [OF n(1)] lower_digit_xdigit [OF n(2)]
  show ?thesis by (simp add: hex_byte_def Let_def del: of_nat_add of_nat_mult)
qed

lemma fingerprint_string_length: "bs \<noteq> [] \<Longrightarrow> length (fingerprint_string u bs) = 3 * length bs - 1"
proof (induction u bs rule: fingerprint_string.induct)
  case (3 u b b' bs)
  with hex_byte_digits [of u b] show ?case by auto
qed (auto simp: hex_byte_def Let_def)

lemma fingerprint_string_nth:
  "i < length (fingerprint_string u bs) \<Longrightarrow>
   (if i mod 3 = 2 then fingerprint_string u bs ! i = CHR '':'' else isxdigit (fingerprint_string u bs ! i))"
proof (induction u bs arbitrary: i rule: fingerprint_string.induct)
  case (2 u b)
  with hex_byte_digits [of u b] show ?case by (auto simp: nth_Cons' less_Suc_eq)
next
  case (3 u b b' bs)
  obtain x y where h: "hex_byte u b = [x, y]" "isxdigit x" "isxdigit y" using hex_byte_digits [of u b] by blast
  show ?case
  proof (cases "i < 3")
    case True
    then have "i = 0 \<or> i = 1 \<or> i = 2" by auto
    with h show ?thesis by auto
  next
    case False
    then obtain j where j: "i = 3 + j" by (metis add.commute le_Suc_ex not_less)
    have "j < length (fingerprint_string u (b' # bs))" using "3.prems" h j by simp
    from "3.IH" [OF this] h j show ?thesis by simp
  qed
qed simp

lemma fingerprint_string_bytes: "fingerprint_bytes (fingerprint_string u bs) = bs"
proof (induction u bs rule: fingerprint_string.induct)
  case (2 u b)
  with hex_byte_digits [of u b] show ?case by auto
next
  case (3 u b b' bs)
  obtain x y where "hex_byte u b = [x, y]" "word_of_nat (16 * xdigit_value x + xdigit_value y) = b"
    using hex_byte_digits [of u b] by blast
  with "3.IH" show ?case by simp
qed simp

text \<open>A fingerprint of a digest of the right length passes the test.\<close>

lemma fingerprint_string_valid:
  assumes "length bs = AlgorithmSize a"
  shows "fingerprint_isValid \<lparr>fp_algorithm = a, fp_value = fingerprint_string u bs\<rparr>"
proof -
  have ne: "AlgorithmSize a \<noteq> 0" by (cases a) simp_all
  with assms have "bs \<noteq> []" by auto
  from fingerprint_string_length [OF this, of u] fingerprint_string_nth [of _ u bs] ne assms show ?thesis
    by (simp add: fingerprint_isValid_def Let_def list_all_iff mult.commute)
qed

text \<open>The test accepts exactly the texts of digests of the right length, with the digits in either case.\<close>

definition upper_case :: "char \<Rightarrow> char" where
  "upper_case c = (let n = of_char c :: nat in if 97 \<le> n \<and> n \<le> 122 then char_of (n - 32) else c)"

lemma upper_case_colon: "upper_case c = CHR '':'' \<longleftrightarrow> c = CHR '':''"
proof -
  have "of_char (upper_case c) = (58 :: nat) \<longleftrightarrow> of_char c = (58 :: nat)"
    using of_char_less_256 [of c] by (auto simp: upper_case_def Let_def)
  moreover have "x = CHR '':'' \<longleftrightarrow> of_char x = (58 :: nat)" for x :: char
    using of_char_eq_iff [of x "CHR '':''", where 'a = nat] by simp
  ultimately show ?thesis by simp
qed

lemma upper_case_isxdigit: "isxdigit c \<Longrightarrow> isxdigit (upper_case c) \<and> upper_case c = hex_digit (xdigit_value c) \<and> xdigit_value c < 16"
  using of_char_less_256 [of c] by (auto simp: upper_case_def isxdigit_def xdigit_value_def hex_digit_def Let_def)

lemma isxdigit_upper_case: "isxdigit (upper_case c) \<Longrightarrow> isxdigit c"
  using of_char_less_256 [of c] by (auto simp: upper_case_def isxdigit_def Let_def split: if_splits)

lemma hex_byte_upper:
  assumes "isxdigit x" "isxdigit y"
  shows "hex_byte True (word_of_nat (16 * xdigit_value x + xdigit_value y)) = [upper_case x, upper_case y]"
proof -
  note u = upper_case_isxdigit [OF assms(1)] upper_case_isxdigit [OF assms(2)]
  then have "16 * xdigit_value x + xdigit_value y < 256" by linarith
  then have "unat (word_of_nat (16 * xdigit_value x + xdigit_value y) :: byte) = 16 * xdigit_value x + xdigit_value y"
    by (simp add: unat_of_nat del: of_nat_add of_nat_mult)
  with u show ?thesis by (simp add: hex_byte_def Let_def del: of_nat_add of_nat_mult)
qed

lemma upper_case_fingerprint:
  "length v mod 3 = 2 \<Longrightarrow> \<forall>i<length v. if i mod 3 = 2 then v ! i = CHR '':'' else isxdigit (v ! i) \<Longrightarrow>
   fingerprint_string True (fingerprint_bytes v) = map upper_case v \<and> length v = 3 * length (fingerprint_bytes v) - 1
   \<and> fingerprint_bytes v \<noteq> []"
proof (induction v rule: fingerprint_bytes.induct)
  case (1 a b c rest)
  have "length rest mod 3 = 2" using "1.prems"(1) by simp
  moreover have "\<forall>i<length rest. if i mod 3 = 2 then rest ! i = CHR '':'' else isxdigit (rest ! i)"
  proof (intro allI impI)
    fix i assume "i < length rest"
    then have "i + 3 < length (a # b # c # rest)" by simp
    moreover have n: "(a # b # c # rest) ! (i + 3) = rest ! i" by (simp add: numeral_3_eq_3)
    ultimately have "if (i + 3) mod 3 = 2 then rest ! i = CHR '':'' else isxdigit (rest ! i)"
      using "1.prems"(2) by (metis (no_types, lifting))
    then show "if i mod 3 = 2 then rest ! i = CHR '':'' else isxdigit (rest ! i)" by simp
  qed
  ultimately have ih: "fingerprint_string True (fingerprint_bytes rest) = map upper_case rest"
    "length rest = 3 * length (fingerprint_bytes rest) - 1" "fingerprint_bytes rest \<noteq> []"
    using "1.IH" by blast+
  have abc: "isxdigit a" "isxdigit b" "c = CHR '':''"
    using "1.prems"(2) [rule_format, of 0] "1.prems"(2) [rule_format, of 1] "1.prems"(2) [rule_format, of 2] by simp_all
  obtain b' bs where bs: "fingerprint_bytes rest = b' # bs" using ih(3) by (cases "fingerprint_bytes rest") simp_all
  have "fingerprint_string True (fingerprint_bytes (a # b # c # rest)) =
      hex_byte True (word_of_nat (16 * xdigit_value a + xdigit_value b)) @ CHR '':'' # fingerprint_string True (fingerprint_bytes rest)"
    by (simp add: bs)
  also have "\<dots> = map upper_case (a # b # c # rest)"
    using abc upper_case_colon [of c] by (simp add: hex_byte_upper ih(1) del: of_nat_add of_nat_mult)
  finally show ?case using ih(2) bs by simp
next
  case (2 a b)
  have "isxdigit a" "isxdigit b" using "2.prems"(2) [rule_format, of 0] "2.prems"(2) [rule_format, of 1] by simp_all
  then show ?case by (simp add: hex_byte_upper del: of_nat_add of_nat_mult)
qed simp_all

lemma fingerprint_isValid_iff:
  "fingerprint_isValid f \<longleftrightarrow>
   (\<exists>d. length d = AlgorithmSize (fp_algorithm f) \<and> map upper_case (fp_value f) = fingerprint_string True d)"
proof -
  define k where "k = AlgorithmSize (fp_algorithm f)"
  have k: "k \<noteq> 0" by (cases "fp_algorithm f") (simp_all add: k_def)
  show ?thesis
  proof
    assume v: "fingerprint_isValid f"
    then have l: "length (fp_value f) = 3 * k - 1"
      "\<forall>i<length (fp_value f). if i mod 3 = 2 then fp_value f ! i = CHR '':'' else isxdigit (fp_value f ! i)"
      by (simp_all add: fingerprint_isValid_def Let_def list_all_iff k_def mult.commute)
    have "length (fp_value f) mod 3 = 2" unfolding l(1) using k by (cases k) (simp_all, presburger)
    from upper_case_fingerprint [OF this l(2)] l(1) k
    show "\<exists>d. length d = AlgorithmSize (fp_algorithm f) \<and> map upper_case (fp_value f) = fingerprint_string True d"
      by (intro exI [of _ "fingerprint_bytes (fp_value f)"]) (auto simp: k_def)
  next
    assume "\<exists>d. length d = AlgorithmSize (fp_algorithm f) \<and> map upper_case (fp_value f) = fingerprint_string True d"
    then obtain d where d: "length d = k" "map upper_case (fp_value f) = fingerprint_string True d" by (auto simp: k_def)
    have l: "length (fp_value f) = 3 * k - 1"
      using fingerprint_string_length [of d True] d k by (metis length_map list.size(3))
    have "if i mod 3 = 2 then fp_value f ! i = CHR '':'' else isxdigit (fp_value f ! i)" if "i < length (fp_value f)" for i
      using fingerprint_string_nth [of i True d] that unfolding d(2) [symmetric]
      by (auto simp: upper_case_colon dest: isxdigit_upper_case split: if_splits)
    with l k show "fingerprint_isValid f"
      by (auto simp: fingerprint_isValid_def Let_def list_all_iff k_def mult.commute)
  qed
qed

section \<open>Importing with OpenSSL\<close>

record ('x, 'k) pem_lib =
  PEM_read_bio_X509 :: "binary \<Rightarrow> 'x option \<times> binary"
  PEM_read_bio_PrivateKey :: "string option \<Rightarrow> binary \<Rightarrow> 'k option"
  X509_digest :: "Algorithm \<Rightarrow> 'x \<Rightarrow> binary option"

record ('x, 'k) Certificate =
  mX509 :: 'x
  mPKey :: 'k
  mChain :: "'x list"
  mFingerprint :: string

datatype bio_event = BioNew nat | BioUse nat | BioFree nat

record bio_state =
  bio_made :: nat
  bio_data :: "nat \<Rightarrow> binary"
  bio_log :: "bio_event list"

definition bio_new :: "bio_state \<Rightarrow> nat \<times> bio_state" where
  "bio_new s = (bio_made s, s\<lparr>bio_made := bio_made s + 1, bio_data := (bio_data s)(bio_made s := []),
     bio_log := bio_log s @ [BioNew (bio_made s)]\<rparr>)"

definition bio_set :: "nat \<Rightarrow> binary \<Rightarrow> bio_state \<Rightarrow> bio_state" where
  "bio_set i b s = s\<lparr>bio_data := (bio_data s)(i := b), bio_log := bio_log s @ [BioUse i]\<rparr>"

text \<open>\<open>BIO_write\<close> takes the size as an \<open>int\<close>; it writes nothing when that is negative.\<close>

definition bio_write :: "nat \<Rightarrow> binary \<Rightarrow> bio_state \<Rightarrow> bio_state" where
  "bio_write i b s =
     (let n = length b mod 2 ^ 32
      in bio_set i (bio_data s i @ (if n < 2 ^ 31 then take n b else [])) s)"

definition bio_free :: "nat \<Rightarrow> bio_state \<Rightarrow> bio_state" where
  "bio_free i s = s\<lparr>bio_log := bio_log s @ [BioFree i]\<rparr>"

definition read_x509 :: "('x, 'k) pem_lib \<Rightarrow> nat \<Rightarrow> bio_state \<Rightarrow> 'x option \<times> bio_state" where
  "read_x509 L i s = (case PEM_read_bio_X509 L (bio_data s i) of (x, rest) \<Rightarrow> (x, bio_set i rest s))"

text \<open>The loop that collects the chain; it ends when the parser finds no further certificate.\<close>

partial_function (option) read_chain ::
  "('x, 'k) pem_lib \<Rightarrow> nat \<Rightarrow> 'x list \<Rightarrow> bio_state \<Rightarrow> ('x list \<times> bio_state) option" where
  "read_chain L i chain s =
     (case read_x509 L i s of (x, s) \<Rightarrow>
        case x of
          None \<Rightarrow> Some (chain, s)
        | Some extra \<Rightarrow> read_chain L i (chain @ [extra]) s)"

definition Certificate_new :: "('x, 'k) pem_lib \<Rightarrow> 'x \<Rightarrow> 'k \<Rightarrow> 'x list \<Rightarrow> ('x, 'k) Certificate res" where
  "Certificate_new L x509 pkey chain =
     (case make_fingerprint (X509_digest L) x509 Sha256 of
        Inl e \<Rightarrow> Inl e
      | Inr f \<Rightarrow> Inr \<lparr>mX509 = x509, mPKey = pkey, mChain = chain, mFingerprint = f\<rparr>)"

definition Certificate_fingerprint :: "('x, 'k) Certificate \<Rightarrow> CertificateFingerprint" where
  "Certificate_fingerprint c = \<lparr>fp_algorithm = Sha256, fp_value = mFingerprint c\<rparr>"

text \<open>
  The certificate half of both functions, on the BIO that holds the text: the first certificate and its
  chain, or nothing; the BIO is freed either way.
\<close>

definition import_x509 ::
  "('x, 'k) pem_lib \<Rightarrow> nat \<Rightarrow> bio_state \<Rightarrow> (('x \<times> 'x list) option \<times> bio_state) option" where
  "import_x509 L bio s =
     (case read_x509 L bio s of
        (None, s) \<Rightarrow> Some (None, bio_free bio s)
      | (Some x509, s) \<Rightarrow> Option.bind (read_chain L bio [] s) (\<lambda>(chain, s). Some (Some (x509, chain), bio_free bio s)))"

definition import_key ::
  "('x, 'k) pem_lib \<Rightarrow> string option \<Rightarrow> nat \<Rightarrow> bio_state \<Rightarrow> 'k option \<times> bio_state" where
  "import_key L pass bio s =
     (PEM_read_bio_PrivateKey L pass (bio_data s bio), bio_free bio (bio_set bio [] s))"

definition Certificate_FromString ::
  "('x, 'k) pem_lib \<Rightarrow> string \<Rightarrow> string \<Rightarrow> bio_state \<Rightarrow> (('x, 'k) Certificate res \<times> bio_state) option" where
  "Certificate_FromString L crt_pem key_pem s =
     (case bio_new s of (bio, s) \<Rightarrow>
        Option.bind (import_x509 L bio (bio_write bio (bytes_of_string crt_pem) s)) (\<lambda>(crt, s).
          case crt of
            None \<Rightarrow> Some (Inl (invalid_argument ''Unable to import PEM certificate''), s)
          | Some (x509, chain) \<Rightarrow>
              (case bio_new s of (bio, s) \<Rightarrow>
                 case import_key L None bio (bio_write bio (bytes_of_string key_pem) s) of (pkey, s) \<Rightarrow>
                   Some (case pkey of
                           None \<Rightarrow> Inl (invalid_argument ''Unable to import PEM key'')
                         | Some k \<Rightarrow> Certificate_new L x509 k chain, s))))"

text \<open>
  \<open>BIO_new_from_file\<close>: the file is read in blocks of 4096 bytes; the last one, which ends the loop, is
  shorter and may be empty.
\<close>

function write_blocks :: "nat \<Rightarrow> binary \<Rightarrow> bio_state \<Rightarrow> bio_state" where
  "write_blocks bio d s =
     (if length d < 4096 then bio_write bio d s
      else write_blocks bio (drop 4096 d) (bio_write bio (take 4096 d) s))"
  by pat_completeness auto

termination by (relation "measure (\<lambda>(bio, d, s). length d)") auto

declare write_blocks.simps [simp del]

definition BIO_new_from_file :: "binary option \<Rightarrow> bio_state \<Rightarrow> nat option \<times> bio_state" where
  "BIO_new_from_file file s =
     (case file of
        None \<Rightarrow> (None, s)
      | Some d \<Rightarrow> (case bio_new s of (bio, s) \<Rightarrow> (Some bio, write_blocks bio d s)))"

definition Certificate_FromFile ::
  "('x, 'k) pem_lib \<Rightarrow> binary option \<Rightarrow> binary option \<Rightarrow> string \<Rightarrow> bio_state
   \<Rightarrow> (('x, 'k) Certificate res \<times> bio_state) option" where
  "Certificate_FromFile L crt_pem_file key_pem_file pass s =
     (case BIO_new_from_file crt_pem_file s of
        (None, s) \<Rightarrow> Some (Inl (invalid_argument ''Unable to open PEM certificate file''), s)
      | (Some bio, s) \<Rightarrow>
          Option.bind (import_x509 L bio s) (\<lambda>(crt, s).
            case crt of
              None \<Rightarrow> Some (Inl (invalid_argument ''Unable to import PEM certificate from file''), s)
            | Some (x509, chain) \<Rightarrow>
                (case BIO_new_from_file key_pem_file s of
                   (None, s) \<Rightarrow> Some (Inl (invalid_argument ''Unable to open PEM key file''), s)
                 | (Some bio, s) \<Rightarrow>
                     (case import_key L (Some pass) bio s of (pkey, s) \<Rightarrow>
                        Some (case pkey of
                                None \<Rightarrow> Inl (invalid_argument ''Unable to import PEM key from file'')
                              | Some k \<Rightarrow> Certificate_new L x509 k chain, s)))))"

text \<open>
  The password callback: \<open>snprintf\<close> writes at most \<open>size\<close> characters, the last of them zero, and returns how
  long the text is.
\<close>

definition dummy_pass_cb :: "nat \<Rightarrow> string \<Rightarrow> string \<times> nat" where
  "dummy_pass_cb sz pass =
     (let text = takeWhile (\<lambda>c. c \<noteq> CHR 0x00) pass
      in (if sz = 0 then [] else take (sz - 1) text @ [CHR 0x00], length text))"

text \<open>
  The constructor of \<open>WebSocket\<close> chooses between the two by the text of the certificate option; files are
  looked up by their name.
\<close>

definition PemBeginTag :: string where
  "PemBeginTag = ''-----BEGIN CERTIFICATE-----''"

definition load_certificate ::
  "('x, 'k) pem_lib \<Rightarrow> (string \<Rightarrow> binary option) \<Rightarrow> string \<Rightarrow> string \<Rightarrow> string option \<Rightarrow> bio_state
   \<Rightarrow> (('x, 'k) Certificate res \<times> bio_state) option" where
  "load_certificate L files certificatePemFile keyPemFile keyPemPass s =
     (if sublist PemBeginTag certificatePemFile
      then Certificate_FromString L certificatePemFile keyPemFile s
      else Certificate_FromFile L (files certificatePemFile) (files keyPemFile)
             (case keyPemPass of Some p \<Rightarrow> p | None \<Rightarrow> '''') s)"

section \<open>What importing promises\<close>

text \<open>
  The use of BIOs is checked as memory is: creating gives a new one, a use or a freeing of one that is not
  alive is an error (\<open>None\<close>); the value is the list of those alive at the end.
\<close>

fun bio_check :: "nat list \<Rightarrow> bio_event list \<Rightarrow> nat list option" where
  "bio_check live [] = Some live"
| "bio_check live (BioNew i # es) = (if i \<in> set live then None else bio_check (i # live) es)"
| "bio_check live (BioUse i # es) = (if i \<in> set live then bio_check live es else None)"
| "bio_check live (BioFree i # es) = (if i \<in> set live then bio_check (remove1 i live) es else None)"

definition bios_alive :: "bio_state \<Rightarrow> nat list \<Rightarrow> bool" where
  "bios_alive s live \<longleftrightarrow> bio_check [] (bio_log s) = Some live \<and> (\<forall>i\<in>set live. i < bio_made s)"

lemma bio_check_append:
  "bio_check live (es @ fs) = Option.bind (bio_check live es) (\<lambda>live'. bio_check live' fs)"
  by (induction live es rule: bio_check.induct) auto

lemma bio_new_alive: "bios_alive s live \<Longrightarrow> bio_new s = (i, s') \<Longrightarrow> bios_alive s' (i # live) \<and> bio_data s' i = []"
  by (auto simp: bios_alive_def bio_new_def bio_check_append)

lemma bio_set_alive: "bios_alive s live \<Longrightarrow> i \<in> set live \<Longrightarrow> bios_alive (bio_set i b s) live"
  by (auto simp: bios_alive_def bio_set_def bio_check_append)

lemma bio_set_data [simp]: "bio_data (bio_set i b s) i = b"
  by (simp add: bio_set_def)

lemma bio_write_alive: "bios_alive s live \<Longrightarrow> i \<in> set live \<Longrightarrow> bios_alive (bio_write i b s) live"
  by (simp add: bio_write_def Let_def bio_set_alive)

lemma bio_write_data: "length b < 2 ^ 31 \<Longrightarrow> bio_data (bio_write i b s) i = bio_data s i @ b"
  by (simp add: bio_write_def Let_def)

lemma bio_free_alive: "bios_alive s (i # live) \<Longrightarrow> bios_alive (bio_free i s) live"
  by (auto simp: bios_alive_def bio_free_def bio_check_append)

text \<open>A file of any size ends up whole in its BIO, block by block.\<close>

lemma write_blocks_alive: "bios_alive s live \<Longrightarrow> i \<in> set live \<Longrightarrow> bios_alive (write_blocks i d s) live"
proof (induction i d s rule: write_blocks.induct)
  case (1 i d s)
  then show ?case by (subst write_blocks.simps) (simp add: bio_write_alive)
qed

lemma write_blocks_data: "bio_data (write_blocks i d s) i = bio_data s i @ d"
proof (induction i d s rule: write_blocks.induct)
  case (1 i d s)
  show ?case
  proof (cases "length d < 4096")
    case True
    then show ?thesis by (subst write_blocks.simps) (simp add: bio_write_data)
  next
    case False
    then have "bio_data (write_blocks i (drop 4096 d) (bio_write i (take 4096 d) s)) i =
        bio_data (bio_write i (take 4096 d) s) i @ drop 4096 d" by (rule "1.IH")
    moreover have "bio_data (bio_write i (take 4096 d) s) i = bio_data s i @ take 4096 d" by (simp add: bio_write_data)
    ultimately show ?thesis using False by (subst write_blocks.simps) simp
  qed
qed

text \<open>The certificates of a text: what the parser finds, one after the other, until it finds none.\<close>

inductive certificates_of :: "('x, 'k) pem_lib \<Rightarrow> binary \<Rightarrow> 'x list \<Rightarrow> bool" for L where
  no_more: "PEM_read_bio_X509 L d = (None, rest) \<Longrightarrow> certificates_of L d []"
| one_more: "PEM_read_bio_X509 L d = (Some x, rest) \<Longrightarrow> certificates_of L rest xs \<Longrightarrow> certificates_of L d (x # xs)"

inductive_cases certificates_of_NilE: "certificates_of L d []"
inductive_cases certificates_of_ConsE: "certificates_of L d (x # xs)"

text \<open>The parser takes the certificates it returns from the text.\<close>

definition consuming :: "('x, 'k) pem_lib \<Rightarrow> bool" where
  "consuming L \<longleftrightarrow> (\<forall>d x rest. PEM_read_bio_X509 L d = (Some x, rest) \<longrightarrow> length rest < length d)"

lemma certificates_exist: "consuming L \<Longrightarrow> \<exists>xs. certificates_of L d xs"
proof (induction d rule: length_induct)
  case (1 d)
  obtain r rest where p: "PEM_read_bio_X509 L d = (r, rest)" by (cases "PEM_read_bio_X509 L d")
  show ?case
  proof (cases r)
    case None
    with p show ?thesis by (blast intro: no_more)
  next
    case (Some x)
    with p "1.prems" have "length rest < length d" by (simp add: consuming_def)
    with 1 obtain xs where "certificates_of L rest xs" by blast
    with p Some show ?thesis by (blast intro: one_more)
  qed
qed

lemma read_chain_all:
  "certificates_of L d xs \<Longrightarrow> d = bio_data s i \<Longrightarrow> bios_alive s live \<Longrightarrow> i \<in> set live \<Longrightarrow>
   \<exists>s'. read_chain L i chain s = Some (chain @ xs, s') \<and> bios_alive s' live"
proof (induction d xs arbitrary: s chain rule: certificates_of.induct)
  case (no_more d rest)
  then show ?case by (subst read_chain.simps) (simp add: read_x509_def bio_set_alive)
next
  case (one_more d x rest xs)
  have "bio_data (bio_set i rest s) i = rest" by simp
  with one_more.IH [of "bio_set i rest s" "chain @ [x]"] one_more.prems
  have "\<exists>s'. read_chain L i (chain @ [x]) (bio_set i rest s) = Some (chain @ x # xs, s') \<and> bios_alive s' live"
    by (simp add: bio_set_alive)
  with one_more.hyps(1) one_more.prems(1) show ?case by (subst read_chain.simps) (simp add: read_x509_def)
qed

lemma import_x509_all:
  assumes "certificates_of L (bio_data s i) xs" "bios_alive s (i # live)"
  shows "\<exists>s'. bios_alive s' live \<and>
    import_x509 L i s = Some (case xs of [] \<Rightarrow> None | x # chain \<Rightarrow> Some (x, chain), s')"
proof (cases xs)
  case Nil
  with assms(1) obtain rest where "PEM_read_bio_X509 L (bio_data s i) = (None, rest)" by (auto elim: certificates_of_NilE)
  with Nil assms(2) show ?thesis by (simp add: import_x509_def read_x509_def bio_set_alive bio_free_alive)
next
  case (Cons x chain)
  with assms(1) obtain rest where r: "PEM_read_bio_X509 L (bio_data s i) = (Some x, rest)" "certificates_of L rest chain"
    by (auto elim: certificates_of_ConsE)
  have "bios_alive (bio_set i rest s) (i # live)" using assms(2) by (rule bio_set_alive) simp
  with read_chain_all [OF r(2), of "bio_set i rest s" i "i # live" "[]"] obtain s' where
    "read_chain L i [] (bio_set i rest s) = Some (chain, s')" "bios_alive s' (i # live)" by auto
  with Cons r(1) show ?thesis by (simp add: import_x509_def read_x509_def bio_free_alive)
qed

lemma import_key_alive:
  assumes "import_key L pass i s = (k, s')" "bios_alive s (i # live)"
  shows "k = PEM_read_bio_PrivateKey L pass (bio_data s i)" "bios_alive s' live"
  using assms by (auto simp: import_key_def bio_set_alive bio_free_alive)

text \<open>What a certificate made of the certificates \<open>xs\<close> and a key is, with the exceptions when there is none.\<close>

definition imported ::
  "('x, 'k) pem_lib \<Rightarrow> 'x list \<Rightarrow> 'k option \<Rightarrow> exn \<Rightarrow> exn \<Rightarrow> ('x, 'k) Certificate res" where
  "imported L xs key no_crt no_key =
     (case xs of
        [] \<Rightarrow> Inl no_crt
      | x # chain \<Rightarrow> (case key of None \<Rightarrow> Inl no_key | Some k \<Rightarrow> Certificate_new L x k chain))"

lemma FromString_imports:
  assumes "certificates_of L (bytes_of_string crt) xs" "bios_alive s live"
    and "length crt < 2 ^ 31" "length key < 2 ^ 31"
  shows "\<exists>s'. bios_alive s' live \<and>
    Certificate_FromString L crt key s =
       Some (imported L xs (PEM_read_bio_PrivateKey L None (bytes_of_string key))
               (invalid_argument ''Unable to import PEM certificate'') (invalid_argument ''Unable to import PEM key''), s')"
proof -
  obtain i s1 where n1: "bio_new s = (i, s1)" by (cases "bio_new s")
  define t1 where "t1 = bio_write i (bytes_of_string crt) s1"
  from bio_new_alive [OF assms(2) n1] have a1: "bios_alive t1 (i # live)" and "bio_data t1 i = bytes_of_string crt"
    using assms(3) by (simp_all add: t1_def bio_write_alive bio_write_data)
  with assms(1) have "certificates_of L (bio_data t1 i) xs" by simp
  from import_x509_all [OF this a1] obtain s2 where a2: "bios_alive s2 live"
    and i2: "import_x509 L i t1 = Some (case xs of [] \<Rightarrow> None | x # chain \<Rightarrow> Some (x, chain), s2)"
    by blast
  obtain j s3 where n3: "bio_new s2 = (j, s3)" by (cases "bio_new s2")
  define t3 where "t3 = bio_write j (bytes_of_string key) s3"
  from bio_new_alive [OF a2 n3] have a3: "bios_alive t3 (j # live)" and d3: "bio_data t3 j = bytes_of_string key"
    using assms(4) by (simp_all add: t3_def bio_write_alive bio_write_data)
  obtain k s4 where k: "import_key L None j t3 = (k, s4)" by (cases "import_key L None j t3")
  note kk = import_key_alive [OF k a3]
  show ?thesis
  proof (cases xs)
    case Nil
    with n1 i2 a2 show ?thesis by (simp add: Certificate_FromString_def imported_def t1_def)
  next
    case (Cons x chain)
    with n1 i2 n3 k kk d3 show ?thesis by (simp add: Certificate_FromString_def imported_def t1_def t3_def)
  qed
qed

lemma BIO_new_from_file_alive:
  assumes "bios_alive s live"
  obtains i s' where "BIO_new_from_file (Some d) s = (Some i, s')" "bios_alive s' (i # live)" "bio_data s' i = d"
proof -
  obtain i s1 where n: "bio_new s = (i, s1)" by (cases "bio_new s")
  from bio_new_alive [OF assms n] n that show thesis
    by (simp add: BIO_new_from_file_def write_blocks_alive write_blocks_data)
qed

lemma FromFile_imports:
  assumes "certificates_of L crt xs" "bios_alive s live"
  shows "\<exists>s'. bios_alive s' live \<and>
    Certificate_FromFile L (Some crt) key pass s =
       Some (imported L xs (Option.bind key (PEM_read_bio_PrivateKey L (Some pass)))
               (invalid_argument ''Unable to import PEM certificate from file'')
               (invalid_argument (if key = None then ''Unable to open PEM key file'' else ''Unable to import PEM key from file'')),
             s')"
proof -
  obtain i s1 where n1: "BIO_new_from_file (Some crt) s = (Some i, s1)" "bios_alive s1 (i # live)" "bio_data s1 i = crt"
    using BIO_new_from_file_alive [OF assms(2)] by blast
  from assms(1) n1(3) have "certificates_of L (bio_data s1 i) xs" by simp
  from import_x509_all [OF this n1(2)] obtain s2 where a2: "bios_alive s2 live"
    and i2: "import_x509 L i s1 = Some (case xs of [] \<Rightarrow> None | x # chain \<Rightarrow> Some (x, chain), s2)"
    by blast
  show ?thesis
  proof (cases xs)
    case Nil
    with n1 i2 a2 show ?thesis by (simp add: Certificate_FromFile_def imported_def)
  next
    case (Cons x chain)
    show ?thesis
    proof (cases key)
      case None
      with Cons n1 i2 a2 show ?thesis by (simp add: Certificate_FromFile_def BIO_new_from_file_def imported_def)
    next
      case (Some d)
      obtain j s3 where n3: "BIO_new_from_file (Some d) s2 = (Some j, s3)" "bios_alive s3 (j # live)" "bio_data s3 j = d"
        using BIO_new_from_file_alive [OF a2] by blast
      obtain k s4 where k: "import_key L (Some pass) j s3 = (k, s4)" by (cases "import_key L (Some pass) j s3")
      from Some Cons n1 i2 n3 k import_key_alive [OF k n3(2)] show ?thesis
        by (simp add: Certificate_FromFile_def imported_def)
    qed
  qed
qed

text \<open>A certificate that was imported is the first one of the text, with the others as its chain and a valid fingerprint.\<close>

lemma imported_ok:
  assumes "imported L xs key e e' = Inr c" and "\<And>d. X509_digest L Sha256 (mX509 c) = Some d \<Longrightarrow> length d = 32"
  shows "xs = mX509 c # mChain c" "key = Some (mPKey c)" "fingerprint_isValid (Certificate_fingerprint c)"
proof -
  from assms(1) obtain x chain k where x: "xs = x # chain" "key = Some k" "Certificate_new L x k chain = Inr c"
    by (auto simp: imported_def split: list.splits option.splits)
  from x(3) obtain d where d: "X509_digest L Sha256 x = Some d"
    "c = \<lparr>mX509 = x, mPKey = k, mChain = chain, mFingerprint = fingerprint_string True d\<rparr>"
    by (auto simp: Certificate_new_def make_fingerprint_def split: option.splits sum.splits)
  with x show "xs = mX509 c # mChain c" "key = Some (mPKey c)" by simp_all
  from d assms(2) have "length d = AlgorithmSize Sha256" by simp
  from fingerprint_string_valid [OF this, of True] show "fingerprint_isValid (Certificate_fingerprint c)"
    by (simp add: Certificate_fingerprint_def d(2))
qed

lemma imported_fails:
  "imported L xs key e e' = Inl f \<Longrightarrow> xs = [] \<or> key = None \<or> X509_digest L Sha256 (hd xs) = None"
  by (auto simp: imported_def Certificate_new_def make_fingerprint_def split: list.splits option.splits sum.splits)

lemma imported_cases:
  assumes "\<forall>x d. X509_digest L Sha256 x = Some d \<longrightarrow> length d = 32" "r = imported L xs k e e'"
  shows "case r of
      Inr c \<Rightarrow> xs = mX509 c # mChain c \<and> k = Some (mPKey c) \<and> fingerprint_isValid (Certificate_fingerprint c)
    | Inl _ \<Rightarrow> xs = [] \<or> k = None \<or> X509_digest L Sha256 (hd xs) = None"
proof (cases r)
  case (Inl f)
  with assms(2) have "imported L xs k e e' = Inl f" by simp
  from imported_fails [OF this] Inl show ?thesis by simp
next
  case (Inr c)
  with assms(2) have "imported L xs k e e' = Inr c" by simp
  from imported_ok [OF this] assms(1) Inr show ?thesis by simp
qed

text \<open>
  Loading as the constructor of \<open>WebSocket\<close> does it: the options are PEM texts or the names of files, and the
  password is used for files only.
\<close>

definition pem_source :: "(string \<Rightarrow> binary option) \<Rightarrow> bool \<Rightarrow> string \<Rightarrow> binary option" where
  "pem_source files inline option = (if inline then Some (bytes_of_string option) else files option)"

definition pem_password :: "bool \<Rightarrow> string option \<Rightarrow> string option" where
  "pem_password inline keyPemPass = (if inline then None else Some (case keyPemPass of Some p \<Rightarrow> p | None \<Rightarrow> ''''))"

lemma load_certificate_imports:
  assumes "consuming L" "bios_alive s live" "length crt < 2 ^ 31" "length key < 2 ^ 31"
  shows "\<exists>r s'. load_certificate L files crt key pass s = Some (r, s') \<and> bios_alive s' live \<and>
    (case pem_source files (sublist PemBeginTag crt) crt of
       None \<Rightarrow> r = Inl (invalid_argument ''Unable to open PEM certificate file'')
     | Some d \<Rightarrow> \<exists>xs e e'. certificates_of L d xs \<and>
         r = imported L xs
           (Option.bind (pem_source files (sublist PemBeginTag crt) key)
              (PEM_read_bio_PrivateKey L (pem_password (sublist PemBeginTag crt) pass)))
           (invalid_argument e) (invalid_argument e'))"
proof (cases "sublist PemBeginTag crt")
  case True
  obtain xs where x: "certificates_of L (bytes_of_string crt) xs" using certificates_exist [OF assms(1)] by blast
  from FromString_imports [OF x assms(2-4)] x True show ?thesis
    by (fastforce simp: load_certificate_def pem_source_def pem_password_def)
next
  case False
  show ?thesis
  proof (cases "files crt")
    case None
    with False assms(2) show ?thesis
      by (simp add: load_certificate_def pem_source_def Certificate_FromFile_def BIO_new_from_file_def)
  next
    case (Some d)
    obtain xs where x: "certificates_of L d xs" using certificates_exist [OF assms(1)] by blast
    from FromFile_imports [OF x assms(2), of "files key" "case pass of Some p \<Rightarrow> p | None \<Rightarrow> ''''"] x False Some show ?thesis
      by (fastforce simp: load_certificate_def pem_source_def pem_password_def)
  qed
qed

text \<open>A password that does not fit is cut, and the length returned is that of the whole.\<close>

lemma dummy_pass_cb_overlong:
  assumes "sz \<le> length pass" "0 < sz" "CHR 0x00 \<notin> set pass"
  shows "length (fst (dummy_pass_cb sz pass)) = sz" "snd (dummy_pass_cb sz pass) = length pass"
proof -
  have "takeWhile (\<lambda>c. c \<noteq> CHR 0x00) pass = pass" using assms(3) by (auto intro: takeWhile_eq_all_conv [THEN iffD2])
  then have "dummy_pass_cb sz pass = (take (sz - 1) pass @ [CHR 0x00], length pass)"
    using assms(2) unfolding dummy_pass_cb_def by presburger
  with assms(1,2) show "length (fst (dummy_pass_cb sz pass)) = sz" "snd (dummy_pass_cb sz pass) = length pass" by simp_all
qed

end
