(* ===== verification/Wsc_CertGenerate.thy ===== *)
theory Wsc_CertGenerate
  imports Wsc_Certificate
begin

text \<open>
  Generating self-signed certificates in the three builds, and importing them with GnuTLS and Mbed TLS
  (\<open>src/impl/certificate.cpp\<close>), as sequences of calls of the libraries. What the objects made hold is the
  libraries' business; the arguments of the calls say what the code asks for. Objects held by smart
  pointers are freed by them and are not in the sequences.
\<close>

datatype CertificateType = Default | Ecdsa | Rsa

section \<open>OpenSSL\<close>

datatype ossl_gen =
    X509_new
  | BN_new
  | X509_NAME_new
  | EVP_EC_gen string
  | EVP_RSA_gen nat
  | EVP_PKEY_new
  | EC_KEY_new_by_curve_name string
  | EC_KEY_set_asn1_flag
  | EC_KEY_generate_key
  | EVP_PKEY_assign_EC_KEY
  | RSA_new
  | BN_new_exponent
  | BN_set_word nat
  | RSA_generate_key_ex nat
  | EVP_PKEY_assign_RSA
  | X509_set_pubkey
  | X509_gmtime_adj_notBefore int
  | X509_gmtime_adj_notAfter int
  | X509_set_version nat
  | BN_rand nat
  | BN_to_ASN1_INTEGER
  | X509_NAME_add_entry_by_NID string
  | X509_set_subject_name
  | X509_set_issuer_name
  | X509_sign string
  | X509_digest_of Algorithm

text \<open>Calls made one after the other and tested together.\<close>

definition all_calls :: "'c call_env \<Rightarrow> 'c list \<Rightarrow> exn \<Rightarrow> 'c list \<times> unit res" where
  "all_calls E cs e = (cs, if list_all (call_ok E) cs then Inr () else Inl e)"

text \<open>The key pair, with version 3 of the library or an older one.\<close>

fun ossl_key :: "ossl_gen call_env \<Rightarrow> bool \<Rightarrow> CertificateType \<Rightarrow> ossl_gen list \<times> unit res" where
  "ossl_key E v3 Rsa =
     (let e = runtime_error ''Unable to generate RSA key pair''
      in if v3 then run_calls E [(EVP_RSA_gen 2048, Fatal e)]
         else then_calls
           (all_calls E [EVP_PKEY_new, RSA_new, BN_new_exponent]
              (runtime_error ''Unable to allocate structures for RSA key pair''))
           (run_calls E [(BN_set_word 65537, Fatal e), (RSA_generate_key_ex 2048, Fatal e), (EVP_PKEY_assign_RSA, Fatal e)]))"
| "ossl_key E v3 _ =
     (let e = runtime_error ''Unable to generate ECDSA P-256 key pair''
      in if v3 then run_calls E [(EVP_EC_gen ''prime256v1'', Fatal e)]
         else then_calls
           (all_calls E [EVP_PKEY_new, EC_KEY_new_by_curve_name ''prime256v1'']
              (runtime_error ''Unable to allocate structure for ECDSA P-256 key pair''))
           (run_calls E [(EC_KEY_set_asn1_flag, Ignored), (EC_KEY_generate_key, Fatal e), (EVP_PKEY_assign_EC_KEY, Fatal e)]))"

definition ossl_properties :: "string \<Rightarrow> (ossl_gen \<times> on_failure) list" where
  "ossl_properties commonName =
     (X509_set_pubkey, Fatal (runtime_error ''Unable to set certificate public key''))
     # map (\<lambda>c. (c, Fatal (runtime_error ''Unable to set certificate properties'')))
         [X509_gmtime_adj_notBefore (-3600), X509_gmtime_adj_notAfter (3600 * 24 * 365), X509_set_version 1,
          BN_rand 16, BN_to_ASN1_INTEGER, X509_NAME_add_entry_by_NID commonName, X509_set_subject_name, X509_set_issuer_name]
     @ [(X509_sign ''sha256'', Fatal (runtime_error ''Unable to auto-sign certificate'')),
        (X509_digest_of Sha256, Fatal (runtime_error ''X509 fingerprint error''))]"

definition ossl_generate ::
  "ossl_gen call_env \<Rightarrow> bool \<Rightarrow> CertificateType \<Rightarrow> string \<Rightarrow> ossl_gen list \<times> unit res" where
  "ossl_generate E v3 type commonName =
     then_calls
       (all_calls E [X509_new, BN_new, X509_NAME_new]
          (runtime_error ''Unable to allocate structures for certificate generation''))
       (then_calls (ossl_key E v3 type) (run_calls E (ossl_properties commonName)))"

section \<open>GnuTLS\<close>

datatype gnutls_pk = GNUTLS_PK_ECDSA string | GNUTLS_PK_RSA nat

datatype gnutls_gen =
    gnutls_x509_crt_init
  | gnutls_x509_privkey_init
  | gnutls_x509_privkey_generate gnutls_pk
  | gnutls_x509_crt_set_activation_time int
  | gnutls_x509_crt_set_expiration_time int
  | gnutls_x509_crt_set_version nat
  | gnutls_x509_crt_set_key
  | gnutls_x509_crt_set_dn_by_oid string
  | gnutls_rnd nat
  | gnutls_x509_crt_set_serial nat
  | gnutls_x509_crt_sign2 string
  | gnutls_allocate_credentials
  | gnutls_x509_crt_get_fingerprint Algorithm
  | gnutls_certificate_set_x509_key
  | gnutls_certificate_set_x509_key_mem string string
  | gnutls_certificate_set_x509_key_file2 string string string
  | gnutls_certificate_get_x509_crt

text \<open>\<open>now\<close> is the time in seconds.\<close>

definition gnutls_generate ::
  "gnutls_gen call_env \<Rightarrow> CertificateType \<Rightarrow> string \<Rightarrow> int \<Rightarrow> gnutls_gen list \<times> unit res" where
  "gnutls_generate E type commonName now =
     run_calls E
       ([(gnutls_x509_crt_init, Checked ''GnuTLS error''), (gnutls_x509_privkey_init, Checked ''GnuTLS error''),
         (case type of
            Rsa \<Rightarrow> (gnutls_x509_privkey_generate (GNUTLS_PK_RSA 2048), Checked ''Unable to generate RSA key pair'')
          | _ \<Rightarrow> (gnutls_x509_privkey_generate (GNUTLS_PK_ECDSA ''secp256r1''), Checked ''Unable to generate ECDSA P-256 key pair''))]
        @ map (\<lambda>c. (c, Ignored))
            [gnutls_x509_crt_set_activation_time (now - 3600), gnutls_x509_crt_set_expiration_time (now + 3600 * 24 * 365),
             gnutls_x509_crt_set_version 1, gnutls_x509_crt_set_key, gnutls_x509_crt_set_dn_by_oid commonName,
             gnutls_rnd 16, gnutls_x509_crt_set_serial 16]
        @ [(gnutls_x509_crt_sign2 ''sha256'', Checked ''Unable to auto-sign certificate''),
           (gnutls_allocate_credentials, Checked ''GnuTLS error''),
           (gnutls_x509_crt_get_fingerprint Sha256, Checked ''X509 fingerprint error''),
           (gnutls_certificate_set_x509_key, Checked ''Unable to set certificate and key pair in credentials'')])"

text \<open>
  Importing makes credentials and then takes the fingerprint of the certificate in them; the code asserts
  that there is one certificate and no chain. \<open>chain_len\<close> is the length of what the library returns, and
  \<open>None\<close> is the failed assertion.
\<close>

definition gnutls_import_certificate ::
  "gnutls_gen call_env \<Rightarrow> (gnutls_gen \<times> on_failure) \<Rightarrow> nat \<Rightarrow> (gnutls_gen list \<times> unit res) option" where
  "gnutls_import_certificate E import chain_len =
     (case run_calls E [(gnutls_allocate_credentials, Checked ''GnuTLS error''), import,
                        (gnutls_certificate_get_x509_crt, Checked ''GnuTLS error'')] of
        (cs, Inl e) \<Rightarrow> Some (cs, Inl e)
      | (cs, Inr _) \<Rightarrow>
          if chain_len \<noteq> 1 then None
          else Some (then_calls (cs, Inr ())
                 (run_calls E [(gnutls_x509_crt_get_fingerprint Sha256, Checked ''X509 fingerprint error'')])))"

definition gnutls_FromString ::
  "gnutls_gen call_env \<Rightarrow> string \<Rightarrow> string \<Rightarrow> nat \<Rightarrow> (gnutls_gen list \<times> unit res) option" where
  "gnutls_FromString E crt_pem key_pem =
     gnutls_import_certificate E
       (gnutls_certificate_set_x509_key_mem crt_pem key_pem, Checked ''Unable to import PEM certificate and key'')"

definition gnutls_FromFile ::
  "gnutls_gen call_env \<Rightarrow> string \<Rightarrow> string \<Rightarrow> string \<Rightarrow> nat \<Rightarrow> (gnutls_gen list \<times> unit res) option" where
  "gnutls_FromFile E crt_pem_file key_pem_file pass =
     gnutls_import_certificate E
       (gnutls_certificate_set_x509_key_file2 crt_pem_file key_pem_file pass,
        Checked ''Unable to import PEM certificate and key from file'')"

section \<open>Mbed TLS\<close>

datatype mbed_gen =
    mbed_entropy_init
  | mbed_ctr_drbg_init
  | mbed_set_prediction_resistance
  | mbedtls_x509write_crt_init
  | mbedtls_mpi_init
  | mbed_ctr_drbg_seed string
  | mbedtls_pk_setup string
  | mbedtls_ecp_gen_key string
  | mbedtls_rsa_gen_key nat nat
  | format_time int
  | mbedtls_ctr_drbg_random nat
  | mbedtls_mpi_read_binary nat
  | mbedtls_x509write_crt_set_serial
  | mbedtls_x509write_crt_set_subject_name string
  | mbedtls_x509write_crt_set_issuer_name string
  | mbedtls_x509write_crt_set_validity int int
  | mbedtls_x509write_crt_set_version nat
  | mbedtls_x509write_crt_set_subject_key
  | mbedtls_x509write_crt_set_issuer_key
  | mbedtls_x509write_crt_set_md_alg string
  | mbedtls_x509write_crt_der nat
  | mbedtls_x509_crt_parse_der
  | mbed_entropy_free
  | mbed_ctr_drbg_free
  | mbedtls_x509write_crt_free
  | mbedtls_mpi_free
  | mbed_hash_call mbed_hash
  | mbed_x509_crt_parse string
  | mbedtls_pk_parse_key string
  | mbed_x509_crt_parse_file string
  | mbedtls_pk_parse_keyfile string string

definition mbed_gen_frees :: "mbed_gen list" where
  "mbed_gen_frees = [mbed_entropy_free, mbed_ctr_drbg_free, mbedtls_x509write_crt_free, mbedtls_mpi_free]"

definition mbed_name :: "string \<Rightarrow> string" where
  "mbed_name commonName = ''O='' @ commonName @ '',CN='' @ commonName"

definition mbed_fingerprint_call :: "mbed_gen \<times> on_failure" where
  "mbed_fingerprint_call =
     (mbed_hash_call (mbed_hash_of Sha256), Checked ''Failed to generate certificate fingerprint'')"

fun mbed_key :: "CertificateType \<Rightarrow> (mbed_gen \<times> on_failure) list" where
  "mbed_key Rsa =
     [(mbedtls_pk_setup ''RSA'', Checked ''MbedTLS error''),
      (mbedtls_rsa_gen_key 2048 65537, Checked ''Unable to generate RSA key pair'')]"
| "mbed_key _ =
     [(mbedtls_pk_setup ''ECKEY'', Checked ''MbedTLS error''),
      (mbedtls_ecp_gen_key ''secp256r1'', Checked ''Unable to generate ECDSA P-256 key pair'')]"

definition mbed_generate_try :: "CertificateType \<Rightarrow> string \<Rightarrow> int \<Rightarrow> (mbed_gen \<times> on_failure) list" where
  "mbed_generate_try type commonName now =
     [(mbed_ctr_drbg_seed commonName, Checked ''MbedTLS error'')] @ mbed_key type
     @ map (\<lambda>t. (format_time t, Fatal (runtime_error ''Time conversion failed''))) [now - 3600, now + 3600 * 24 * 365]
     @ map (\<lambda>c. (c, Checked ''Failed to generate certificate''))
         [mbedtls_ctr_drbg_random 16, mbedtls_mpi_read_binary 16, mbedtls_x509write_crt_set_serial,
          mbedtls_x509write_crt_set_subject_name (mbed_name commonName),
          mbedtls_x509write_crt_set_issuer_name (mbed_name commonName),
          mbedtls_x509write_crt_set_validity (now - 3600) (now + 3600 * 24 * 365)]
     @ map (\<lambda>c. (c, Ignored))
         [mbedtls_x509write_crt_set_version 3, mbedtls_x509write_crt_set_subject_key,
          mbedtls_x509write_crt_set_issuer_key, mbedtls_x509write_crt_set_md_alg ''sha256'']
     @ [(mbedtls_x509write_crt_der 4096, Fatal (runtime_error ''Certificate generation failed'')),
        (mbedtls_x509_crt_parse_der, Checked ''Failed to generate certificate'')]"

text \<open>The contexts are freed by the handler, and on the way out.\<close>

definition mbed_generate ::
  "mbed_gen call_env \<Rightarrow> CertificateType \<Rightarrow> string \<Rightarrow> int \<Rightarrow> mbed_gen list \<times> unit res" where
  "mbed_generate E type commonName now =
     then_calls
       (run_calls E (map (\<lambda>c. (c, Ignored))
          [mbed_entropy_init, mbed_ctr_drbg_init, mbed_set_prediction_resistance, mbedtls_x509write_crt_init,
           mbedtls_mpi_init]))
       (then_calls (run_guarded E (mbed_generate_try type commonName now) mbed_gen_frees)
          (run_calls E (map (\<lambda>c. (c, Ignored)) mbed_gen_frees @ [mbed_fingerprint_call])))"

definition mbed_FromString :: "mbed_gen call_env \<Rightarrow> string \<Rightarrow> string \<Rightarrow> mbed_gen list \<times> unit res" where
  "mbed_FromString E crt_pem key_pem =
     run_calls E
       [(mbed_x509_crt_parse crt_pem, Checked ''Failed to parse certificate''),
        (mbedtls_pk_parse_key key_pem, Checked ''Failed to parse key''), mbed_fingerprint_call]"

definition mbed_FromFile :: "mbed_gen call_env \<Rightarrow> string \<Rightarrow> string \<Rightarrow> string \<Rightarrow> mbed_gen list \<times> unit res" where
  "mbed_FromFile E crt_pem_file key_pem_file pass =
     run_calls E
       [(mbed_x509_crt_parse_file crt_pem_file, Checked ''Failed to parse certificate''),
        (mbedtls_pk_parse_keyfile key_pem_file pass, Checked ''Failed to parse key''), mbed_fingerprint_call]"

section \<open>What is asked for\<close>

text \<open>
  The certificate that is signed, as the calls before the signature ask for it: the key pair and the two
  ends of the validity, in seconds. OpenSSL is given the times relative to the present.
\<close>

datatype key_request = P256_key | RSA_key nat

type_synonym cert_request = "key_request option \<times> int option \<times> int option"

fun ossl_asks_key :: "ossl_gen \<Rightarrow> key_request option" where
  "ossl_asks_key (EVP_EC_gen c) = (if c = ''prime256v1'' then Some P256_key else None)"
| "ossl_asks_key (EC_KEY_new_by_curve_name c) = (if c = ''prime256v1'' then Some P256_key else None)"
| "ossl_asks_key (EVP_RSA_gen n) = Some (RSA_key n)"
| "ossl_asks_key (RSA_generate_key_ex n) = Some (RSA_key n)"
| "ossl_asks_key _ = None"

fun ossl_asks_from :: "int \<Rightarrow> ossl_gen \<Rightarrow> int option" where
  "ossl_asks_from now (X509_gmtime_adj_notBefore t) = Some (now + t)"
| "ossl_asks_from now _ = None"

fun ossl_asks_to :: "int \<Rightarrow> ossl_gen \<Rightarrow> int option" where
  "ossl_asks_to now (X509_gmtime_adj_notAfter t) = Some (now + t)"
| "ossl_asks_to now _ = None"

fun gnutls_asks_key :: "gnutls_gen \<Rightarrow> key_request option" where
  "gnutls_asks_key (gnutls_x509_privkey_generate (GNUTLS_PK_ECDSA c)) = (if c = ''secp256r1'' then Some P256_key else None)"
| "gnutls_asks_key (gnutls_x509_privkey_generate (GNUTLS_PK_RSA n)) = Some (RSA_key n)"
| "gnutls_asks_key _ = None"

fun gnutls_asks_from :: "gnutls_gen \<Rightarrow> int option" where
  "gnutls_asks_from (gnutls_x509_crt_set_activation_time t) = Some t"
| "gnutls_asks_from _ = None"

fun gnutls_asks_to :: "gnutls_gen \<Rightarrow> int option" where
  "gnutls_asks_to (gnutls_x509_crt_set_expiration_time t) = Some t"
| "gnutls_asks_to _ = None"

fun mbed_asks_key :: "mbed_gen \<Rightarrow> key_request option" where
  "mbed_asks_key (mbedtls_ecp_gen_key c) = (if c = ''secp256r1'' then Some P256_key else None)"
| "mbed_asks_key (mbedtls_rsa_gen_key n _) = Some (RSA_key n)"
| "mbed_asks_key _ = None"

fun mbed_asks_validity :: "mbed_gen \<Rightarrow> (int \<times> int) option" where
  "mbed_asks_validity (mbedtls_x509write_crt_set_validity t t') = Some (t, t')"
| "mbed_asks_validity _ = None"

definition ossl_request :: "int \<Rightarrow> ossl_gen list \<Rightarrow> cert_request" where
  "ossl_request now cs =
     (let cs = takeWhile (\<lambda>c. c \<noteq> X509_sign ''sha256'') cs
      in (last_some ossl_asks_key cs, last_some (ossl_asks_from now) cs, last_some (ossl_asks_to now) cs))"

definition gnutls_request :: "gnutls_gen list \<Rightarrow> cert_request" where
  "gnutls_request cs =
     (let cs = takeWhile (\<lambda>c. c \<noteq> gnutls_x509_crt_sign2 ''sha256'') cs
      in (last_some gnutls_asks_key cs, last_some gnutls_asks_from cs, last_some gnutls_asks_to cs))"

definition mbed_request :: "mbed_gen list \<Rightarrow> cert_request" where
  "mbed_request cs =
     (let cs = takeWhile (\<lambda>c. c \<noteq> mbedtls_x509write_crt_der 4096) cs; v = last_some mbed_asks_validity cs
      in (last_some mbed_asks_key cs, map_option fst v, map_option snd v))"

text \<open>The default is an elliptic curve key; every certificate is valid from an hour ago and for a year.\<close>

definition self_signed :: "CertificateType \<Rightarrow> int \<Rightarrow> cert_request" where
  "self_signed type now = (Some (if type = Rsa then RSA_key 2048 else P256_key), Some (now - 3600), Some (now + 31536000))"

lemma all_calls_ok: "all_calls E cs e = (ds, Inr u) \<Longrightarrow> ds = cs"
  by (simp add: all_calls_def split: if_splits)

lemma ossl_key_ok:
  assumes "ossl_key E v3 type = (cs, Inr u)"
  shows "cs =
    (if type = Rsa
     then if v3 then [EVP_RSA_gen 2048]
          else [EVP_PKEY_new, RSA_new, BN_new_exponent, BN_set_word 65537, RSA_generate_key_ex 2048, EVP_PKEY_assign_RSA]
     else if v3 then [EVP_EC_gen ''prime256v1'']
          else [EVP_PKEY_new, EC_KEY_new_by_curve_name ''prime256v1'', EC_KEY_set_asn1_flag, EC_KEY_generate_key,
            EVP_PKEY_assign_EC_KEY])"
  using assms
  by (cases type; cases v3)
    (auto simp: Let_def then_calls_ok simp del: run_calls.simps dest!: all_calls_ok run_calls_ok)

lemma ossl_key_asks:
  assumes "ossl_key E v3 type = (cs, Inr u)"
  shows "last_some ossl_asks_key cs = fst (self_signed type now)" "X509_sign h \<notin> set cs"
    "last_some (ossl_asks_from now) cs = None" "last_some (ossl_asks_to now) cs = None"
  using ossl_key_ok [OF assms] by (simp_all add: self_signed_def split: if_splits)

lemma ossl_generate_request:
  assumes "ossl_generate E v3 type commonName = (cs, Inr u)"
  shows "ossl_request now cs = self_signed type now"
proof -
  obtain ks v where k: "ossl_key E v3 type = (ks, Inr v)"
    and cs: "cs = [X509_new, BN_new, X509_NAME_new] @ ks @ map fst (ossl_properties commonName)"
    using assms unfolding ossl_generate_def then_calls_ok by (auto simp del: run_calls.simps dest!: all_calls_ok run_calls_ok)
  have "takeWhile (\<lambda>c. c \<noteq> X509_sign ''sha256'') cs =
      [X509_new, BN_new, X509_NAME_new] @ ks @ takeWhile (\<lambda>c. c \<noteq> X509_sign ''sha256'') (map fst (ossl_properties commonName))"
    using ossl_key_asks(2) [OF k] by (auto simp: cs takeWhile_append)
  with ossl_key_asks(1) [OF k] ossl_key_asks(3,4) [OF k, of now] show ?thesis
    by (simp add: ossl_request_def ossl_properties_def last_some_append self_signed_def)
qed

lemma gnutls_generate_request:
  assumes "gnutls_generate E type commonName now = (cs, Inr u)"
  shows "gnutls_request cs = self_signed type now"
  using run_calls_ok [OF assms [unfolded gnutls_generate_def]]
  by (cases type) (simp_all add: gnutls_request_def self_signed_def)

lemma mbed_generate_request:
  assumes "mbed_generate E type commonName now = (cs, Inr u)"
  shows "mbed_request cs = self_signed type now"
proof -
  obtain as bs ds v where "run_guarded E (mbed_generate_try type commonName now) mbed_gen_frees = (bs, Inr v)"
    and a: "run_calls E (map (\<lambda>c. (c, Ignored)) [mbed_entropy_init, mbed_ctr_drbg_init, mbed_set_prediction_resistance,
      mbedtls_x509write_crt_init, mbedtls_mpi_init]) = (as, Inr v)"
    and cs: "cs = as @ bs @ ds"
    using assms unfolding mbed_generate_def then_calls_ok by (auto simp del: run_calls.simps list.map)
  then have "bs = map fst (mbed_generate_try type commonName now)" by (blast dest: run_guarded_ok)
  with run_calls_ok [OF a] show ?thesis
    by (cases type) (simp_all add: cs mbed_request_def self_signed_def mbed_generate_try_def)
qed

text \<open>Mbed TLS is the only build that frees by hand: each context exactly once, however the generation ends.\<close>

lemma run_calls_ignored: "run_calls E (map (\<lambda>c. (c, Ignored)) cs @ ds) = (cs @ fst (run_calls E ds), snd (run_calls E ds))"
  by (induction cs) (auto simp: after_call_def split: prod.splits)

lemma mbed_generate_frees:
  assumes "mbed_generate E type commonName now = (cs, r)" "c \<in> set mbed_gen_frees"
  shows "count_list cs c = 1"
proof -
  define tc where "tc = mbed_generate_try type commonName now"
  obtain xs q where x: "run_calls E tc = (xs, q)" by (cases "run_calls E tc")
  have "c \<notin> set (map fst tc)"
    using assms(2) by (cases type; auto simp: tc_def mbed_generate_try_def mbed_gen_frees_def)
  with set_mono_prefix [OF run_calls_prefix [OF x]] have "c \<notin> set xs" by blast
  then have n: "count_list xs c = 0" by simp
  have f: "count_list mbed_gen_frees c = 1" "c \<noteq> fst mbed_fingerprint_call"
    using assms(2) by (auto simp: mbed_gen_frees_def mbed_fingerprint_call_def)
  define fs where "fs = fst (run_calls E [mbed_fingerprint_call])"
  have fs: "count_list fs c = 0"
    using f(2) by (auto simp: fs_def mbed_fingerprint_call_def split: sum.split)
  define ini where "ini = [mbed_entropy_init, mbed_ctr_drbg_init, mbed_set_prediction_resistance, mbedtls_x509write_crt_init,
      mbedtls_mpi_init]"
  have i: "count_list ini c = 0" using assms(2) by (auto simp: ini_def mbed_gen_frees_def)
  have "cs = ini @ xs @ mbed_gen_frees @ (case q of Inl _ \<Rightarrow> [] | Inr _ \<Rightarrow> fs)"
    using assms(1) run_calls_ignored [of E _ "[]"]
    by (cases q) (auto simp: mbed_generate_def run_guarded_def x tc_def [symmetric] ini_def run_calls_ignored then_calls_def
        fs_def after_call_def)
  with n f(1) fs i show ?thesis by (cases q) simp_all
qed

text \<open>With GnuTLS a certificate that comes with a chain cannot be imported.\<close>

lemma gnutls_chain_fails:
  assumes "\<And>c. call_ok E c" "chain_len \<noteq> 1"
  shows "gnutls_FromString E crt_pem key_pem chain_len = None"
    "gnutls_FromFile E crt_pem_file key_pem_file pass chain_len = None"
  using assms
  by (simp_all add: gnutls_FromString_def gnutls_FromFile_def gnutls_import_certificate_def after_call_def openssl_check_def)

end
