(* ===== verification/Wsc_ThreadPool.thy ===== *)
theory Wsc_ThreadPool
  imports Wsc_Queue "HOL-Library.Multiset"
begin

text \<open>
  The thread pool (\<open>src/impl/threadpool.cpp\<close>, \<open>threadpool.hpp\<close>) and the processor that runs tasks one
  after the other on it (\<open>src/impl/processor.cpp\<close>, \<open>processor.hpp\<close>).

  A task is a value \<open>'f\<close>; times are those of the steady clock. The tasks of the pool are the contents
  of its priority queue: which of several earliest tasks is on top is not determined, so taking a
  task is a relation, with an executable instance.
\<close>

section \<open>The pool\<close>

text \<open>
  Where the thread of a worker is: not yet in \<open>run\<close>, about to look at the queue, in a task, waiting on
  the condition variable in \<open>dequeue\<close> (until a time or not), or at its end.
\<close>

datatype 'f worker = Fresh | Looking | Running 'f | Waiting "nat option" | Ended

record 'f ThreadPool =
  tpTasks :: "(nat \<times> 'f) list"
  mWorkers :: "'f worker list"
  mBusyWorkers :: int
  mJoining :: bool

definition ThreadPool_new :: "'f ThreadPool" where
  "ThreadPool_new = \<lparr>tpTasks = [], mWorkers = [], mBusyWorkers = 0, mJoining = False\<rparr>"

definition ThreadPool_spawn :: "nat \<Rightarrow> 'f ThreadPool \<Rightarrow> 'f ThreadPool" where
  "ThreadPool_spawn n tp = tp\<lparr>mWorkers := mWorkers tp @ replicate n Fresh\<rparr>"

definition ThreadPool_schedule :: "nat \<Rightarrow> 'f \<Rightarrow> 'f ThreadPool \<Rightarrow> 'f ThreadPool" where
  "ThreadPool_schedule time f tp = tp\<lparr>tpTasks := tpTasks tp @ [(time, f)]\<rparr>"

definition ThreadPool_scheduleDelay :: "nat \<Rightarrow> nat \<Rightarrow> 'f \<Rightarrow> 'f ThreadPool \<Rightarrow> 'f ThreadPool" where
  "ThreadPool_scheduleDelay now delay f tp = ThreadPool_schedule (now + delay) f tp"

definition ThreadPool_enqueue :: "nat \<Rightarrow> 'f \<Rightarrow> 'f ThreadPool \<Rightarrow> 'f ThreadPool" where
  "ThreadPool_enqueue now f tp = ThreadPool_schedule now f tp"

definition ThreadPool_clear :: "'f ThreadPool \<Rightarrow> 'f ThreadPool" where
  "ThreadPool_clear tp = tp\<lparr>tpTasks := []\<rparr>"

text \<open>
  \<open>join\<close> waits until no worker is busy, then tells the workers to end, and returns when all have;
  \<open>None\<close> while it waits.
\<close>

definition ThreadPool_join_begin :: "'f ThreadPool \<Rightarrow> 'f ThreadPool option" where
  "ThreadPool_join_begin tp = (if mBusyWorkers tp = 0 then Some (tp\<lparr>mJoining := True\<rparr>) else None)"

definition ThreadPool_join_end :: "'f ThreadPool \<Rightarrow> 'f ThreadPool option" where
  "ThreadPool_join_end tp =
     (if list_all (\<lambda>w. w = Ended) (mWorkers tp) then Some (tp\<lparr>mWorkers := [], mJoining := False\<rparr>) else None)"

text \<open>
  One look at the queue in \<open>dequeue\<close>: what the worker does next. Of several earliest tasks any may be
  on top of the queue. A worker that waits is not counted as busy.
\<close>

datatype 'f dequeued = NullTask | Taken 'f | WaitUntil nat | Wait

inductive ThreadPool_dequeues :: "nat \<Rightarrow> 'f ThreadPool \<Rightarrow> 'f dequeued \<Rightarrow> 'f ThreadPool \<Rightarrow> bool" for now tp where
  joining: "mJoining tp \<Longrightarrow> ThreadPool_dequeues now tp NullTask tp"
| take: "\<not> mJoining tp \<Longrightarrow> (t, f) \<in> set (tpTasks tp) \<Longrightarrow> \<forall>(t', f') \<in> set (tpTasks tp). t \<le> t' \<Longrightarrow> t \<le> now
    \<Longrightarrow> ThreadPool_dequeues now tp (Taken f) (tp\<lparr>tpTasks := remove1 (t, f) (tpTasks tp)\<rparr>)"
| wait_until: "\<not> mJoining tp \<Longrightarrow> (t, f) \<in> set (tpTasks tp) \<Longrightarrow> \<forall>(t', f') \<in> set (tpTasks tp). t \<le> t' \<Longrightarrow> now < t
    \<Longrightarrow> ThreadPool_dequeues now tp (WaitUntil t) (tp\<lparr>mBusyWorkers := mBusyWorkers tp - 1\<rparr>)"
| wait: "\<not> mJoining tp \<Longrightarrow> tpTasks tp = []
    \<Longrightarrow> ThreadPool_dequeues now tp Wait (tp\<lparr>mBusyWorkers := mBusyWorkers tp - 1\<rparr>)"

inductive_cases ThreadPool_dequeuesE: "ThreadPool_dequeues now tp d tp'"

text \<open>An instance that takes the first of the earliest tasks.\<close>

fun earliest :: "(nat \<times> 'f) list \<Rightarrow> (nat \<times> 'f) option" where
  "earliest [] = None"
| "earliest ((t, f) # ts) = (case earliest ts of None \<Rightarrow> Some (t, f)
     | Some (t', f') \<Rightarrow> if t \<le> t' then Some (t, f) else Some (t', f'))"

definition ThreadPool_dequeue :: "nat \<Rightarrow> 'f ThreadPool \<Rightarrow> 'f dequeued \<times> 'f ThreadPool" where
  "ThreadPool_dequeue now tp =
     (if mJoining tp then (NullTask, tp)
      else case earliest (tpTasks tp) of
        None \<Rightarrow> (Wait, tp\<lparr>mBusyWorkers := mBusyWorkers tp - 1\<rparr>)
      | Some (t, f) \<Rightarrow>
          if t \<le> now then (Taken f, tp\<lparr>tpTasks := remove1 (t, f) (tpTasks tp)\<rparr>)
          else (WaitUntil t, tp\<lparr>mBusyWorkers := mBusyWorkers tp - 1\<rparr>))"

lemma earliest_None: "earliest ts = None \<longleftrightarrow> ts = []"
  by (cases ts rule: earliest.cases) (auto split: option.splits)

lemma earliest_Some:
  "earliest ts = Some (t, f) \<Longrightarrow> (t, f) \<in> set ts \<and> (\<forall>(t', f') \<in> set ts. t \<le> t')"
proof (induction ts arbitrary: t f rule: earliest.induct)
  case (2 a g ts)
  then show ?case
    using earliest_None [of ts] by (cases "earliest ts") (fastforce split: if_splits)+
qed simp

lemma dequeue_dequeues: "ThreadPool_dequeue now tp = (d, tp') \<Longrightarrow> ThreadPool_dequeues now tp d tp'"
  using earliest_Some [of "tpTasks tp"] earliest_None [of "tpTasks tp"]
    ThreadPool_dequeues.joining [of tp now] ThreadPool_dequeues.take [of tp _ _ now]
    ThreadPool_dequeues.wait_until [of tp _ _ now] ThreadPool_dequeues.wait [of tp now]
  by (cases "mJoining tp"; cases "earliest (tpTasks tp)") (auto simp: ThreadPool_dequeue_def split: if_splits)

text \<open>
  A task is never taken before its time nor while an earlier one is queued, and taking it leaves
  exactly the other tasks.
\<close>

lemma dequeues_taken:
  assumes "ThreadPool_dequeues now tp (Taken f) tp'"
  shows "\<exists>t \<le> now. (\<forall>(t', f') \<in> set (tpTasks tp). t \<le> t') \<and> mset (tpTasks tp) = add_mset (t, f) (mset (tpTasks tp'))"
  using assms by (auto elim!: ThreadPool_dequeuesE)

text \<open>A worker that is not told to end waits only if no task is due.\<close>

lemma dequeues_waits:
  assumes "ThreadPool_dequeues now tp d tp'" "d = Wait \<or> (\<exists>t. d = WaitUntil t)"
  shows "\<forall>(t, f) \<in> set (tpTasks tp). now < t"
  using assms by (fastforce elim!: ThreadPool_dequeuesE)

section \<open>The workers\<close>

text \<open>
  \<open>run\<close> and \<open>runOne\<close> as steps of one worker, interleaved with the other workers and with the calls
  made on the pool. A worker counts itself as busy from the start of \<open>run\<close> to its end, except while
  it waits. \<open>given\<close> and \<open>ended\<close> are the tasks given to the pool and those that have ended.
\<close>

definition ThreadPool_worker :: "nat \<Rightarrow> 'f worker \<Rightarrow> int \<Rightarrow> 'f ThreadPool \<Rightarrow> 'f ThreadPool" where
  "ThreadPool_worker i w d tp = tp\<lparr>mWorkers := (mWorkers tp)[i := w], mBusyWorkers := mBusyWorkers tp + d\<rparr>"

definition after_dequeue :: "'f dequeued \<Rightarrow> 'f worker \<times> int" where
  "after_dequeue d = (case d of NullTask \<Rightarrow> (Ended, - 1) | Taken f \<Rightarrow> (Running f, 0)
     | WaitUntil t \<Rightarrow> (Waiting (Some t), 0) | Wait \<Rightarrow> (Waiting None, 0))"

inductive pool_step :: "'f ThreadPool \<Rightarrow> 'f list \<Rightarrow> 'f list \<Rightarrow> 'f ThreadPool \<Rightarrow> 'f list \<Rightarrow> 'f list \<Rightarrow> bool" where
  spawn: "\<not> mJoining tp \<Longrightarrow> pool_step tp given ended (ThreadPool_spawn n tp) given ended"
| schedule: "pool_step tp given ended (ThreadPool_schedule t f tp) (given @ [f]) ended"
| run: "i < length (mWorkers tp) \<Longrightarrow> mWorkers tp ! i = Fresh
    \<Longrightarrow> pool_step tp given ended (ThreadPool_worker i Looking 1 tp) given ended"
| dequeue: "i < length (mWorkers tp) \<Longrightarrow> mWorkers tp ! i = Looking \<Longrightarrow> ThreadPool_dequeues now tp d tp'
    \<Longrightarrow> after_dequeue d = (w, k) \<Longrightarrow> pool_step tp given ended (ThreadPool_worker i w k tp') given ended"
| wake: "i < length (mWorkers tp) \<Longrightarrow> mWorkers tp ! i = Waiting t
    \<Longrightarrow> pool_step tp given ended (ThreadPool_worker i Looking 1 tp) given ended"
| finish: "i < length (mWorkers tp) \<Longrightarrow> mWorkers tp ! i = Running f
    \<Longrightarrow> pool_step tp given ended (ThreadPool_worker i Looking 0 tp) given (ended @ [f])"
| join_begin: "ThreadPool_join_begin tp = Some tp' \<Longrightarrow> pool_step tp given ended tp' given ended"
| join_end: "mJoining tp \<Longrightarrow> ThreadPool_join_end tp = Some tp' \<Longrightarrow> pool_step tp given ended tp' given ended"

fun busy :: "'f worker \<Rightarrow> int" where
  "busy Looking = 1" | "busy (Running f) = 1" | "busy _ = 0"

fun task_of :: "'f worker \<Rightarrow> 'f multiset" where
  "task_of (Running f) = {#f#}" | "task_of _ = {#}"

definition running :: "'f ThreadPool \<Rightarrow> 'f multiset" where
  "running tp = (\<Sum>w\<leftarrow>mWorkers tp. task_of w)"

definition pool_inv :: "'f ThreadPool \<Rightarrow> 'f list \<Rightarrow> 'f list \<Rightarrow> bool" where
  "pool_inv tp given ended \<longleftrightarrow>
     mBusyWorkers tp = (\<Sum>w\<leftarrow>mWorkers tp. busy w)
     \<and> mset given = mset (map snd (tpTasks tp)) + running tp + mset ended
     \<and> (mJoining tp \<longrightarrow> running tp = {#})"

lemma sum_list_update_of:
  fixes f :: "'b \<Rightarrow> 'c :: ab_group_add"
  shows "i < length xs \<Longrightarrow> (\<Sum>x\<leftarrow>xs[i := y]. f x) = (\<Sum>x\<leftarrow>xs. f x) + f y - f (xs ! i)"
  by (induction xs arbitrary: i) (auto split: nat.splits)

lemma running_update:
  "i < length xs \<Longrightarrow> (\<Sum>x\<leftarrow>xs[i := y]. task_of x) + task_of (xs ! i) = (\<Sum>x\<leftarrow>xs. task_of x) + task_of y"
  by (induction xs arbitrary: i) (auto split: nat.splits simp: ac_simps)

lemma busy_nonneg: "0 \<le> busy w"
  by (cases w) simp_all

lemma busy_zero: "(\<Sum>w\<leftarrow>ws. busy w) = 0 \<Longrightarrow> (\<Sum>w\<leftarrow>ws. task_of w) = {#}"
proof (induction ws)
  case (Cons w ws)
  have "0 \<le> (\<Sum>w\<leftarrow>ws. busy w)" by (rule sum_list_nonneg) (use busy_nonneg in auto)
  with Cons show ?case by (cases w) auto
qed simp

lemma replicate_fresh: "(\<Sum>w\<leftarrow>replicate n Fresh. task_of w) = {#}" "(\<Sum>w\<leftarrow>replicate n Fresh. busy w) = 0"
  by (induction n) simp_all

lemma ended_none: "list_all (\<lambda>w. w = Ended) ws \<Longrightarrow> (\<Sum>w\<leftarrow>ws. task_of w) = {#} \<and> (\<Sum>w\<leftarrow>ws. busy w) = 0"
  by (induction ws) auto

lemma worker_inv:
  assumes "pool_inv tp given ended" "i < length (mWorkers tp)" "d = busy w - busy (mWorkers tp ! i)" "task_of w = {#}"
    and "mset ended' = mset ended + task_of (mWorkers tp ! i)"
  shows "pool_inv (ThreadPool_worker i w d tp) given ended'"
  using assms running_update [OF assms(2), of w] sum_list_update_of [OF assms(2), of busy w]
  by (auto simp: pool_inv_def ThreadPool_worker_def running_def)

lemma pool_step_inv:
  assumes "pool_step tp given ended tp' given' ended'" "pool_inv tp given ended"
  shows "pool_inv tp' given' ended'"
  using assms
proof (induction rule: pool_step.induct)
  case (spawn tp given ended n)
  then show ?case by (auto simp: pool_inv_def ThreadPool_spawn_def running_def replicate_fresh simp del: map_replicate)
next
  case (schedule tp given ended t f)
  then show ?case by (auto simp: pool_inv_def ThreadPool_schedule_def running_def)
next
  case (dequeue i tp now d tp' w k given ended)
  note run = running_update [OF dequeue.hyps(1), of w] and sum = sum_list_update_of [OF dequeue.hyps(1), of busy w]
  from dequeue.hyps(3) show ?case
  proof (cases rule: ThreadPool_dequeues.cases)
    case (take t f)
    from dequeues_taken [OF dequeue.hyps(3) [unfolded take(1)]] obtain t'
      where "mset (tpTasks tp) = add_mset (t', f) (mset (tpTasks tp'))" by blast
    then have "mset (map snd (tpTasks tp)) = add_mset f (mset (map snd (tpTasks tp')))" by simp
    with dequeue take run sum show ?thesis
      by (auto simp: pool_inv_def ThreadPool_worker_def running_def after_dequeue_def)
  qed (use dequeue run sum in \<open>auto simp: pool_inv_def ThreadPool_worker_def running_def after_dequeue_def\<close>)
next
  case (join_begin tp tp' given ended)
  then show ?case
    using busy_zero [of "mWorkers tp"] by (auto simp: pool_inv_def ThreadPool_join_begin_def running_def split: if_splits)
next
  case (join_end tp tp' given ended)
  then show ?case
    using ended_none [of "mWorkers tp"] by (auto simp: pool_inv_def ThreadPool_join_end_def running_def split: if_splits)
qed (rule worker_inv; simp)+

inductive pool_run :: "'f ThreadPool \<Rightarrow> 'f list \<Rightarrow> 'f list \<Rightarrow> bool" where
  init: "pool_run ThreadPool_new [] []"
| step: "pool_run tp given ended \<Longrightarrow> pool_step tp given ended tp' given' ended' \<Longrightarrow> pool_run tp' given' ended'"

lemma pool_run_inv: "pool_run tp given ended \<Longrightarrow> pool_inv tp given ended"
proof (induction rule: pool_run.induct)
  case init
  show ?case by (simp add: pool_inv_def ThreadPool_new_def running_def)
qed (rule pool_step_inv)

section \<open>The processor\<close>

text \<open>
  The state of a processor, with the part of the pool that is its own: the task it has given to the
  pool and the task that a worker is running. \<open>prDone\<close> are the tasks that have ended.
\<close>

record 'f Processor =
  prTasks :: "'f Queue"
  mPending :: bool
  prPool :: "'f list"
  prRunning :: "'f list"
  prDone :: "'f list"

definition Processor_new :: "nat \<Rightarrow> 'f Processor" where
  "Processor_new limit = \<lparr>prTasks = Queue_new limit None, mPending = False, prPool = [], prRunning = [], prDone = []\<rparr>"

text \<open>\<open>enqueue\<close>, with \<open>None\<close> when the push on a bounded queue blocks.\<close>

definition Processor_enqueue :: "'f \<Rightarrow> 'f Processor \<Rightarrow> 'f Processor option" where
  "Processor_enqueue f p =
     (if \<not> mPending p then Some (p\<lparr>prPool := prPool p @ [f], mPending := True\<rparr>)
      else map_option (\<lambda>q. p\<lparr>prTasks := q\<rparr>) (Queue_push (prTasks p) f))"

definition Processor_schedule :: "'f Processor \<Rightarrow> 'f Processor" where
  "Processor_schedule p =
     (case Queue_pop (prTasks p) of
        (Some nxt, q) \<Rightarrow> p\<lparr>prTasks := q, prPool := prPool p @ [nxt]\<rparr>
      | (None, q) \<Rightarrow> p\<lparr>prTasks := q, mPending := False\<rparr>)"

text \<open>What \<open>join\<close> waits for.\<close>

definition Processor_joinable :: "'f Processor \<Rightarrow> bool" where
  "Processor_joinable p \<longleftrightarrow> \<not> mPending p \<and> Queue_empty (prTasks p)"

inductive processor_step :: "'f Processor \<Rightarrow> 'f list \<Rightarrow> 'f Processor \<Rightarrow> 'f list \<Rightarrow> bool" where
  enqueue: "Processor_enqueue f p = Some p' \<Longrightarrow> processor_step p given p' (given @ [f])"
| start: "prPool p = f # rest \<Longrightarrow> processor_step p given (p\<lparr>prPool := rest, prRunning := prRunning p @ [f]\<rparr>) given"
| finish: "prRunning p = f # rest
    \<Longrightarrow> processor_step p given (Processor_schedule (p\<lparr>prRunning := rest, prDone := prDone p @ [f]\<rparr>)) given"

definition processor_inv :: "'f Processor \<Rightarrow> 'f list \<Rightarrow> bool" where
  "processor_inv p given \<longleftrightarrow>
     given = prDone p @ prRunning p @ prPool p @ mQueue (prTasks p)
     \<and> length (prRunning p) + length (prPool p) = (if mPending p then 1 else 0)
     \<and> (\<not> mPending p \<longrightarrow> mQueue (prTasks p) = []) \<and> \<not> mStopping (prTasks p)"

lemma processor_inv_new: "processor_inv (Processor_new limit) []"
  by (simp add: processor_inv_def Processor_new_def Queue_new_def)

lemma processor_step_inv:
  assumes "processor_step p given p' given'" "processor_inv p given"
  shows "processor_inv p' given'"
  using assms
proof (induction rule: processor_step.induct)
  case (enqueue f p p' given)
  show ?case
  proof (cases "mPending p")
    case False
    then show ?thesis using enqueue by (auto simp: Processor_enqueue_def processor_inv_def)
  next
    case True
    then obtain q where q: "Queue_push (prTasks p) f = Some q" "p' = p\<lparr>prTasks := q\<rparr>"
      using enqueue by (auto simp: Processor_enqueue_def)
    have ns: "\<not> mStopping (prTasks p)" using enqueue by (simp add: processor_inv_def)
    from wsc_queue.push_contents [OF ns q(1)] wsc_queue.push_accepting [OF ns q(1)] enqueue.prems True q(2)
    show ?thesis by (simp add: processor_inv_def)
  qed
next
  case (start p f rest given)
  then show ?case by (simp add: processor_inv_def)
next
  case (finish p f rest given)
  then have one: "mPending p" "rest = []" "prPool p = []" by (auto simp: processor_inv_def split: if_splits)
  show ?case
  proof (cases "mQueue (prTasks p)")
    case Nil
    then show ?thesis using finish one by (simp add: processor_inv_def Processor_schedule_def Queue_pop_def)
  next
    case (Cons g gs)
    then show ?thesis using finish one by (simp add: processor_inv_def Processor_schedule_def Queue_pop_def)
  qed
qed

inductive processor_run :: "nat \<Rightarrow> 'f Processor \<Rightarrow> 'f list \<Rightarrow> bool" for limit where
  init: "processor_run limit (Processor_new limit) []"
| step: "processor_run limit p given \<Longrightarrow> processor_step p given p' given' \<Longrightarrow> processor_run limit p' given'"

lemma processor_run_inv: "processor_run limit p given \<Longrightarrow> processor_inv p given"
  by (induction rule: processor_run.induct) (auto intro: processor_inv_new processor_step_inv)

text \<open>A bounded processor can block in \<open>enqueue\<close>; an unbounded one never does.\<close>

lemma Processor_enqueue_blocks:
  "Processor_enqueue f p = None \<longleftrightarrow> mPending p \<and> Queue_full (prTasks p) \<and> \<not> mStopping (prTasks p)"
  by (simp add: Processor_enqueue_def Queue_push_blocks_iff)

end
