(* ===== verification/Wsc_Init.thy ===== *)
theory Wsc_Init
  imports Wsc_Prelude
begin

text \<open>
  Global initialisation and cleanup (\<open>src/impl/init.cpp\<close>): tokens keep the library initialised, and
  the destructor of the payload that they share starts a thread that cleans up.

  A payload is an identity; \<open>refs\<close> counts the shared pointers to each, \<open>cleanups\<close> are the payloads
  whose cleanup thread has not yet run, \<open>cleaned\<close> those whose promise has been fulfilled. \<open>poolThreads\<close>
  and \<open>polling\<close> are what \<open>doInit\<close> and \<open>doCleanup\<close> do to the thread pool and to the poll service;
  \<open>hardware_concurrency\<close> is a parameter. Each operation runs under the mutex of the object.
\<close>

text \<open>The settings of a transport that the library does not have; no code reads them.\<close>

record SctpSettings =
  recvBufferSize :: "nat option"
  sendBufferSize :: "nat option"
  maxChunksOnQueue :: "nat option"
  initialCongestionWindow :: "nat option"
  maxBurst :: "nat option"
  congestionControlModule :: "nat option"
  delayedSackTime :: "nat option"
  minRetransmitTimeout :: "nat option"
  maxRetransmitTimeout :: "nat option"
  initialRetransmitTimeout :: "nat option"
  maxRetransmitAttempts :: "nat option"
  heartbeatInterval :: "nat option"

definition default_sctp :: SctpSettings where
  "default_sctp = \<lparr>recvBufferSize = None, sendBufferSize = None, maxChunksOnQueue = None, initialCongestionWindow = None,
     maxBurst = None, congestionControlModule = None, delayedSackTime = None, minRetransmitTimeout = None,
     maxRetransmitTimeout = None, initialRetransmitTimeout = None, maxRetransmitAttempts = None, heartbeatInterval = None\<rparr>"

record Init =
  mGlobal :: "nat option"
  mWeak :: "nat option"
  mInitialized :: bool
  mCleanupFuture :: "nat option"
  refs :: "nat \<Rightarrow> nat"
  nextPayload :: nat
  cleanups :: "nat list"
  cleaned :: "nat list"
  poolThreads :: int
  polling :: bool
  mCurrentSctpSettings :: SctpSettings

definition MIN_THREADPOOL_SIZE :: int where "MIN_THREADPOOL_SIZE = 4"

text \<open>The future of the constructor is ready at once: \<open>None\<close>.\<close>

definition Init_new :: Init where
  "Init_new = \<lparr>mGlobal = None, mWeak = None, mInitialized = False, mCleanupFuture = None, refs = (\<lambda>_. 0), nextPayload = 0,
     cleanups = [], cleaned = [], poolThreads = 0, polling = False, mCurrentSctpSettings = default_sctp\<rparr>"

definition Init_setSctpSettings :: "SctpSettings \<Rightarrow> Init \<Rightarrow> Init" where
  "Init_setSctpSettings new s = s\<lparr>mCurrentSctpSettings := new\<rparr>"

definition Init_doInit :: "int \<Rightarrow> Init \<Rightarrow> Init" where
  "Init_doInit concurrency s =
     (if mInitialized s then s
      else s\<lparr>mInitialized := True, poolThreads := poolThreads s + max concurrency MIN_THREADPOOL_SIZE, polling := True\<rparr>)"

definition Init_doCleanup :: "Init \<Rightarrow> Init" where
  "Init_doCleanup s =
     (if mGlobal s \<noteq> None then s
      else if \<not> mInitialized s then s
      else s\<lparr>mInitialized := False, poolThreads := 0, polling := False\<rparr>)"

text \<open>The constructor and the destructor of the payload, and the body of the thread it starts.\<close>

definition TokenPayload_new :: "int \<Rightarrow> Init \<Rightarrow> nat \<times> Init" where
  "TokenPayload_new concurrency s =
     (let s = Init_doInit concurrency s; p = nextPayload s
      in (p, s\<lparr>nextPayload := p + 1, mCleanupFuture := Some p, refs := (refs s)(p := 1)\<rparr>))"

definition TokenPayload_release :: "nat \<Rightarrow> Init \<Rightarrow> Init" where
  "TokenPayload_release p s =
     (let s = s\<lparr>refs := (refs s)(p := refs s p - 1)\<rparr>
      in if refs s p = 0 then s\<lparr>cleanups := cleanups s @ [p]\<rparr> else s)"

definition TokenPayload_cleanup :: "nat \<Rightarrow> Init \<Rightarrow> Init" where
  "TokenPayload_cleanup p s =
     (let s = Init_doCleanup s in s\<lparr>cleanups := remove1 p (cleanups s), cleaned := cleaned s @ [p]\<rparr>)"

text \<open>Assigning a new payload to \<open>mGlobal\<close> releases the payload it held, if any.\<close>

definition Init_setGlobal :: "nat \<Rightarrow> Init \<Rightarrow> Init" where
  "Init_setGlobal p s =
     (let old = mGlobal s; s = s\<lparr>mGlobal := Some p, mWeak := Some p\<rparr>
      in case old of None \<Rightarrow> s | Some q \<Rightarrow> TokenPayload_release q s)"

definition Init_token :: "int \<Rightarrow> Init \<Rightarrow> nat \<times> Init" where
  "Init_token concurrency s =
     (case mWeak s of
        Some p \<Rightarrow>
          if refs s p > 0 then (p, s\<lparr>refs := (refs s)(p := refs s p + 1)\<rparr>)
          else (let (q, s) = TokenPayload_new concurrency s; s = Init_setGlobal q s
                in (q, s\<lparr>refs := (refs s)(q := refs s q + 1)\<rparr>))
      | None \<Rightarrow>
          (let (q, s) = TokenPayload_new concurrency s; s = Init_setGlobal q s
           in (q, s\<lparr>refs := (refs s)(q := refs s q + 1)\<rparr>)))"

definition Init_preload :: "int \<Rightarrow> Init \<Rightarrow> Init" where
  "Init_preload concurrency s =
     (if mGlobal s = None then (let (q, s) = TokenPayload_new concurrency s in Init_setGlobal q s) else s)"

definition Init_cleanup :: "Init \<Rightarrow> nat option \<times> Init" where
  "Init_cleanup s =
     (case mGlobal s of
        None \<Rightarrow> (mCleanupFuture s, s)
      | Some p \<Rightarrow> (mCleanupFuture s, TokenPayload_release p (s\<lparr>mGlobal := None\<rparr>)))"

text \<open>
  The tokens that are out: the references that \<open>mGlobal\<close> does not hold itself.
\<close>

definition tokens :: "nat \<Rightarrow> Init \<Rightarrow> nat" where
  "tokens p s = refs s p - (if mGlobal s = Some p then 1 else 0)"

datatype init_event = GetToken | Preload | Cleanup | DropToken nat | RunCleanup nat | SetSctp SctpSettings

text \<open>
  An event with its precondition: a token is dropped by one who holds it, a cleanup thread runs once.
\<close>

definition init_enabled :: "init_event \<Rightarrow> Init \<Rightarrow> bool" where
  "init_enabled e s = (case e of DropToken p \<Rightarrow> tokens p s > 0 | RunCleanup p \<Rightarrow> p \<in> set (cleanups s) | _ \<Rightarrow> True)"

definition init_event :: "int \<Rightarrow> init_event \<Rightarrow> Init \<Rightarrow> Init" where
  "init_event c e s =
     (case e of GetToken \<Rightarrow> snd (Init_token c s) | Preload \<Rightarrow> Init_preload c s | Cleanup \<Rightarrow> snd (Init_cleanup s)
        | DropToken p \<Rightarrow> TokenPayload_release p s | RunCleanup p \<Rightarrow> TokenPayload_cleanup p s
        | SetSctp new \<Rightarrow> Init_setSctpSettings new s)"

inductive init_run :: "int \<Rightarrow> Init \<Rightarrow> bool" for c where
  new: "init_run c Init_new"
| event: "init_run c s \<Longrightarrow> init_enabled e s \<Longrightarrow> init_run c (init_event c e s)"

section \<open>Invariant\<close>

text \<open>
  While \<open>mGlobal\<close> is set it is the payload that new tokens share and the library is initialised. When
  the library is initialised, \<open>mGlobal\<close> is set, or a payload is alive, or a cleanup is on its way: it
  is never left initialised for good. The pool and the poll service run exactly while it is.
\<close>

definition init_inv :: "int \<Rightarrow> Init \<Rightarrow> bool" where
  "init_inv c s \<longleftrightarrow>
     (\<forall>p. mGlobal s = Some p \<longrightarrow> mWeak s = Some p \<and> refs s p > 0 \<and> mInitialized s)
     \<and> (mInitialized s \<longrightarrow> mGlobal s \<noteq> None \<or> (\<exists>p. refs s p > 0) \<or> cleanups s \<noteq> [])
     \<and> (\<forall>p. refs s p > 0 \<longrightarrow> p < nextPayload s) \<and> (\<forall>p \<in> set (cleanups s) \<union> set (cleaned s). p < nextPayload s \<and> refs s p = 0)
     \<and> distinct (cleanups s @ cleaned s)
     \<and> poolThreads s = (if mInitialized s then max c MIN_THREADPOOL_SIZE else 0) \<and> polling s = mInitialized s"

lemma new_fields:
  assumes "TokenPayload_new c s = (p, u)" "init_inv c s"
  shows "p = nextPayload s" "mGlobal u = mGlobal s" "mInitialized u" "refs u = (refs s)(p := 1)" "nextPayload u = p + 1"
    "cleanups u = cleanups s" "cleaned u = cleaned s" "poolThreads u = max c MIN_THREADPOOL_SIZE" "polling u"
  using assms by (auto simp: TokenPayload_new_def Init_doInit_def Let_def init_inv_def)

lemma global_fields:
  assumes "mGlobal s = None"
  shows "Init_setGlobal p s = s\<lparr>mGlobal := Some p, mWeak := Some p\<rparr>"
  using assms by (simp add: Init_setGlobal_def Let_def)

lemma fresh_inv:
  assumes "init_inv c s" "mGlobal s = None" "TokenPayload_new c s = (p, u)" "0 < n"
  shows "init_inv c (u\<lparr>mGlobal := Some p, mWeak := Some p, refs := (refs s)(p := n)\<rparr>)"
  unfolding init_inv_def
proof (intro conjI allI impI ballI)
  note f = new_fields [OF assms(3,1)]
  have old: "refs s q > 0 \<Longrightarrow> q < nextPayload s" "q \<in> set (cleanups s) \<union> set (cleaned s) \<Longrightarrow> q < nextPayload s \<and> refs s q = 0"
    "distinct (cleanups s @ cleaned s)" for q
    using assms(1) by (simp_all add: init_inv_def)
  let ?w = "u\<lparr>mGlobal := Some p, mWeak := Some p, refs := (refs s)(p := n)\<rparr>"
  show "q < nextPayload ?w" if "0 < refs ?w q" for q using that old(1) [of q] f(1,5) by (cases "q = p") auto
  show "q < nextPayload ?w" "refs ?w q = 0" if "q \<in> set (cleanups ?w) \<union> set (cleaned ?w)" for q
    using that old(2) [of q] f(1,5,6,7) by auto
  show "distinct (cleanups ?w @ cleaned ?w)" using old(3) f(6,7) by simp
qed (use new_fields [OF assms(3,1)] assms(4) in auto)

lemma preload_new:
  assumes "init_inv c s" "mGlobal s = None" "TokenPayload_new c s = (p, u)"
  shows "Init_preload c s = u\<lparr>mGlobal := Some p, mWeak := Some p, refs := (refs s)(p := 1)\<rparr>"
  using assms(2,3) new_fields(2,4) [OF assms(3,1)] by (cases u) (simp add: Init_preload_def global_fields)

text \<open>A new payload is made for a token when that of \<open>mWeak\<close> is gone, so \<open>mGlobal\<close> holds nothing.\<close>

lemma token_new:
  assumes "init_inv c s" "\<nexists>p. mWeak s = Some p \<and> refs s p > 0" "TokenPayload_new c s = (p, u)"
  shows "mGlobal s = None" "Init_token c s = (p, u\<lparr>mGlobal := Some p, mWeak := Some p, refs := (refs s)(p := 2)\<rparr>)"
proof -
  show none: "mGlobal s = None" using assms(1,2) by (cases "mGlobal s") (auto simp: init_inv_def)
  show "Init_token c s = (p, u\<lparr>mGlobal := Some p, mWeak := Some p, refs := (refs s)(p := 2)\<rparr>)"
    using assms(2,3) none new_fields(2,4) [OF assms(3,1)]
    by (cases u) (auto simp: Init_token_def global_fields numeral_2_eq_2 split: option.splits)
qed

lemma token_again:
  "mWeak s = Some p \<Longrightarrow> refs s p > 0 \<Longrightarrow> Init_token c s = (p, s\<lparr>refs := (refs s)(p := refs s p + 1)\<rparr>)"
  by (simp add: Init_token_def)

lemma preload_inv:
  assumes "init_inv c s"
  shows "init_inv c (Init_preload c s)"
proof (cases "mGlobal s")
  case None
  obtain p u where t: "TokenPayload_new c s = (p, u)" by fastforce
  show ?thesis using fresh_inv [OF assms None t] preload_new [OF assms None t] by simp
qed (simp add: Init_preload_def assms)

lemma token_inv:
  assumes "init_inv c s"
  shows "init_inv c (snd (Init_token c s))"
proof (cases "\<exists>p. mWeak s = Some p \<and> refs s p > 0")
  case True
  then obtain p where p: "mWeak s = Some p" "refs s p > 0" by blast
  show ?thesis using assms p(2) unfolding token_again [OF p]
    by (simp add: init_inv_def) (metis fun_upd_apply less_numeral_extra(3))
next
  case False
  obtain p u where t: "TokenPayload_new c s = (p, u)" by fastforce
  note new = token_new [OF assms False t]
  show ?thesis using fresh_inv [OF assms new(1) t] new(2) by simp
qed

lemma release_inv:
  assumes "init_inv c s" "refs s p > 0" "mGlobal s = Some p \<Longrightarrow> refs s p > 1"
  shows "init_inv c (TokenPayload_release p s)"
proof (cases "refs s p = 1")
  case True
  then have r: "TokenPayload_release p s = s\<lparr>refs := (refs s)(p := 0), cleanups := cleanups s @ [p]\<rparr>"
    by (simp add: TokenPayload_release_def)
  have "p \<notin> set (cleanups s) \<union> set (cleaned s)" "p < nextPayload s" "mGlobal s \<noteq> Some p"
    using assms True by (auto simp: init_inv_def)
  then show ?thesis using assms(1) unfolding r init_inv_def by (simp add: ball_Un)
next
  case False
  then have r: "TokenPayload_release p s = s\<lparr>refs := (refs s)(p := refs s p - 1)\<rparr>" "refs s p - 1 > 0"
    using assms(2) by (auto simp: TokenPayload_release_def)
  define n where "n = refs s p - 1"
  have pos: "(0 < ((refs s)(p := n)) q) = (0 < refs s q)" for q using r(2) assms(2) by (simp add: n_def)
  then have "(((refs s)(p := n)) q = 0) = (refs s q = 0)" for q by (metis neq0_conv)
  with pos show ?thesis using assms(1) unfolding r(1) n_def [symmetric] init_inv_def Init.simps by simp
qed

lemma cleanup_inv:
  assumes "init_inv c s"
  shows "init_inv c (snd (Init_cleanup s))"
proof (cases "mGlobal s")
  case (Some p)
  then have "refs s p > 0" "init_inv c (s\<lparr>mGlobal := None\<rparr>)" using assms by (auto simp: init_inv_def)
  then show ?thesis using release_inv [of c "s\<lparr>mGlobal := None\<rparr>" p] Some by (simp add: Init_cleanup_def)
qed (simp add: Init_cleanup_def assms)

lemma run_cleanup_inv:
  assumes "init_inv c s" "p \<in> set (cleanups s)"
  shows "init_inv c (TokenPayload_cleanup p s)"
proof -
  have "distinct (remove1 p (cleanups s) @ cleaned s @ [p])" "set (remove1 p (cleanups s)) \<union> set (cleaned s @ [p]) = set (cleanups s) \<union> set (cleaned s)"
    using assms by (auto simp: init_inv_def)
  then show ?thesis using assms
    by (cases "mGlobal s") (auto simp: init_inv_def TokenPayload_cleanup_def Init_doCleanup_def Let_def)
qed

lemma set_sctp_inv: "init_inv c (Init_setSctpSettings new s) = init_inv c s"
  by (simp add: init_inv_def Init_setSctpSettings_def)

lemma init_event_inv: "init_inv c s \<Longrightarrow> init_enabled e s \<Longrightarrow> init_inv c (init_event c e s)"
  by (cases e) (auto simp: init_event_def init_enabled_def tokens_def token_inv preload_inv cleanup_inv run_cleanup_inv set_sctp_inv
      intro!: release_inv split: if_splits)

lemma init_run_inv: "init_run c s \<Longrightarrow> init_inv c s"
proof (induction rule: init_run.induct)
  case new
  show ?case by (simp add: init_inv_def Init_new_def)
qed (rule init_event_inv)

text \<open>When nobody holds a token and every cleanup has run, the library is torn down.\<close>

lemma init_quiescent:
  assumes "init_run c s" "mGlobal s = None" "\<forall>p < nextPayload s. tokens p s = 0" "cleanups s = []"
  shows "\<not> mInitialized s \<and> poolThreads s = 0 \<and> \<not> polling s"
proof -
  have inv: "init_inv c s" by (rule init_run_inv [OF assms(1)])
  have "refs s p = 0" for p using assms(2,3) inv by (cases "p < nextPayload s") (auto simp: tokens_def init_inv_def)
  with inv assms(2,4) show ?thesis by (auto simp: init_inv_def)
qed

section \<open>Generations\<close>

text \<open>
  A new payload is made only when the previous one is dead and its cleanup has run.
\<close>

definition one_at_a_time :: "init_event \<Rightarrow> Init \<Rightarrow> bool" where
  "one_at_a_time e s =
     (let idle = (cleanups s = [] \<and> list_all (\<lambda>p. refs s p = 0) [0..<nextPayload s])
      in case e of
           GetToken \<Rightarrow> (case mWeak s of Some p \<Rightarrow> refs s p > 0 \<or> idle | None \<Rightarrow> idle)
         | Preload \<Rightarrow> mGlobal s \<noteq> None \<or> idle
         | _ \<Rightarrow> True)"

inductive init_run1 :: "int \<Rightarrow> Init \<Rightarrow> bool" for c where
  new: "init_run1 c Init_new"
| event: "init_run1 c s \<Longrightarrow> init_enabled e s \<Longrightarrow> one_at_a_time e s \<Longrightarrow> init_run1 c (init_event c e s)"

lemma init_run1_run: "init_run1 c s \<Longrightarrow> init_run c s"
  by (induction rule: init_run1.induct) (auto intro: init_run.intros)

definition current :: "Init \<Rightarrow> bool" where
  "current s \<longleftrightarrow> (\<forall>p. refs s p > 0 \<longrightarrow> mWeak s = Some p \<and> mInitialized s \<and> cleanups s = [])"

lemma idle_refs:
  assumes "init_inv c s" "list_all (\<lambda>p. refs s p = 0) [0..<nextPayload s]"
  shows "refs s p = 0"
  using assms by (cases "p < nextPayload s") (auto simp: init_inv_def list_all_iff)

lemma fresh_current:
  assumes "init_inv c s" "\<And>q. refs s q = 0" "cleanups s = []" "TokenPayload_new c s = (p, u)"
  shows "current (u\<lparr>mGlobal := Some p, mWeak := Some p, refs := (refs s)(p := n)\<rparr>)"
  using assms(2,3) new_fields [OF assms(4,1)] by (auto simp: current_def)

lemma release_current:
  assumes "current s" "refs s p > 0"
  shows "current (TokenPayload_release p s)"
proof -
  have only: "refs s q > 0 \<Longrightarrow> q = p" for q using assms unfolding current_def by (metis option.inject)
  have ok: "mWeak s = Some p \<and> mInitialized s \<and> cleanups s = []" using assms by (simp add: current_def)
  show ?thesis using only ok by (auto simp: TokenPayload_release_def Let_def current_def)
qed

lemma current_global: "current (s\<lparr>mGlobal := g\<rparr>) = current s"
  by (simp add: current_def)

lemma current_event:
  assumes "init_inv c s" "current s" "init_enabled e s" "one_at_a_time e s"
  shows "current (init_event c e s)"
proof (cases e)
  case GetToken
  show ?thesis
  proof (cases "\<exists>p. mWeak s = Some p \<and> refs s p > 0")
    case True
    then obtain p where p: "mWeak s = Some p" "refs s p > 0" by blast
    have live: "mInitialized s \<and> cleanups s = []" "\<And>q. refs s q > 0 \<Longrightarrow> q = p"
      using assms(2) p unfolding current_def by (metis option.inject)+
    have "init_event c e s = s\<lparr>refs := (refs s)(p := refs s p + 1)\<rparr>"
      by (simp only: GetToken init_event_def init_event.case token_again [OF p] snd_conv)
    then show ?thesis using live p(1) by (auto simp: current_def)
  next
    case False
    obtain p u where t: "TokenPayload_new c s = (p, u)" by fastforce
    have idle: "cleanups s = []" "list_all (\<lambda>p. refs s p = 0) [0..<nextPayload s]"
      using assms(4) GetToken False by (auto simp: one_at_a_time_def Let_def split: option.splits)
    from fresh_current [OF assms(1) idle_refs [OF assms(1) idle(2)] idle(1) t] token_new(2) [OF assms(1) False t] show ?thesis
      by (simp add: GetToken init_event_def)
  qed
next
  case Preload
  show ?thesis
  proof (cases "mGlobal s")
    case None
    obtain p u where t: "TokenPayload_new c s = (p, u)" by fastforce
    have idle: "cleanups s = []" "list_all (\<lambda>p. refs s p = 0) [0..<nextPayload s]"
      using assms(4) Preload None by (simp_all add: one_at_a_time_def Let_def)
    from fresh_current [OF assms(1) idle_refs [OF assms(1) idle(2)] idle(1) t] preload_new [OF assms(1) None t] show ?thesis
      by (simp add: Preload init_event_def)
  qed (use assms(2) Preload in \<open>simp add: init_event_def Init_preload_def\<close>)
next
  case Cleanup
  show ?thesis
  proof (cases "mGlobal s")
    case (Some p)
    then have "refs s p > 0" using assms(1) by (simp add: init_inv_def)
    then show ?thesis using release_current [of "s\<lparr>mGlobal := None\<rparr>" p] assms(2) Some Cleanup
      by (simp add: init_event_def Init_cleanup_def current_global)
  qed (use assms(2) Cleanup in \<open>simp add: init_event_def Init_cleanup_def\<close>)
next
  case (DropToken p)
  then have "refs s p > 0" using assms(3) by (simp add: init_enabled_def tokens_def)
  then show ?thesis using release_current [OF assms(2)] DropToken by (simp add: init_event_def)
next
  case (RunCleanup p)
  then have "cleanups s \<noteq> []" using assms(3) by (auto simp: init_enabled_def)
  then have "refs s q = 0" for q using assms(2) by (auto simp: current_def)
  then show ?thesis using RunCleanup by (simp add: init_event_def TokenPayload_cleanup_def Init_doCleanup_def Let_def current_def)
next
  case (SetSctp new)
  then show ?thesis using assms(2) by (simp add: init_event_def Init_setSctpSettings_def current_def)
qed

text \<open>Then whoever holds a token has an initialised library.\<close>

lemma init_run1_current: "init_run1 c s \<Longrightarrow> current s"
proof (induction rule: init_run1.induct)
  case new
  show ?case by (simp add: current_def Init_new_def)
next
  case (event s e)
  then show ?case using current_event init_run_inv init_run1_run by blast
qed

text \<open>
  Without the restriction it does not hold. In the first sequence a second payload is preloaded after
  the cleanup while a token of the first is held, and its own cleanup tears the library down; in the
  second the cleanup thread of the first payload runs late, after a second payload has been made and
  cleaned up while a token of it is held.
\<close>

fun init_events :: "int \<Rightarrow> init_event list \<Rightarrow> Init \<Rightarrow> Init option" where
  "init_events c [] s = Some s"
| "init_events c (e # es) s = (if init_enabled e s then init_events c es (init_event c e s) else None)"

lemma init_events_run: "init_run c s \<Longrightarrow> init_events c es s = Some s' \<Longrightarrow> init_run c s'"
  by (induction es arbitrary: s) (auto intro: init_run.event split: if_splits)

lemmas init_eval = init_enabled_def init_event_def tokens_def Init_token_def Init_preload_def Init_cleanup_def
  TokenPayload_new_def TokenPayload_release_def TokenPayload_cleanup_def Init_setGlobal_def Init_doInit_def
  Init_doCleanup_def Init_new_def

lemma preload_strands_token:
  "\<exists>s. init_events c [GetToken, Cleanup, Preload, Cleanup, RunCleanup 1] Init_new = Some s \<and> tokens 0 s = 1 \<and> \<not> mInitialized s"
  by (simp add: init_eval Let_def)

lemma late_cleanup_strands_token:
  "\<exists>s. init_events c [GetToken, Cleanup, DropToken 0, GetToken, Cleanup, RunCleanup 0] Init_new = Some s
     \<and> tokens 1 s = 1 \<and> \<not> mInitialized s"
  by (simp add: init_eval Let_def)

end
