(* ===== verification/Wsc_CApi.thy ===== *)
theory Wsc_CApi
  imports Wsc_WebSocket Wsc_Init
begin

text \<open>
  The C interface (\<open>src/capi.cpp\<close>): integer handles for WebSockets, user pointers, error codes, and
  the copying of data into buffers of the caller.

  \<^item> The two hash maps are association lists with distinct keys; a \<open>shared_ptr\<close> in the map is the
    object itself, since callers of this interface have only handles. Pointers are numbers, the null
    pointer is 0. An object that leaves the map is destroyed at the end of the call, and its final
    state is kept in \<open>destroyed\<close>.
  \<^item> A C callback is a number; what it is called with is \<open>c_call\<close>. A buffer is the list of its bytes,
    with \<open>None\<close> for a null pointer. Conversions to \<open>int\<close> keep the low 32 bits.
  \<^item> Signed overflow of \<open>lastId\<close> (after \<open>2 ^ 31 - 1\<close> handles) is not modelled.
\<close>

section \<open>Hash maps\<close>

type_synonym ('k, 'v) unordered_map = "('k \<times> 'v) list"

definition um_emplace :: "'k \<Rightarrow> 'v \<Rightarrow> ('k, 'v) unordered_map \<Rightarrow> ('k, 'v) unordered_map" where
  "um_emplace k v m = (case map_of m k of None \<Rightarrow> (k, v) # m | Some _ \<Rightarrow> m)"

definition um_assign :: "'k \<Rightarrow> 'v \<Rightarrow> ('k, 'v) unordered_map \<Rightarrow> ('k, 'v) unordered_map" where
  "um_assign k v m = (case map_of m k of None \<Rightarrow> (k, v) # m | Some _ \<Rightarrow> map (\<lambda>(k', v'). (k', if k' = k then v else v')) m)"

definition um_erase :: "'k \<Rightarrow> ('k, 'v) unordered_map \<Rightarrow> nat \<times> ('k, 'v) unordered_map" where
  "um_erase k m = (case map_of m k of None \<Rightarrow> (0, m) | Some _ \<Rightarrow> (1, filter (\<lambda>(k', v'). k' \<noteq> k) m))"

lemma map_of_assigned:
  "map_of (map (\<lambda>(k', v'). (k', if k' = k then v else v')) m) j = (if j = k then map_option (\<lambda>_. v) (map_of m k) else map_of m j)"
  by (induction m) auto

lemma map_of_erased: "map_of (filter (\<lambda>(k', v'). k' \<noteq> k) m) j = (if j = k then None else map_of m j)"
  by (induction m) auto

lemma um_find [simp]:
  "map_of (um_emplace k v m) j = (if j = k \<and> map_of m k = None then Some v else map_of m j)"
  "map_of (um_assign k v m) j = (if j = k then Some v else map_of m j)"
  "map_of (snd (um_erase k m)) j = (if j = k then None else map_of m j)"
  "(fst (um_erase k m) = 0) = (map_of m k = None)"
  by (auto simp: um_emplace_def um_assign_def um_erase_def map_of_assigned map_of_erased split: option.splits)

section \<open>State\<close>

type_synonym ptr = nat

abbreviation (input) nullptr :: ptr where "nullptr \<equiv> 0"

record capi =
  webSocketMap :: "(int, WebSocket) unordered_map"
  userPointerMap :: "(int, ptr) unordered_map"
  lastId :: int
  destroyed :: "WebSocket list"

definition capi_new :: capi where
  "capi_new = \<lparr>webSocketMap = [], userPointerMap = [], lastId = 0, destroyed = []\<rparr>"

text \<open>The destructor of a WebSocket.\<close>

definition WebSocket_destroy :: "WebSocket \<Rightarrow> WebSocket" where
  "WebSocket_destroy w = Channel_resetCallbacks (WebSocket_remoteClose w)"

abbreviation (input) WSC_ERR_SUCCESS :: int where "WSC_ERR_SUCCESS \<equiv> 0"
abbreviation (input) WSC_ERR_INVALID :: int where "WSC_ERR_INVALID \<equiv> - 1"
abbreviation (input) WSC_ERR_FAILURE :: int where "WSC_ERR_FAILURE \<equiv> - 2"
abbreviation (input) WSC_ERR_NOT_AVAIL :: int where "WSC_ERR_NOT_AVAIL \<equiv> - 3"
abbreviation (input) WSC_ERR_TOO_SMALL :: int where "WSC_ERR_TOO_SMALL \<equiv> - 4"

text \<open>The conversions \<open>int(n)\<close> from \<open>size_t\<close> and \<open>size_t(n)\<close> from \<open>int\<close>.\<close>

definition to_int :: "nat \<Rightarrow> int" where
  "to_int n = sint (word_of_nat n :: 32 word)"

definition to_size :: "int \<Rightarrow> nat" where
  "to_size n = unat (word_of_int n :: 64 word)"

section \<open>Handles\<close>

definition getUserPointer :: "int \<Rightarrow> capi \<Rightarrow> ptr option" where
  "getUserPointer i s = map_of (userPointerMap s) i"

definition setUserPointer :: "int \<Rightarrow> ptr \<Rightarrow> capi \<Rightarrow> capi" where
  "setUserPointer i p s = s\<lparr>userPointerMap := um_assign i p (userPointerMap s)\<rparr>"

definition eraseAll :: "capi \<Rightarrow> nat \<times> capi" where
  "eraseAll s =
     (length (webSocketMap s),
      s\<lparr>webSocketMap := [], userPointerMap := [],
        destroyed := destroyed s @ map (WebSocket_destroy \<circ> snd) (webSocketMap s)\<rparr>)"

definition getWebSocket :: "int \<Rightarrow> capi \<Rightarrow> WebSocket res" where
  "getWebSocket i s =
     (case map_of (webSocketMap s) i of
        Some w \<Rightarrow> Inr w | None \<Rightarrow> Inl (invalid_argument ''WebSocket ID does not exist''))"

definition getChannel :: "int \<Rightarrow> capi \<Rightarrow> WebSocket res" where
  "getChannel i s =
     (case map_of (webSocketMap s) i of
        Some w \<Rightarrow> Inr w | None \<Rightarrow> Inl (invalid_argument ''WebSocket ID does not exist''))"

text \<open>Writing back the object that a handle names.\<close>

definition putWebSocket :: "int \<Rightarrow> WebSocket \<Rightarrow> capi \<Rightarrow> capi" where
  "putWebSocket i w s = s\<lparr>webSocketMap := um_assign i w (webSocketMap s)\<rparr>"

definition emplaceWebSocket :: "WebSocket \<Rightarrow> capi \<Rightarrow> int \<times> capi" where
  "emplaceWebSocket w s =
     (let ws = lastId s + 1
      in (ws, s\<lparr>lastId := ws, webSocketMap := um_emplace ws w (webSocketMap s),
                userPointerMap := um_emplace ws nullptr (userPointerMap s)\<rparr>))"

text \<open>The erased object is destroyed with the last pointer to it, at the end of the calling function.\<close>

definition eraseWebSocket :: "int \<Rightarrow> capi \<Rightarrow> unit res \<times> capi" where
  "eraseWebSocket i s =
     (case (map_of (webSocketMap s) i, um_erase i (webSocketMap s)) of
        (Some w, (Suc _, m)) \<Rightarrow>
          (Inr (), s\<lparr>webSocketMap := m, userPointerMap := snd (um_erase i (userPointerMap s)),
                     destroyed := destroyed s @ [WebSocket_destroy w]\<rparr>)
      | _ \<Rightarrow> (Inl (invalid_argument ''WebSocket ID does not exist''), s))"

definition eraseChannel :: "int \<Rightarrow> capi \<Rightarrow> unit res \<times> capi" where
  "eraseChannel i s =
     (case (map_of (webSocketMap s) i, um_erase i (webSocketMap s)) of
        (Some w, (Suc _, m)) \<Rightarrow>
          (Inr (), s\<lparr>webSocketMap := m, userPointerMap := snd (um_erase i (userPointerMap s)),
                     destroyed := destroyed s @ [WebSocket_destroy w]\<rparr>)
      | _ \<Rightarrow> (Inl (invalid_argument ''WebSocket ID does not exist''), s))"

text \<open>\<open>wrap\<close> turns an exception into an error code.\<close>

definition wrap :: "int res \<times> 's \<Rightarrow> int \<times> 's" where
  "wrap r = (case r of
       (Inr n, s) \<Rightarrow> (n, s)
     | (Inl (invalid_argument _), s) \<Rightarrow> (WSC_ERR_INVALID, s)
     | (Inl _, s) \<Rightarrow> (WSC_ERR_FAILURE, s))"

text \<open>A function that only acts on the object: look it up, act, write it back.\<close>

definition with_channel :: "int \<Rightarrow> (WebSocket \<Rightarrow> int res \<times> WebSocket) \<Rightarrow> capi \<Rightarrow> int \<times> capi" where
  "with_channel i f s =
     wrap (case getChannel i s of
             Inl e \<Rightarrow> (Inl e, s)
           | Inr w \<Rightarrow> (case f w of (r, w') \<Rightarrow> (r, putWebSocket i w' s)))"

section \<open>Buffers\<close>

definition copy_to :: "binary \<Rightarrow> binary \<Rightarrow> binary" where
  "copy_to d buffer = d @ drop (length d) buffer"

definition copyAndReturn_string :: "string \<Rightarrow> binary option \<Rightarrow> int \<Rightarrow> int \<times> binary option" where
  "copyAndReturn_string s buffer sz =
     (case buffer of
        None \<Rightarrow> (to_int (length s + 1), None)
      | Some buf \<Rightarrow>
          if sz < to_int (length s + 1) then (WSC_ERR_TOO_SMALL, Some buf)
          else (to_int (length s + 1), Some (copy_to (bytes_of_string s @ [0]) buf)))"

definition copyAndReturn_binary :: "binary \<Rightarrow> binary option \<Rightarrow> int \<Rightarrow> int \<times> binary option" where
  "copyAndReturn_binary b buffer sz =
     (case buffer of
        None \<Rightarrow> (to_int (length b), None)
      | Some buf \<Rightarrow>
          if sz < to_int (length b) then (WSC_ERR_TOO_SMALL, Some buf)
          else (to_int (length b), Some (copy_to b buf)))"

section \<open>The functions\<close>

definition wscSetUserPointer :: "int \<Rightarrow> ptr \<Rightarrow> capi \<Rightarrow> capi" where
  "wscSetUserPointer i p s = setUserPointer i p s"

definition wscGetUserPointer :: "int \<Rightarrow> capi \<Rightarrow> ptr" where
  "wscGetUserPointer i s = (case getUserPointer i s of Some p \<Rightarrow> p | None \<Rightarrow> nullptr)"

definition wscSetOpenCallback :: "int \<Rightarrow> cb option \<Rightarrow> capi \<Rightarrow> int \<times> capi" where
  "wscSetOpenCallback i cb = with_channel i (\<lambda>w. (Inr WSC_ERR_SUCCESS, Channel_onOpen cb w))"

definition wscSetClosedCallback :: "int \<Rightarrow> cb option \<Rightarrow> capi \<Rightarrow> int \<times> capi" where
  "wscSetClosedCallback i cb = with_channel i (\<lambda>w. (Inr WSC_ERR_SUCCESS, Channel_onClosed cb w))"

definition wscSetErrorCallback :: "int \<Rightarrow> cb option \<Rightarrow> capi \<Rightarrow> int \<times> capi" where
  "wscSetErrorCallback i cb = with_channel i (\<lambda>w. (Inr WSC_ERR_SUCCESS, Channel_onError cb w))"

definition wscSetMessageCallback :: "int \<Rightarrow> cb option \<Rightarrow> capi \<Rightarrow> int \<times> capi" where
  "wscSetMessageCallback i cb = with_channel i (\<lambda>w. (Inr WSC_ERR_SUCCESS, Channel_onMessage cb w))"

definition wscSetBufferedAmountLowCallback :: "int \<Rightarrow> cb option \<Rightarrow> capi \<Rightarrow> int \<times> capi" where
  "wscSetBufferedAmountLowCallback i cb = with_channel i (\<lambda>w. (Inr WSC_ERR_SUCCESS, Channel_onBufferedAmountLow cb w))"

definition wscSetAvailableCallback :: "int \<Rightarrow> cb option \<Rightarrow> capi \<Rightarrow> int \<times> capi" where
  "wscSetAvailableCallback i cb = with_channel i (\<lambda>w. (Inr WSC_ERR_SUCCESS, Channel_onAvailable cb w))"

text \<open>
  What the C callback is called with when the channel of handle \<open>i\<close> makes a call: nothing if the handle
  has no user pointer any more; a string is announced by a negative size.
\<close>

datatype c_args = CEvent | CError string | CMessage binary int

record c_call =
  c_func :: cb
  c_id :: int
  c_args :: c_args
  c_ptr :: ptr

definition c_callback :: "int \<Rightarrow> call \<Rightarrow> capi \<Rightarrow> c_call option" where
  "c_callback i c s =
     (case getUserPointer i s of
        None \<Rightarrow> None
      | Some p \<Rightarrow> Some (case c of
            CallOpen f \<Rightarrow> \<lparr>c_func = f, c_id = i, c_args = CEvent, c_ptr = p\<rparr>
          | CallClosed f \<Rightarrow> \<lparr>c_func = f, c_id = i, c_args = CEvent, c_ptr = p\<rparr>
          | CallError f e \<Rightarrow> \<lparr>c_func = f, c_id = i, c_args = CError e, c_ptr = p\<rparr>
          | CallAvailable f \<Rightarrow> \<lparr>c_func = f, c_id = i, c_args = CEvent, c_ptr = p\<rparr>
          | CallBufferedAmountLow f \<Rightarrow> \<lparr>c_func = f, c_id = i, c_args = CEvent, c_ptr = p\<rparr>
          | CallMessage f (VBinary b) \<Rightarrow> \<lparr>c_func = f, c_id = i, c_args = CMessage b (to_int (length b)), c_ptr = p\<rparr>
          | CallMessage f (VString m) \<Rightarrow>
              \<lparr>c_func = f, c_id = i, c_args = CMessage (bytes_of_string m @ [0]) (- to_int (length m + 1)), c_ptr = p\<rparr>))"

text \<open>
  \<open>wscSendMessage\<close>: \<open>d\<close> is the memory at the pointer, long enough for the size; a negative size announces
  a C string.
\<close>

definition wscSendMessage :: "ws_world \<Rightarrow> int \<Rightarrow> binary option \<Rightarrow> int \<Rightarrow> capi \<Rightarrow> int \<times> capi" where
  "wscSendMessage W i d sz = with_channel i (\<lambda>w.
     (if d = None \<and> sz \<noteq> 0 then Inl (invalid_argument ''Unexpected null pointer for data'')
      else
        let mem = (case d of Some b \<Rightarrow> b | None \<Rightarrow> []);
            v = (if sz \<ge> 0 then VBinary (take (nat sz) mem) else VString (string_of_bytes (takeWhile (\<lambda>b. b \<noteq> 0) mem)))
        in map_sum id (\<lambda>_. WSC_ERR_SUCCESS) (WebSocket_outgoing W (make_message_variant v) w),
      w))"

definition wscClose :: "int \<Rightarrow> capi \<Rightarrow> int \<times> capi" where
  "wscClose i = with_channel i (\<lambda>w. (Inr WSC_ERR_SUCCESS, WebSocket_close w))"

definition wscDelete :: "int \<Rightarrow> capi \<Rightarrow> int \<times> capi" where
  "wscDelete i s =
     wrap (case getChannel i s of
             Inl e \<Rightarrow> (Inl e, s)
           | Inr w \<Rightarrow>
               (case eraseChannel i (putWebSocket i (WebSocket_close w) s) of
                  (Inl e, s) \<Rightarrow> (Inl e, s)
                | (Inr _, s) \<Rightarrow> (Inr WSC_ERR_SUCCESS, s)))"

definition wscIsOpen :: "int \<Rightarrow> capi \<Rightarrow> bool" where
  "wscIsOpen i s = (fst (with_channel i (\<lambda>w. (Inr (if WebSocket_isOpen w then 0 else 1), w)) s) = 0)"

definition wscIsClosed :: "int \<Rightarrow> capi \<Rightarrow> bool" where
  "wscIsClosed i s = (fst (with_channel i (\<lambda>w. (Inr (if WebSocket_isClosed w then 0 else 1), w)) s) = 0)"

definition wscMaxMessageSize :: "int \<Rightarrow> capi \<Rightarrow> int \<times> capi" where
  "wscMaxMessageSize i = with_channel i (\<lambda>w. (Inr (to_int (WebSocket_maxMessageSize w)), w))"

definition wscGetBufferedAmount :: "int \<Rightarrow> capi \<Rightarrow> int \<times> capi" where
  "wscGetBufferedAmount i = with_channel i (\<lambda>w. (Inr (to_int (bufferedAmount w)), w))"

definition wscSetBufferedAmountLowThreshold :: "int \<Rightarrow> int \<Rightarrow> capi \<Rightarrow> int \<times> capi" where
  "wscSetBufferedAmountLowThreshold i amount =
     with_channel i (\<lambda>w. (Inr WSC_ERR_SUCCESS, Channel_setBufferedAmountLowThreshold (to_size amount) w))"

definition wscGetAvailableAmount :: "int \<Rightarrow> capi \<Rightarrow> int \<times> capi" where
  "wscGetAvailableAmount i = with_channel i (\<lambda>w. (Inr (to_int (unat (WebSocket_availableAmount w))), w))"

text \<open>
  \<open>wscReceiveMessage\<close>, on the object: the code returned, the value left in \<open>*size\<close>, the buffer, and the
  object. \<open>copyAndReturn\<close> takes its argument by move, so the sizes reported when the buffer is too small
  are those of an empty vector and of an empty string.
\<close>

definition receive_into :: "binary option \<Rightarrow> int \<Rightarrow> WebSocket \<Rightarrow> (int \<times> int \<times> binary option) \<times> WebSocket" where
  "receive_into buffer sz w =
     (let sz = abs sz
      in case WebSocket_peek w of
           (None, w) \<Rightarrow> ((WSC_ERR_NOT_AVAIL, sz, buffer), w)
         | (Some (VBinary b), w) \<Rightarrow>
             (case copyAndReturn_binary b buffer sz of
                (ret, buffer') \<Rightarrow>
                  if ret \<ge> 0
                  then ((WSC_ERR_SUCCESS, ret, buffer'), if buffer \<noteq> None then snd (WebSocket_receive w) else w)
                  else ((ret, to_int 0, buffer'), w))
         | (Some (VString m), w) \<Rightarrow>
             (case copyAndReturn_string m buffer sz of
                (ret, buffer') \<Rightarrow>
                  if ret \<ge> 0
                  then ((WSC_ERR_SUCCESS, - ret, buffer'), if buffer \<noteq> None then snd (WebSocket_receive w) else w)
                  else ((ret, - to_int (0 + 1), buffer'), w)))"

definition wscReceiveMessage ::
  "int \<Rightarrow> binary option \<Rightarrow> int option \<Rightarrow> capi \<Rightarrow> int \<times> int option \<times> binary option \<times> capi" where
  "wscReceiveMessage i buffer sz s =
     (case getChannel i s of
        Inl e \<Rightarrow> (fst (wrap (Inl e, s)), sz, buffer, s)
      | Inr w \<Rightarrow>
          (case sz of
             None \<Rightarrow> (fst (wrap (Inl (invalid_argument ''Unexpected null pointer for size''), s)), None, buffer, s)
           | Some n \<Rightarrow>
               (case receive_into buffer n w of
                  ((ret, n', buffer'), w') \<Rightarrow> (ret, Some n', buffer', putWebSocket i w' s))))"

text \<open>
  Creation. When \<open>open\<close> throws, the object is destroyed without having had a handle.
\<close>

definition create_open :: "ws_world \<Rightarrow> string \<Rightarrow> WebSocket res \<Rightarrow> capi \<Rightarrow> int \<times> capi" where
  "create_open W url made s =
     wrap (case made of
             Inl e \<Rightarrow> (Inl e, s)
           | Inr w \<Rightarrow>
               (case WebSocket_open W url w of
                  (Inl e, w) \<Rightarrow> (Inl e, s\<lparr>destroyed := destroyed s @ [WebSocket_destroy w]\<rparr>)
                | (Inr _, w) \<Rightarrow> (case emplaceWebSocket w s of (i, s) \<Rightarrow> (Inr i, s))))"

definition wscCreateWebSocket :: "ws_world \<Rightarrow> string \<Rightarrow> capi \<Rightarrow> int \<times> capi" where
  "wscCreateWebSocket W url s = create_open W url (WebSocket_new None False load_nothing) s"

record wscWsConfiguration =
  c_disableTlsVerification :: bool
  c_proxyServer :: "string option"
  c_protocols :: "string list"
  c_protocolsCount :: int
  c_connectionTimeoutMs :: int
  c_pingIntervalMs :: int
  c_maxOutstandingPings :: int
  c_maxMessageSize :: int

definition config_of :: "wscWsConfiguration \<Rightarrow> WebSocketConfiguration res" where
  "config_of cfg =
     (case (case c_proxyServer cfg of None \<Rightarrow> Inr None | Some url \<Rightarrow> map_sum id Some (ProxyServer_url url)) of
        Inl e \<Rightarrow> Inl e
      | Inr proxy \<Rightarrow> Inr (default_config\<lparr>
          disableTlsVerification := c_disableTlsVerification cfg,
          proxyServer := proxy,
          protocols := take (nat (c_protocolsCount cfg)) (c_protocols cfg),
          connectionTimeout := (if c_connectionTimeoutMs cfg > 0 then Some (nat (c_connectionTimeoutMs cfg))
                                else if c_connectionTimeoutMs cfg < 0 then Some 0 else None),
          pingInterval := (if c_pingIntervalMs cfg > 0 then Some (nat (c_pingIntervalMs cfg))
                           else if c_pingIntervalMs cfg < 0 then Some 0 else None),
          maxOutstandingPings := (if c_maxOutstandingPings cfg > 0 then Some (c_maxOutstandingPings cfg)
                                  else if c_maxOutstandingPings cfg < 0 then Some 0 else None),
          maxMessageSize := (if c_maxMessageSize cfg > 0 then Some (nat (c_maxMessageSize cfg)) else None)\<rparr>))"

definition wscCreateWebSocketEx :: "ws_world \<Rightarrow> string option \<Rightarrow> wscWsConfiguration option \<Rightarrow> capi \<Rightarrow> int \<times> capi" where
  "wscCreateWebSocketEx W url cfg s =
     (case url of
        None \<Rightarrow> wrap (Inl (invalid_argument ''Unexpected null pointer for URL''), s)
      | Some url \<Rightarrow>
          (case cfg of
             None \<Rightarrow> wrap (Inl (invalid_argument ''Unexpected null pointer for config''), s)
           | Some cfg \<Rightarrow>
               (case config_of cfg of
                  Inl e \<Rightarrow> wrap (Inl e, s)
                | Inr c \<Rightarrow> create_open W url (WebSocket_new (Some c) False load_nothing) s)))"

definition wscDeleteWebSocket :: "int \<Rightarrow> capi \<Rightarrow> int \<times> capi" where
  "wscDeleteWebSocket i s =
     wrap (case getWebSocket i s of
             Inl e \<Rightarrow> (Inl e, s)
           | Inr w \<Rightarrow>
               (case eraseWebSocket i (putWebSocket i (Channel_resetCallbacks (WebSocket_remoteClose w)) s) of
                  (Inl e, s) \<Rightarrow> (Inl e, s)
                | (Inr _, s) \<Rightarrow> (Inr WSC_ERR_SUCCESS, s)))"

text \<open>\<open>remote\<close> is the address of a TCP transport.\<close>

definition wscGetWebSocketRemoteAddress ::
  "(nat \<Rightarrow> string) \<Rightarrow> int \<Rightarrow> binary option \<Rightarrow> int \<Rightarrow> capi \<Rightarrow> int \<times> binary option" where
  "wscGetWebSocketRemoteAddress remote i buffer sz s =
     (case getWebSocket i s of
        Inl e \<Rightarrow> wrap (Inl e, buffer)
      | Inr w \<Rightarrow>
          (case mTcpTransport w of
             Some t \<Rightarrow> copyAndReturn_string (remote t) buffer sz
           | None \<Rightarrow> (WSC_ERR_NOT_AVAIL, buffer)))"

definition wscGetWebSocketPath :: "int \<Rightarrow> binary option \<Rightarrow> int \<Rightarrow> capi \<Rightarrow> int \<times> binary option" where
  "wscGetWebSocketPath i buffer sz s =
     (case getWebSocket i s of
        Inl e \<Rightarrow> wrap (Inl e, buffer)
      | Inr w \<Rightarrow>
          (case WebSocket_path w of
             Some p \<Rightarrow> copyAndReturn_string p buffer sz
           | None \<Rightarrow> (WSC_ERR_NOT_AVAIL, buffer)))"

text \<open>
  \<open>wscPreload\<close> and \<open>wscCleanup\<close>, with the state of the global initialisation beside that of the handles.
  The tokens of the objects that are destroyed are given back by events of their own.
\<close>

definition wscPreload :: "int \<Rightarrow> capi \<times> Init \<Rightarrow> capi \<times> Init" where
  "wscPreload concurrency si = (fst si, Init_preload concurrency (snd si))"

definition wscCleanup :: "capi \<times> Init \<Rightarrow> capi \<times> Init" where
  "wscCleanup si = (snd (eraseAll (fst si)), snd (Init_cleanup (snd si)))"

section \<open>Steps\<close>

text \<open>
  The calls of an application, and the changes that the library makes to the objects on its own.
\<close>

inductive capi_step :: "ws_world \<Rightarrow> capi \<Rightarrow> capi \<Rightarrow> bool" for W where
  set_pointer: "capi_step W s (wscSetUserPointer i p s)"
| set_open: "capi_step W s (snd (wscSetOpenCallback i f s))"
| set_closed: "capi_step W s (snd (wscSetClosedCallback i f s))"
| set_error: "capi_step W s (snd (wscSetErrorCallback i f s))"
| set_message: "capi_step W s (snd (wscSetMessageCallback i f s))"
| set_low: "capi_step W s (snd (wscSetBufferedAmountLowCallback i f s))"
| set_available: "capi_step W s (snd (wscSetAvailableCallback i f s))"
| send: "capi_step W s (snd (wscSendMessage W i d sz s))"
| close: "capi_step W s (snd (wscClose i s))"
| delete: "capi_step W s (snd (wscDelete i s))"
| set_threshold: "capi_step W s (snd (wscSetBufferedAmountLowThreshold i a s))"
| receive: "wscReceiveMessage i b n s = (r, n', b', s') \<Longrightarrow> capi_step W s s'"
| create: "capi_step W s (snd (wscCreateWebSocket W url s))"
| create_ex: "capi_step W s (snd (wscCreateWebSocketEx W u c s))"
| delete_ws: "capi_step W s (snd (wscDeleteWebSocket i s))"
| cleanup: "capi_step W s (fst (wscCleanup (s, t)))"
| internal: "map_of (webSocketMap s) i = Some w \<Longrightarrow> api_step W w w' \<Longrightarrow> capi_step W s (putWebSocket i w' s)"

section \<open>Invariant\<close>

text \<open>
  Handles are at most \<open>lastId\<close>, every handle has a user pointer, every object keeps its invariant, and
  what has been destroyed was closed.
\<close>

definition capi_inv :: "capi \<Rightarrow> bool" where
  "capi_inv s \<longleftrightarrow> lastId s \<ge> 0 \<and> distinct (map fst (webSocketMap s))
     \<and> (\<forall>i w. map_of (webSocketMap s) i = Some w \<longrightarrow> 1 \<le> i \<and> i \<le> lastId s \<and> getUserPointer i s \<noteq> None \<and> ws_inv w)
     \<and> (\<forall>w \<in> set (destroyed s). wsState w = WsClosed)"

text \<open>A change that keeps the invariant, never lowers \<open>lastId\<close> and never brings a handle back.\<close>

definition sound :: "capi \<Rightarrow> capi \<Rightarrow> bool" where
  "sound s s' \<longleftrightarrow> capi_inv s' \<and> lastId s \<le> lastId s'
     \<and> (\<forall>i \<le> lastId s. map_of (webSocketMap s) i = None \<longrightarrow> map_of (webSocketMap s') i = None)"

lemma sound_refl: "capi_inv s \<Longrightarrow> sound s s"
  by (simp add: sound_def)

lemma sound_trans: "sound a b \<Longrightarrow> sound b c \<Longrightarrow> sound a c"
  by (auto simp: sound_def)

lemma distinct_um:
  assumes "distinct (map fst m)"
  shows "distinct (map fst (um_emplace k v m))" "distinct (map fst (um_assign k v m))" "distinct (map fst (snd (um_erase k m)))"
proof -
  have "map (fst \<circ> (\<lambda>(k', v'). (k', if k' = k then v else v'))) m = map fst m" by (induction m) auto
  moreover have "map_of m k = None \<Longrightarrow> k \<notin> fst ` set m" by (simp add: map_of_eq_None_iff)
  moreover have "distinct (map fst (filter (\<lambda>(k', v'). k' \<noteq> k) m))" using assms by (rule distinct_map_filter)
  ultimately show "distinct (map fst (um_emplace k v m))" "distinct (map fst (um_assign k v m))"
    "distinct (map fst (snd (um_erase k m)))"
    using assms by (simp_all add: um_emplace_def um_assign_def um_erase_def del: map_eq_conv split: option.splits)
qed

lemma set_pointer_sound: "capi_inv s \<Longrightarrow> sound s (setUserPointer i p s)"
  by (auto simp: sound_def capi_inv_def setUserPointer_def getUserPointer_def)

lemma put_sound:
  "capi_inv s \<Longrightarrow> map_of (webSocketMap s) i = Some w \<Longrightarrow> ws_inv w' \<Longrightarrow> sound s (putWebSocket i w' s)"
  by (auto simp: sound_def capi_inv_def putWebSocket_def getUserPointer_def distinct_um)

lemma destroy_closed: "ws_inv w \<Longrightarrow> wsState (WebSocket_destroy w) = WsClosed"
  using remoteClose_inv(2) by (simp add: WebSocket_destroy_def Channel_resetCallbacks_def)

lemma erase_sound:
  assumes "capi_inv s" "map_of (webSocketMap s) i = Some w"
  shows "\<exists>s'. eraseWebSocket i s = (Inr (), s') \<and> eraseChannel i s = (Inr (), s') \<and> sound s s'
    \<and> map_of (webSocketMap s') i = None \<and> getUserPointer i s' = None
    \<and> destroyed s' = destroyed s @ [WebSocket_destroy w]"
proof -
  obtain m where m: "um_erase i (webSocketMap s) = (1, m)" using assms(2) by (simp add: um_erase_def)
  let ?s = "s\<lparr>webSocketMap := m, userPointerMap := snd (um_erase i (userPointerMap s)),
     destroyed := destroyed s @ [WebSocket_destroy w]\<rparr>"
  have f: "map_of m j = (if j = i then None else map_of (webSocketMap s) j)" for j
    using um_find(3) [of i "webSocketMap s" j] m by simp
  have d: "distinct (map fst m)" using distinct_um(3) [of "webSocketMap s" i] assms(1) m by (simp add: capi_inv_def)
  have "wsState (WebSocket_destroy w) = WsClosed" using assms by (intro destroy_closed) (auto simp: capi_inv_def)
  then have "sound s ?s" using assms f d by (auto simp: sound_def capi_inv_def getUserPointer_def)
  moreover have "eraseWebSocket i s = (Inr (), ?s)" "eraseChannel i s = (Inr (), ?s)"
    using assms(2) m by (simp_all add: eraseWebSocket_def eraseChannel_def)
  ultimately show ?thesis using f by (auto simp: getUserPointer_def)
qed

lemma emplace_sound:
  assumes "capi_inv s" "ws_inv w" "emplaceWebSocket w s = (i, s')"
  shows "sound s s'" "i = lastId s + 1" "map_of (webSocketMap s) i = None" "map_of (webSocketMap s') i = Some w"
proof -
  let ?i = "lastId s + 1"
  have n: "map_of (webSocketMap s) ?i = None"
    using assms(1) by (cases "map_of (webSocketMap s) ?i") (force simp: capi_inv_def)+
  have e: "i = ?i" "s' = s\<lparr>lastId := ?i, webSocketMap := um_emplace ?i w (webSocketMap s),
      userPointerMap := um_emplace ?i nullptr (userPointerMap s)\<rparr>"
    using assms(3) by (auto simp: emplaceWebSocket_def Let_def)
  show "i = ?i" "map_of (webSocketMap s) i = None" "map_of (webSocketMap s') i = Some w" using e n by simp_all
  have "1 \<le> j \<and> j \<le> lastId s' \<and> getUserPointer j s' \<noteq> None \<and> ws_inv v" if "map_of (webSocketMap s') j = Some v" for j v
    using that assms(1,2) n e by (force simp: capi_inv_def getUserPointer_def split: if_splits)
  then show "sound s s'"
    using assms(1) e n by (auto simp: sound_def capi_inv_def distinct_um)
qed

lemma eraseAll_sound: "capi_inv s \<Longrightarrow> sound s (snd (eraseAll s))"
proof -
  assume inv: "capi_inv s"
  have "wsState (WebSocket_destroy w) = WsClosed" if "(i, w) \<in> set (webSocketMap s)" for i w
    using that inv by (intro destroy_closed) (auto simp: capi_inv_def map_of_eq_Some_iff)
  then show ?thesis using inv by (auto simp: sound_def capi_inv_def eraseAll_def)
qed

lemma with_channel_sound:
  assumes "capi_inv s" "\<And>w. ws_inv w \<Longrightarrow> ws_inv (snd (f w))"
  shows "sound s (snd (with_channel i f s))"
proof (cases "map_of (webSocketMap s) i")
  case None
  then show ?thesis using sound_refl [OF assms(1)] by (simp add: with_channel_def getChannel_def wrap_def)
next
  case (Some w)
  obtain r w' where f: "f w = (r, w')" by fastforce
  have "ws_inv w'" using assms Some f by (metis capi_inv_def snd_conv)
  then have "sound s (putWebSocket i w' s)" by (rule put_sound [OF assms(1) Some])
  then show ?thesis using Some f by (simp add: with_channel_def getChannel_def wrap_def split: sum.splits exn.splits)
qed

lemma wrap_state [simp]: "snd (wrap (r, s)) = s"
  by (simp add: wrap_def split: sum.splits exn.splits)

lemma channel_inv:
  assumes "ws_inv w"
  shows "ws_inv (snd (WebSocket_receive w))" "ws_inv (snd (WebSocket_peek w))" "ws_inv (Channel_onOpen f w)"
    "ws_inv (Channel_onClosed f w)" "ws_inv (Channel_onError f w)" "ws_inv (Channel_onMessage f w)"
    "ws_inv (Channel_onAvailable f w)" "ws_inv (Channel_onBufferedAmountLow f w)"
    "ws_inv (Channel_setBufferedAmountLowThreshold n w)" "ws_inv (Channel_resetCallbacks w)"
  using channel_steps [THEN api_step_inv, OF assms] by simp_all

lemma receive_into_inv:
  assumes "ws_inv w"
  shows "ws_inv (snd (receive_into b n w))"
proof -
  obtain v u where p: "WebSocket_peek w = (v, u)" by fastforce
  have u: "ws_inv u" "ws_inv (snd (WebSocket_receive u))" using channel_inv(2) [OF assms] p channel_inv(1) by simp_all
  show ?thesis using u
    by (simp add: receive_into_def p Let_def split: option.splits message_variant.splits prod.splits)
qed

lemma create_sound:
  assumes "capi_inv s" "\<And>w. made = Inr w \<Longrightarrow> ws_inv w"
  shows "sound s (snd (create_open W url made s))"
proof (cases made)
  case (Inr w)
  obtain r v where o: "WebSocket_open W url w = (r, v)" by fastforce
  have v: "ws_inv v" using open_inv [OF assms(2) [OF Inr], of W url] o by simp
  show ?thesis
  proof (cases r)
    case (Inl e)
    have "sound s (s\<lparr>destroyed := destroyed s @ [WebSocket_destroy v]\<rparr>)"
      using assms(1) destroy_closed [OF v] by (auto simp: sound_def capi_inv_def getUserPointer_def)
    then show ?thesis using Inr o Inl by (simp add: create_open_def)
  next
    case (Inr u)
    obtain i s' where e: "emplaceWebSocket v s = (i, s')" by fastforce
    then show ?thesis using emplace_sound(1) [OF assms(1) v e] \<open>made = _\<close> o Inr by (simp add: create_open_def)
  qed
qed (simp add: create_open_def sound_refl assms(1))

lemma delete_effect:
  assumes "capi_inv s" "map_of (webSocketMap s) i = Some w"
  shows "\<exists>s'. wscDelete i s = (WSC_ERR_SUCCESS, s') \<and> sound s s' \<and> map_of (webSocketMap s') i = None \<and> getUserPointer i s' = None
      \<and> destroyed s' = destroyed s @ [WebSocket_destroy (WebSocket_close w)]"
    "\<exists>s'. wscDeleteWebSocket i s = (WSC_ERR_SUCCESS, s') \<and> sound s s' \<and> map_of (webSocketMap s') i = None \<and> getUserPointer i s' = None
      \<and> destroyed s' = destroyed s @ [WebSocket_destroy (Channel_resetCallbacks (WebSocket_remoteClose w))]"
proof -
  have w: "ws_inv w" using assms by (auto simp: capi_inv_def)
  have *: "\<exists>s'. eraseWebSocket i (putWebSocket i v s) = (Inr (), s') \<and> eraseChannel i (putWebSocket i v s) = (Inr (), s')
      \<and> sound s s' \<and> map_of (webSocketMap s') i = None \<and> getUserPointer i s' = None \<and> destroyed s' = destroyed s @ [WebSocket_destroy v]"
    if "ws_inv v" for v
  proof -
    have p: "sound s (putWebSocket i v s)" by (rule put_sound [OF assms that])
    then have "capi_inv (putWebSocket i v s)" "map_of (webSocketMap (putWebSocket i v s)) i = Some v"
      "destroyed (putWebSocket i v s) = destroyed s" by (simp_all add: sound_def putWebSocket_def)
    from erase_sound [OF this(1,2)] sound_trans [OF p] this(3) show ?thesis by auto
  qed
  show "\<exists>s'. wscDelete i s = (WSC_ERR_SUCCESS, s') \<and> sound s s' \<and> map_of (webSocketMap s') i = None \<and> getUserPointer i s' = None
      \<and> destroyed s' = destroyed s @ [WebSocket_destroy (WebSocket_close w)]"
    using * [of "WebSocket_close w"] close_inv [OF w] assms(2) by (auto simp: wscDelete_def getChannel_def wrap_def)
  show "\<exists>s'. wscDeleteWebSocket i s = (WSC_ERR_SUCCESS, s') \<and> sound s s' \<and> map_of (webSocketMap s') i = None \<and> getUserPointer i s' = None
      \<and> destroyed s' = destroyed s @ [WebSocket_destroy (Channel_resetCallbacks (WebSocket_remoteClose w))]"
    using * [OF channel_inv(10) [OF remoteClose_inv(1) [OF w]]] assms(2)
    by (auto simp: wscDeleteWebSocket_def getWebSocket_def wrap_def)
qed

lemma delete_sound:
  assumes "capi_inv s"
  shows "sound s (snd (wscDelete i s))" "sound s (snd (wscDeleteWebSocket i s))"
  using delete_effect [OF assms, of i] sound_refl [OF assms]
  by (cases "map_of (webSocketMap s) i"; force simp: wscDelete_def wscDeleteWebSocket_def getChannel_def getWebSocket_def)+

lemma receive_sound:
  assumes "capi_inv s" "wscReceiveMessage i b n s = (r, n', b', s')"
  shows "sound s s'"
proof (cases "map_of (webSocketMap s) i = None \<or> n = None")
  case True
  then show ?thesis using assms sound_refl by (auto simp: wscReceiveMessage_def getChannel_def split: option.splits)
next
  case False
  then obtain w k where w: "map_of (webSocketMap s) i = Some w" "n = Some k" by auto
  then have "ws_inv w" using assms(1) by (auto simp: capi_inv_def)
  then have "sound s (putWebSocket i (snd (receive_into b k w)) s)" by (intro put_sound [OF assms(1) w(1)] receive_into_inv)
  then show ?thesis using assms(2) w by (auto simp: wscReceiveMessage_def getChannel_def split: prod.splits)
qed

lemma capi_step_sound: "capi_step W s s' \<Longrightarrow> capi_inv s \<Longrightarrow> sound s s'"
proof (induction rule: capi_step.induct)
  case (create s url)
  then show ?case using create_sound new_inv by (simp add: wscCreateWebSocket_def)
next
  case (create_ex s u c)
  then show ?case using create_sound new_inv sound_refl
    by (simp add: wscCreateWebSocketEx_def split: option.splits sum.splits)
next
  case (cleanup s t)
  then show ?case using eraseAll_sound by (simp add: wscCleanup_def)
next
  case (internal s i w w')
  then have "ws_inv w'" using api_step_inv by (auto simp: capi_inv_def)
  then show ?case using put_sound internal by blast
qed (simp_all add: wscSetUserPointer_def set_pointer_sound wscSetOpenCallback_def wscSetClosedCallback_def
    wscSetErrorCallback_def wscSetMessageCallback_def wscSetBufferedAmountLowCallback_def wscSetAvailableCallback_def
    wscSendMessage_def wscClose_def wscSetBufferedAmountLowThreshold_def with_channel_sound channel_inv close_inv
    delete_sound receive_sound)

lemma capi_steps_sound: "(capi_step W)\<^sup>*\<^sup>* s s' \<Longrightarrow> capi_inv s \<Longrightarrow> sound s s'"
proof (induction rule: rtranclp_induct)
  case (step a b)
  then show ?case using capi_step_sound sound_trans by (simp add: sound_def) (metis order_trans)
qed (rule sound_refl)

lemma capi_new_inv: "capi_inv capi_new"
  by (simp add: capi_inv_def capi_new_def)

section \<open>Receiving into a buffer\<close>

lemma to_int_small: "n < 2 ^ 31 \<Longrightarrow> to_int n = int n"
proof -
  assume "n < 2 ^ 31"
  then have "int n < 2 ^ 31" by simp
  moreover have "sint (word_of_int (int n) :: 32 word) = signed_take_bit 31 (int n)" by (simp only: signed_of_int) simp
  ultimately show ?thesis by (simp add: to_int_def signed_take_bit_int_eq_self)
qed

text \<open>A message that fits is copied, its size returned, and taken from the queue; strings with a final zero.\<close>

lemma receive_into_string:
  assumes "mQueue (mRecvQueue w) = m # ms" "type m = String" "length (data m) + 1 < 2 ^ 31"
    and "int (length (data m)) + 1 \<le> \<bar>n\<bar>"
  shows "\<exists>w'. receive_into (Some buf) n w = ((WSC_ERR_SUCCESS, - int (length (data m)) - 1,
      Some (copy_to (data m @ [0]) buf)), w') \<and> mQueue (mRecvQueue w') = ms"
  using assms to_int_small [OF assms(3)]
  by (auto simp: receive_into_def Let_def WebSocket_peek_def Queue_peek_def to_variant_move_def
      copyAndReturn_string_def WebSocket_receive_def Channel_receive_def Queue_pop_def comp_def)

lemma receive_into_binary:
  assumes "mQueue (mRecvQueue w) = m # ms" "type m = Binary" "length (data m) < 2 ^ 31" "int (length (data m)) \<le> \<bar>n\<bar>"
  shows "\<exists>w'. receive_into (Some buf) n w = ((WSC_ERR_SUCCESS, int (length (data m)), Some (copy_to (data m) buf)), w')
      \<and> mQueue (mRecvQueue w') = ms"
  using assms to_int_small [OF assms(3)]
  by (auto simp: receive_into_def Let_def WebSocket_peek_def Queue_peek_def to_variant_move_def
      copyAndReturn_binary_def WebSocket_receive_def Channel_receive_def Queue_pop_def)

text \<open>
  A binary message whose size is only asked for (no buffer), or that does not fit, is left empty in the
  queue.
\<close>

lemma receive_into_lost:
  assumes "mQueue (mRecvQueue w) = m # ms" "type m = Binary" "length (data m) < 2 ^ 31"
    and "buffer = None \<or> \<bar>n\<bar> < int (length (data m))"
  shows "\<exists>w'. receive_into buffer n w =
      ((if buffer = None then (WSC_ERR_SUCCESS, int (length (data m)), buffer) else (WSC_ERR_TOO_SMALL, 0, buffer)), w')
      \<and> mQueue (mRecvQueue w') = m\<lparr>data := []\<rparr> # ms"
proof -
  let ?w = "w\<lparr>mRecvQueue := (mRecvQueue w)\<lparr>mQueue := m\<lparr>data := []\<rparr> # ms\<rparr>\<rparr>"
  have p: "WebSocket_peek w = (Some (VBinary (data m)), ?w)"
    using assms(1,2) by (simp add: WebSocket_peek_def Queue_peek_def to_variant_move_def)
  show ?thesis
  proof (cases buffer)
    case None
    then show ?thesis using to_int_small [OF assms(3)]
      by (simp add: receive_into_def Let_def p copyAndReturn_binary_def)
  next
    case (Some buf)
    then have "copyAndReturn_binary (data m) buffer \<bar>n\<bar> = (WSC_ERR_TOO_SMALL, buffer)"
      using assms(4) to_int_small [OF assms(3)] by (simp add: copyAndReturn_binary_def)
    then show ?thesis using Some by (simp add: receive_into_def Let_def p to_int_def)
  qed
qed

text \<open>
  Receiving a binary message this way does not lower the amount that is reported as available: the
  message has been emptied when it leaves the queue.
\<close>

lemma receive_amount:
  assumes "mQueue (mRecvQueue w) = m # ms" "type m = Binary" "length (data m) < 2 ^ 31" "int (length (data m)) \<le> \<bar>n\<bar>"
    and "mAmountFunction (mRecvQueue w) = message_size_func"
  shows "WebSocket_availableAmount (snd (receive_into (Some buf) n w)) = WebSocket_availableAmount w"
  using assms to_int_small [OF assms(3)]
  by (simp add: receive_into_def Let_def WebSocket_peek_def Queue_peek_def to_variant_move_def message_size_func_def
      copyAndReturn_binary_def WebSocket_receive_def Channel_receive_def Queue_pop_def WebSocket_availableAmount_def Queue_amount_def)

text \<open>\<open>receive\<close> of the C++ interface lowers it by the size of the message.\<close>

lemma receive_amount_expected:
  assumes "mQueue (mRecvQueue w) = m # ms" "mAmountFunction (mRecvQueue w) = message_size_func" "type m = Binary"
  shows "WebSocket_availableAmount (snd (WebSocket_receive w)) = WebSocket_availableAmount w - word_of_nat (length (data m))"
  using assms by (simp add: WebSocket_receive_def Channel_receive_def Queue_pop_def WebSocket_availableAmount_def
      Queue_amount_def message_size_func_def)

end
