(* ===== verification/Wsc_Log.thy ===== *)
theory Wsc_Log
  imports Main
begin

text \<open>
  Configuring the log (\<open>src/global.cpp\<close> and \<open>wscInitLogger\<close> of \<open>src/capi.cpp\<close>). The logging library (plog) is
  not part of the sources: which of its appenders a record reaches is a parameter \<open>dispatch\<close> of the model, given
  the severity configured, the appenders and the severity of the record. Callbacks and appenders of the
  application are numbers.
\<close>

datatype LogLevel = LogNone | LogFatal | LogError | LogWarning | LogInfo | LogDebug | LogVerbose

fun log_severity :: "LogLevel \<Rightarrow> nat" where
  "log_severity LogNone = 0"
| "log_severity LogFatal = 1"
| "log_severity LogError = 2"
| "log_severity LogWarning = 3"
| "log_severity LogInfo = 4"
| "log_severity LogDebug = 5"
| "log_severity LogVerbose = 6"

fun log_level_name :: "LogLevel \<Rightarrow> string" where
  "log_level_name LogFatal = ''fatal''"
| "log_level_name LogError = ''error''"
| "log_level_name LogWarning = ''warning''"
| "log_level_name LogInfo = ''info''"
| "log_level_name LogDebug = ''debug''"
| "log_level_name LogVerbose = ''verbose''"
| "log_level_name LogNone = ''none''"

datatype appender = ColorConsoleAppender | LogAppender | OwnAppender nat

record Logger =
  maxSeverity :: nat
  appenders :: "appender list"

text \<open>
  The static variables: the logger of \<open>plogInit\<close>, and the appender of \<open>InitLogger\<close> with the callback it holds.
\<close>

record log_state =
  the_logger :: "Logger option"
  the_appender :: "nat option option"

definition log_initial :: log_state where
  "log_initial = \<lparr>the_logger = None, the_appender = None\<rparr>"

definition plogInit :: "nat \<Rightarrow> appender option \<Rightarrow> log_state \<Rightarrow> log_state" where
  "plogInit severity app s =
     (case the_logger s of
        None \<Rightarrow>
          s\<lparr>the_logger := Some \<lparr>maxSeverity = severity,
             appenders = [case app of Some a \<Rightarrow> a | None \<Rightarrow> ColorConsoleAppender]\<rparr>\<rparr>
      | Some l \<Rightarrow>
          let l = l\<lparr>maxSeverity := severity\<rparr>
          in s\<lparr>the_logger := Some (case app of Some a \<Rightarrow> l\<lparr>appenders := appenders l @ [a]\<rparr> | None \<Rightarrow> l)\<rparr>)"

definition InitLogger :: "LogLevel \<Rightarrow> nat option \<Rightarrow> log_state \<Rightarrow> log_state" where
  "InitLogger level callback s =
     (let severity = log_severity level
      in if the_appender s \<noteq> None then plogInit severity None (s\<lparr>the_appender := Some callback\<rparr>)
         else if callback \<noteq> None then plogInit severity (Some LogAppender) (s\<lparr>the_appender := Some callback\<rparr>)
         else plogInit severity None s)"

definition wscInitLogger :: "LogLevel \<Rightarrow> nat option \<Rightarrow> log_state \<Rightarrow> log_state" where
  "wscInitLogger level cb s = InitLogger level cb s"

text \<open>What a record leads to: \<open>write\<close> of \<open>LogAppender\<close> calls the callback, or prints the record without one.\<close>

datatype log_output = ToCallback nat nat string | ToCout nat string | ToConsole nat string | ToOwn nat nat string

definition LogAppender_write :: "nat option \<Rightarrow> nat \<Rightarrow> string \<Rightarrow> log_output" where
  "LogAppender_write callback severity formatted =
     (let formatted = butlast formatted
      in case callback of Some f \<Rightarrow> ToCallback f severity formatted | None \<Rightarrow> ToCout severity formatted)"

definition log_record ::
  "(nat \<Rightarrow> appender list \<Rightarrow> nat \<Rightarrow> appender list) \<Rightarrow> nat \<Rightarrow> string \<Rightarrow> log_state \<Rightarrow> log_output list" where
  "log_record dispatch severity formatted s =
     (case the_logger s of
        None \<Rightarrow> []
      | Some l \<Rightarrow>
          map (\<lambda>a. case a of
                 LogAppender \<Rightarrow> LogAppender_write (Option.bind (the_appender s) id) severity formatted
               | ColorConsoleAppender \<Rightarrow> ToConsole severity formatted
               | OwnAppender n \<Rightarrow> ToOwn n severity formatted)
            (dispatch (maxSeverity l) (appenders l) severity))"

section \<open>After any sequence of calls\<close>

definition init_loggers :: "(LogLevel \<times> nat option) list \<Rightarrow> log_state" where
  "init_loggers calls = fold (\<lambda>(level, callback). InitLogger level callback) calls log_initial"

lemma init_loggers_append: "init_loggers (cs @ [(level, callback)]) = InitLogger level callback (init_loggers cs)"
  by (simp add: init_loggers_def)

text \<open>
  The severity and the callback are those of the last call. The appender for callbacks is added once, with the
  first callback, and the console is added if the first call comes without one: it stays then.
\<close>

lemma init_loggers_state:
  "cs \<noteq> [] \<Longrightarrow>
   the_logger (init_loggers cs) = Some \<lparr>maxSeverity = log_severity (fst (last cs)),
     appenders = (if snd (hd cs) = None then [ColorConsoleAppender] else [])
       @ (if \<exists>c\<in>set cs. snd c \<noteq> None then [LogAppender] else [])\<rparr>
   \<and> the_appender (init_loggers cs) = (if \<exists>c\<in>set cs. snd c \<noteq> None then Some (snd (last cs)) else None)"
proof (induction cs rule: rev_induct)
  case (snoc c cs)
  obtain level callback where c: "c = (level, callback)" by (cases c)
  show ?case
  proof (cases "cs = []")
    case True
    then show ?thesis by (simp add: c init_loggers_def InitLogger_def plogInit_def log_initial_def Let_def)
  next
    case False
    note ih = snoc.IH [OF False]
    show ?thesis
      using ih False unfolding c init_loggers_append
      by (cases "\<exists>c\<in>set cs. snd c \<noteq> None") (auto simp: InitLogger_def plogInit_def Let_def)
  qed
qed simp

text \<open>
  With a library that passes a record to its appenders if the severity allows it, each such record reaches the
  last callback exactly once, and nothing else unless the first call had no callback.
\<close>

lemma log_record_once:
  assumes "\<And>mx as sev. dispatch mx as sev = (if sev \<le> mx then as else [])"
    and "cs \<noteq> []" "last cs = (level, Some f)"
  shows "log_record dispatch severity formatted (init_loggers cs) =
    (if severity \<le> log_severity level
     then (if snd (hd cs) = None then [ToConsole severity formatted] else []) @ [ToCallback f severity (butlast formatted)]
     else [])"
proof -
  have "(level, Some f) \<in> set cs" using assms(2,3) by (metis last_in_set)
  then have "\<exists>c\<in>set cs. snd c \<noteq> None" by force
  with init_loggers_state [OF assms(2)] assms(1,3) show ?thesis
    by (simp add: log_record_def LogAppender_write_def)
qed

end
