(* ===== verification/Spec2Isabelle.thy ===== *)
theory Spec2Isabelle
  imports Wsc_App Wsc_Interrupter Wsc_HttpProxy Wsc_TlsReceive Wsc_TlsLife Wsc_CertGenerate Wsc_ThreadPool Wsc_CApi Wsc_Log
begin

text \<open>
  A verification development for websocket-client, a WebSocket client library in C++ (the sources are under
  \<open>src/\<close>; paths below are relative to it).

  \<^bold>\<open>The program.\<close> An application creates a \<open>WebSocket\<close> (\<open>src/websocket.cpp\<close>, or handles of the C interface
  \<open>src/capi.cpp\<close>) and opens a URL. The object (\<open>src/impl/websocketimpl.cpp\<close>) stacks transports on each
  other as each reports that it is connected: TCP (\<open>tcptransport.cpp\<close>), an HTTP proxy tunnel
  (\<open>httpproxytransport.cpp\<close>) if configured, TLS (\<open>tlstransport.cpp\<close>) for \<open>wss\<close>, and the WebSocket protocol
  itself (\<open>wstransport.cpp\<close>, \<open>wshandshake.cpp\<close>, \<open>http.cpp\<close>). A transport sends through the one below it and gets
  what that one receives through a callback. Sockets are watched by one poll thread (\<open>pollservice.cpp\<close>,
  \<open>pollinterrupter.cpp\<close>); callbacks, timers and tear-down run on a thread pool (\<open>threadpool.cpp\<close>, \<open>processor.cpp\<close>);
  global state is kept alive by tokens (\<open>init.cpp\<close>). Messages (\<open>message.cpp\<close>) wait in bounded queues
  (\<open>queue.hpp\<close>) and reach the application through the callbacks of a channel (\<open>channel.cpp\<close>).

  \<^bold>\<open>The theories.\<close> Each definition keeps the name of the function it models, prefixed by its class.

  \<^item> \<open>Wsc_Prelude\<close>: bytes, strings, exceptions as values (\<open>'a res\<close>), shared lemmas. \<open>Wsc_Utils\<close>: \<open>explode\<close>, \<open>implode\<close>,
    \<open>url_decode\<close>, \<open>base64_encode\<close> of \<open>utils.cpp\<close>. \<open>Wsc_Queue\<close>: \<open>Queue\<close>, with the interface \<open>fifo_queue\<close> as a locale.
    \<open>Wsc_Message\<close>: messages and variants; \<open>to_variant_move\<close> shows what moving leaves behind.
  \<^item> \<open>Wsc_Http\<close>, \<open>Wsc_WsHandshake\<close>: header parsing, the upgrade request and response. SHA-1 and the random source are
    parameters (fields of \<open>ws_env\<close>).
  \<^item> \<open>Wsc_WsFrame\<close>: \<open>parseFrame\<close> and the encoding of \<open>sendFrame\<close>, with lengths as the 64-bit code computes them.
  \<^item> \<open>Wsc_Transport\<close>: the base class, and the locale \<open>byte_stream\<close>: what a transport relies on in the one below it.
    \<open>Wsc_TcpTransport\<close> and \<open>Wsc_HttpProxy\<close> interpret it, the second on top of any byte stream, and \<open>Wsc_Tls\<close> shows that a
    TLS transport gives it on any byte stream too, for a session that behaves as documented.
  \<^item> \<open>Wsc_WsTransport\<close>: the WebSocket transport, every method; \<open>Wsc_WsReceive\<close>: reception and sending against the
    reference function \<open>reassemble\<close>; \<open>Wsc_WsLife\<close>: its steps, bounds, keep-alive and handshake;
    \<open>Wsc_Session\<close>: two transports at the ends of a TCP connection.
    \<open>Wsc_App\<close>: the order of the callbacks of a transport (\<open>follows\<close>), and a WebSocket object with its transport as one
    system (\<open>app_step\<close>).
  \<^item> \<open>Wsc_Tls\<close>: the OpenSSL branch of \<open>tlstransport.cpp\<close> and \<open>check_error\<close>, with sending; \<open>Wsc_TlsReceive\<close>: \<open>doRecv\<close>, and the
    interleaving of poll thread, pool and senders; \<open>Wsc_TlsPull\<close>: the GnuTLS and Mbed TLS branches with their callbacks;
    \<open>Wsc_Calls\<close> and \<open>Wsc_TlsSetup\<close>: the constructors of \<open>tlstransport.cpp\<close> and \<open>verifiedtlstransport.cpp\<close> in the three
    builds, as sequences of calls with their handlers; \<open>Wsc_TlsLife\<close>: the destructors, the callbacks with their return codes, and
    the helpers of \<open>tls.cpp\<close>. The TLS libraries are parameters; what OpenSSL documents of a session is
    the predicate \<open>ssl_documented\<close>.
  \<^item> \<open>Wsc_Certificate\<close>: fingerprints, and importing certificates with OpenSSL (\<open>certificate.cpp\<close>, \<open>BIO_new_from_file\<close> of \<open>tls.cpp\<close>),
    with every use of a BIO recorded; \<open>Wsc_CertGenerate\<close>: generating certificates in the three builds, and importing them in
    the other two.
  \<^item> \<open>Wsc_PollService\<close>: registration, \<open>prepare\<close>, \<open>process\<close>, \<open>runLoop\<close>; \<open>Wsc_Interrupter\<close>: the pipe of \<open>pollinterrupter.cpp\<close>,
    refining the count of bytes that the former keeps of it. \<open>Wsc_ThreadPool\<close>: the pool with its workers as
    interleaved steps, and the processor. \<open>Wsc_Init\<close>: tokens, preload, cleanup and the cleanup threads.
  \<^item> \<open>Wsc_Url\<close>: the regular expression for URLs and \<open>ProxyServer\<close>. \<open>Wsc_Channel\<close>: stored callbacks and channels.
    \<open>Wsc_WebSocket\<close>: the object, from \<open>open\<close> to \<open>closeTransports\<close>. \<open>Wsc_CApi\<close>: the functions of the C interface.
    \<open>Wsc_Log\<close>: configuring the log (\<open>global.cpp\<close>), with plog as a parameter.
  \<^item> This theory: the properties, numbered C1 to C40, with the concrete objects to which the witnesses apply them.

  \<^bold>\<open>How effects are modelled.\<close> An object is a record and a method a function on it; an exception is \<open>Inl\<close>; a call of the
  operating system takes its result from an environment record (\<open>tcp_env\<close>, \<open>ws_env\<close>, \<open>ws_world\<close>), indexed by the number of
  calls made so far, so that every behaviour of the network is covered. A lower transport is part of the record of the
  upper one. What is handed to the layer above is kept in \<open>trace\<close>, what the WebSocket object does to its transports in
  \<open>effects\<close>, and the calls of the callbacks of the application in \<open>calls\<close>. Each method runs atomically, as the mutexes of the sources make it;
  concurrency is the interleaving of methods in the step relations \<open>tcp_step\<close>, \<open>ws_step\<close>, \<open>api_step\<close>, \<open>app_step\<close>, \<open>capi_step\<close>, \<open>pool_step\<close>,
  \<open>processor_step\<close>, \<open>tls_step\<close> and in the event sequences of \<open>init_run\<close>. Every loop of the sources is a terminating function with a
  measure, except those whose end depends on a TLS library: these are partial functions, with the theorem that they end
  for a library that behaves as documented. No fuel is used.

  \<^bold>\<open>What is shown.\<close> C1 to C6, C17 and C18: end-to-end delivery, reassembly, handshake, a whole session up to the
  application, codec, and delivery through a tunnel and over TLS. C7 to C9: the TCP transport. C10 to C16: bounds, the order of
  callbacks, keep-alive, the accept key and the tunnel. C19 to C23: TLS. C24 to C26: certificates. C27 to C30: the
  WebSocket object and the object with its transport as one system. C31 and C32: the C interface. C33 to C38: initialisation,
  pool, processor, queue and poll service. C39 and C40: URLs and encodings. C13, C23, C30 and C32 state behaviour of the code
  that its comments or interface do not lead one to expect. Further theorems, without a
  number, stand beside them.

  \<^bold>\<open>Not modelled.\<close> What the TLS libraries and the digests compute: they are parameters, and \<open>sha.cpp\<close> only calls one of them.
  The records logged and thread names have no effect on the behaviour modelled. Conditional code for Windows and for the server
  side that has no caller in the library is left out, as are destructors that only log. Allocation that fails is not considered,
  except where the code tests for it. Time is a natural number of milliseconds.
\<close>

section \<open>Example objects\<close>

text \<open>
  A network whose sockets take up to five bytes at a time, an open TCP connection on it, and an open
  WebSocket on top of that connection. They serve to apply the theorems below to concrete values.
\<close>

definition demo_net :: "unit tcp_env" where
  "demo_net = \<lparr>net_send = (\<lambda>n. if n mod 3 = 2 then SendAgain else SendLen 5), net_resolve = (\<lambda>h s. Some [()]),
     net_socket = (\<lambda>n. Some (n + 3)), net_nonblock = (\<lambda>n. True), net_connect = (\<lambda>n a. True)\<rparr>"

definition demo_tcp :: "unit TcpTransport" where
  "demo_tcp = Transport.extend ((Transport_new None True)\<lparr>mState := Connected\<rparr>)
     (TcpTransport.fields True ''localhost'' ''80'' False None [] (Some 3) (Queue_new 0 None) 0 [] 0
        (Some (In, None, ProcessCallback)) [] [] [3])"

definition demo_env :: "unit TcpTransport ws_env" where
  "demo_env = \<lparr>env_ops = tcp_ops demo_net, env_sha1 = (\<lambda>b. take 20 (b @ replicate 20 0)), env_random = (\<lambda>n i. word_of_nat (7 * n + i))\<rparr>"

definition demo_ws :: "bool \<Rightarrow> unit TcpTransport WsTransport" where
  "demo_ws client = (WsTransport_new demo_tcp client
     \<lparr>mHost = ''localhost'', mPath = ''/'', mProtocols = [''chat''], mKey = []\<rparr> (Some 1000) (Some 2) True 0)\<lparr>mState := Connected\<rparr>"

lemma demo_usable: "TcpTransport_usable demo_net demo_tcp"
  by (simp add: TcpTransport_usable_def net_reliable_def demo_net_def demo_tcp_def tcp_inv_def pending_def
      Transport_new_def Queue_new_def Transport.defs TcpTransport.defs)

lemma demo_simps:
  "env_ops demo_env = tcp_ops demo_net" "open_with (TcpTransport_usable demo_net) (demo_ws b)"
  "mRecvCallback (demo_ws b)" "mIgnoreLength (demo_ws b) = 0" "mBuffer (demo_ws b) = []" "mPartial (demo_ws b) = []"
  "mMaxMessageSize (demo_ws b) = 1000" "mIsClient (demo_ws b) = b" "mOutstandingPings (demo_ws b) = 0"
  "mMaxOutstandingPings (demo_ws b) = 2" "mState (demo_ws b) = Connected" "mLower (demo_ws b) = Some demo_tcp" "mDraws (demo_ws b) = 0"
  "mCloseSent (demo_ws b) = False" "trace (demo_ws b) = []"
  using demo_usable
  by (simp_all add: demo_env_def demo_ws_def open_with_def WsTransport_new_def Transport_new_def Transport.defs WsTransport.defs)

lemma bytewise: "\<exists>cs. concat cs = b \<and> [] \<notin> set cs"
  by (rule exI [of _ "map (\<lambda>x. [x]) b"]) auto

text \<open>A WebSocket as it is constructed without a configuration.\<close>

definition demo_world :: ws_world where
  "demo_world = \<lparr>ctor_throws = (\<lambda>_ _. False), start_throws = (\<lambda>_ _. False), closed_meanwhile = (\<lambda>_ _. False),
     transport_send = (\<lambda>_ _. Inr True)\<rparr>"

definition demo_object :: WebSocket where
  "demo_object = (case WebSocket_new None False load_nothing of Inr w \<Rightarrow> w)"

lemma demo_object_new: "WebSocket_new None False load_nothing = Inr demo_object"
  by (simp add: demo_object_def WebSocket_new_def WebSocket_certificate_def Let_def default_config_def)

lemma demo_object_simps:
  "\<not> mStopping (mRecvQueue demo_object)" "messageCallback demo_object = None" "mQueue (mRecvQueue demo_object) = []"
  "mLimit (mRecvQueue demo_object) = 1024" "mOpenTriggered demo_object = False" "mAmountFunction (mRecvQueue demo_object) = message_size_func"
  "wsState demo_object = WsClosed" "mWsTransport demo_object = None" "mTlsTransport demo_object = None"
  "proxyServer (config demo_object) = None" "mIsSecure demo_object = False" "mNextId demo_object = 0" "effects demo_object = []"
  by (simp_all add: demo_object_def WebSocket_new_def WebSocket_certificate_def Let_def default_config_def Channel.defs WebSocket.defs
      Channel_new_def RECV_QUEUE_LIMIT_def Queue_new_def)

section \<open>Messages over a connection\<close>



text \<open>
  C2. Reception in full: from an open connection, any sequence of frames that RFC 6455 allows, with
  messages in any number of fragments and pings and pongs in between, cut into chunks in any way,
  delivers exactly the messages of the sequence; an unfinished message stays pending; each ping is
  answered by one pong with the same payload, and nothing else is sent.
\<close>

theorem frames_reassembled:
  assumes "env_ops E = tcp_ops N" "open_with (TcpTransport_usable N) t" "mRecvCallback t" "mIgnoreLength t = 0"
    and "mBuffer t = []" "mPartial t = []"
    and "list_all stream_frame (map snd kfs)" "list_all (frame_ok (mMaxMessageSize t)) kfs"
    and "reassemble (mMaxMessageSize t) None (map snd kfs) = Some (ms, rest)"
    and "concat cs = concat (map enc kfs)" "[] \<notin> set cs"
  shows "received (trace (WsTransport_feed E cs t)) = received (trace t) @ map message_of ms
    \<and> pending_rel rest (WsTransport_feed E cs t) \<and> mState (WsTransport_feed E cs t) = Connected
    \<and> TcpTransport_sent (the (mLower (WsTransport_feed E cs t))) =
        TcpTransport_sent (the (mLower t)) @ pongs E (mIsClient t) (mDraws t) (map snd kfs)"
  using tcp_feed_delivers [OF assms refl] by (simp add: open_with_def)

theorem frames_reassembled_witness:
  "\<exists>cs. received (trace (WsTransport_feed demo_env cs (demo_ws True))) = [Some (make_message [104, 101, 121] String)]"
proof -
  let ?kfs = "[([1, 2, 3, 4], \<lparr>opcode = TEXT_FRAME, payload = [104, 101], frame_length = 2, fin = False, frame_mask = True\<rparr>),
    ([1, 2, 3, 4], \<lparr>opcode = PING, payload = [9], frame_length = 1, fin = True, frame_mask = False\<rparr>),
    ([1, 2, 3, 4], \<lparr>opcode = CONTINUATION, payload = [121], frame_length = 1, fin = True, frame_mask = True\<rparr>)]"
  obtain cs where cs: "concat cs = concat (map enc ?kfs)" "[] \<notin> set cs" using bytewise by blast
  have ok: "list_all stream_frame (map snd ?kfs)" "list_all (frame_ok (mMaxMessageSize (demo_ws True))) ?kfs"
    "reassemble (mMaxMessageSize (demo_ws True)) None (map snd ?kfs) = Some ([(String, [104, 101, 121])], None)"
    by (simp_all add: stream_frame_def frame_ok_def wf_frame_def maxControlFrameLength_def demo_simps)
  from frames_reassembled [OF demo_simps(1) demo_simps(2-6) [of True] ok cs] show ?thesis
    by (auto simp: demo_simps message_of_def)
qed

text \<open>
  C3. The opening handshake between the two roles of the transport over TCP. The client is started
  on an open TCP connection and sends its request; the server, whatever chunks it receives it in,
  opens and answers; the client opens on the answer. Both are then connected with empty buffers, and
  the server knows the path, the host and the protocols of the client.
\<close>

theorem handshake_completes:
  assumes E: "env_ops E1 = tcp_ops N1" "env_ops E2 = tcp_ops N2" "env_sha1 E1 = env_sha1 E2"
    and c: "mState c = Disconnected" "mIsClient c" "mIgnoreLength c = 0" "mBuffer c = []" "mLower c = Some lc" "TcpTransport_usable N1 lc"
    and s: "mState s = Connecting" "\<not> mIsClient s" "mIgnoreLength s = 0" "mBuffer s = []" "mLower s = Some ls" "TcpTransport_usable N2 ls"
    and h: "handshake_ok (mHost (mHandshake c)) (mPath (mHandshake c)) (mProtocols (mHandshake c))" "mProtocols (mHandshake s) = []"
    and c1: "c1 = snd (WsTransport_start E1 c)"
  shows "\<exists>req resp. TcpTransport_sent (the (mLower c1)) = TcpTransport_sent lc @ req \<and>
    (\<forall>reqs resps. concat reqs = req \<and> [] \<notin> set reqs \<and> concat resps = resp \<and> [] \<notin> set resps \<longrightarrow>
      (let s1 = WsTransport_feed E2 reqs s; c2 = WsTransport_feed E1 resps c1
       in TcpTransport_sent (the (mLower s1)) = TcpTransport_sent ls @ resp
        \<and> mState s1 = Connected \<and> mState c2 = Connected \<and> mBuffer s1 = [] \<and> mBuffer c2 = []
        \<and> mPath (mHandshake s1) = mPath (mHandshake c) \<and> mHost (mHandshake s1) = mHost (mHandshake c)
        \<and> mProtocols (mHandshake s1) = mProtocols (mHandshake c)))"
proof -
  have ready: "handshake_ready N1 N2 E1 E2 c s" using E c s h by (simp add: handshake_ready_def)
  from session_opening [OF ready, folded c1] obtain req resp where q: "wire_of c1 = wire_of c @ req"
    "\<And>reqs. concat reqs = req \<Longrightarrow> [] \<notin> set reqs \<Longrightarrow> (let s1 = WsTransport_feed E2 reqs s in
       mState s1 = Connected \<and> wire_of s1 = wire_of s @ resp \<and> mBuffer s1 = [] \<and> mPath (mHandshake s1) = mPath (mHandshake c)
       \<and> mHost (mHandshake s1) = mHost (mHandshake c) \<and> mProtocols (mHandshake s1) = mProtocols (mHandshake c))"
    "\<And>downs. concat downs = resp @ [] \<Longrightarrow> [] \<notin> set downs \<Longrightarrow> \<exists>cs. concat cs = [] \<and> [] \<notin> set cs \<and>
       WsTransport_feed E1 downs c1 = WsTransport_feed E1 cs (session_opened c1)"
    unfolding Let_def open_with_def by blast
  have o: "WsTransport_feed E1 resps c1 = session_opened c1" if "concat resps = resp" "[] \<notin> set resps" for resps
    using q(3) [of resps] that by (auto simp: feed_nothing)
  have "mState (session_opened c1) = Connected" "mBuffer (session_opened c1) = []"
    by (simp_all add: session_opened_def Transport_changeState_def)
  with q(1,2) o c(5) s(5) show ?thesis by (intro exI [of _ req] exI [of _ resp]) (auto simp: Let_def)
qed

theorem handshake_completes_witness:
  "\<exists>reqs resps. let c = (demo_ws True)\<lparr>mState := Disconnected\<rparr>;
     s = (demo_ws False)\<lparr>mState := Connecting, mHandshake := WsHandshake_default\<rparr>
   in mState (WsTransport_feed demo_env reqs s) = Connected
     \<and> mState (WsTransport_feed demo_env resps (snd (WsTransport_start demo_env c))) = Connected
     \<and> mProtocols (mHandshake (WsTransport_feed demo_env reqs s)) = [''chat'']"
proof -
  let ?c = "(demo_ws True)\<lparr>mState := Disconnected\<rparr>"
  let ?s = "(demo_ws False)\<lparr>mState := Connecting, mHandshake := WsHandshake_default\<rparr>"
  have h: "mHandshake ?c = \<lparr>mHost = ''localhost'', mPath = ''/'', mProtocols = [''chat''], mKey = []\<rparr>"
    by (simp add: demo_ws_def WsTransport_new_def Transport.defs WsTransport.defs)
  have ok: "handshake_ok (mHost (mHandshake ?c)) (mPath (mHandshake ?c)) (mProtocols (mHandshake ?c))"
    unfolding h by (simp add: handshake_ok_def header_value_def isspace_def clean_tokens_def)
  obtain req resp where *: "\<forall>reqs resps. concat reqs = req \<and> [] \<notin> set reqs \<and> concat resps = resp \<and> [] \<notin> set resps \<longrightarrow>
      (let s1 = WsTransport_feed demo_env reqs ?s; c2 = WsTransport_feed demo_env resps (snd (WsTransport_start demo_env ?c))
       in mState s1 = Connected \<and> mState c2 = Connected \<and> mProtocols (mHandshake s1) = mProtocols (mHandshake ?c))"
    using handshake_completes [OF demo_simps(1) demo_simps(1) refl _ _ _ _ _ demo_usable _ _ _ _ _ demo_usable ok _ refl, of ?s]
    by (auto simp: demo_simps WsHandshake_default_def Let_def)
  obtain reqs resps where "concat reqs = req" "[] \<notin> set reqs" "concat resps = resp" "[] \<notin> set resps"
    using bytewise [of req] bytewise [of resp] by blast
  with * h show ?thesis by (auto simp: Let_def)
qed

text \<open>A session between two ends on the example network, with one message each way.\<close>

definition demo_client :: "unit TcpTransport WsTransport" where
  "demo_client = (demo_ws True)\<lparr>mState := Disconnected\<rparr>"

definition demo_server :: "unit TcpTransport WsTransport" where
  "demo_server = (demo_ws False)\<lparr>mState := Connecting, mHandshake := WsHandshake_default\<rparr>"

definition demo_down :: "Message list" where "demo_down = [make_message [1] Binary]"
definition demo_up :: "Message list" where "demo_up = [make_message [104, 105] String]"

lemma demo_ready: "session_ready demo_net demo_net demo_env demo_env demo_client demo_server"
proof -
  have hs: "mHandshake demo_client = \<lparr>mHost = ''localhost'', mPath = ''/'', mProtocols = [''chat''], mKey = []\<rparr>"
    by (simp add: demo_client_def demo_ws_def WsTransport_new_def Transport.defs WsTransport.defs)
  have "handshake_ok (mHost (mHandshake demo_client)) (mPath (mHandshake demo_client)) (mProtocols (mHandshake demo_client))"
    unfolding hs by (simp add: handshake_ok_def header_value_def isspace_def clean_tokens_def)
  then show ?thesis
    using demo_usable by (simp add: session_ready_def handshake_ready_def demo_simps WsHandshake_default_def demo_client_def demo_server_def)
qed

lemma demo_session_simps:
  "\<forall>m \<in> set demo_down. length (data m) \<le> mMaxMessageSize demo_client \<and> length (data m) < 2 ^ 63"
  "\<forall>m \<in> set demo_up. length (data m) \<le> mMaxMessageSize demo_server \<and> length (data m) < 2 ^ 63"
  "trace demo_client = []" "trace demo_server = []" "mStateChangeCallback demo_client"
  by (simp_all add: demo_down_def demo_up_def demo_client_def demo_server_def demo_simps)
    (simp add: demo_ws_def WsTransport_new_def Transport_new_def Transport.defs WsTransport.defs)






text \<open>
  C6. The frame codec. Whatever follows an encoded frame in the buffer, parsing it gives back the
  opcode, the final flag and the length, reports the size of the frame on the wire, and leaves the
  payload unmasked at the reported offset; a proper prefix of the frame is reported as incomplete.
\<close>

theorem frame_roundtrip:
  assumes "length k = 4" "wf_frame f" "frame_length f \<le> max maxControlFrameLength m"
  shows "(\<exists>buf fr. parseFrame m (encodeFrame k f @ rest) = Some (length (encodeFrame k f), fr, buf)
      \<and> opcode fr = opcode f \<and> fin fr = fin f \<and> frame_mask fr = frame_mask f
      \<and> take (frame_length fr) (drop (payload fr) buf) = payload f)
    \<and> (\<forall>p q. p @ q = encodeFrame k f \<and> q \<noteq> [] \<longrightarrow> parseFrame m p = None)"
proof
  have len: "frame_length f = length (payload f)" "length (frame_header k f) = header_size f"
    using assms(1,2) length_frame_header by (auto simp: wf_frame_def)
  then show "\<exists>buf fr. parseFrame m (encodeFrame k f @ rest) = Some (length (encodeFrame k f), fr, buf)
      \<and> opcode fr = opcode f \<and> fin fr = fin f \<and> frame_mask fr = frame_mask f
      \<and> take (frame_length fr) (drop (payload fr) buf) = payload f"
    by (simp add: parseFrame_encodeFrame [OF assms])
  show "\<forall>p q. p @ q = encodeFrame k f \<and> q \<noteq> [] \<longrightarrow> parseFrame m p = None"
    using parseFrame_prefix [OF assms] by blast
qed

theorem frame_roundtrip_witness:
  "parseFrame 1000 [0x81, 0x82] = None \<and> (\<exists>buf fr. parseFrame 1000 [0x81, 0x82, 1, 2, 3, 4, 105, 107, 7] = Some (8, fr, buf)
     \<and> opcode fr = TEXT_FRAME \<and> take (frame_length fr) (drop (payload fr) buf) = [104, 105])"
proof -
  let ?f = "\<lparr>opcode = TEXT_FRAME, payload = [104, 105], frame_length = 2, fin = True, frame_mask = True\<rparr>"
  have e: "encodeFrame [1, 2, 3, 4] ?f = [0x81, 0x82, 1, 2, 3, 4, 105, 107]"
    by code_simp
  have ok: "length [1, 2, 3, 4 :: byte] = 4" "wf_frame ?f" "frame_length ?f \<le> max maxControlFrameLength 1000"
    by (simp_all add: wf_frame_def maxControlFrameLength_def)
  note r = frame_roundtrip [OF ok, unfolded e]
  from conjunct2 [OF r, rule_format, of "[0x81, 0x82]" "[1, 2, 3, 4, 105, 107]"]
  have "parseFrame 1000 [0x81, 0x82] = None" by simp
  moreover from conjunct1 [OF r, of "[7]"] have "\<exists>buf fr. parseFrame 1000 [0x81, 0x82, 1, 2, 3, 4, 105, 107, 7] = Some (8, fr, buf)
     \<and> opcode fr = TEXT_FRAME \<and> take (frame_length fr) (drop (payload fr) buf) = [104, 105]" by auto
  ultimately show ?thesis ..
qed

section \<open>The TCP connection\<close>







text \<open>
  The sockets of failed attempts leak: the guard in \<open>attempt\<close> closes the old socket only when there is
  none. When the next address is tried, the descriptor is overwritten while the socket stays open.
\<close>

theorem failed_socket_leaks:
  assumes "mState t = Connecting" "mSock t = Some s" "s \<in> set (mOpen t)" "mResolved t = a # as"
    and "net_socket E (mCalls t) = Some s'" "net_nonblock E (mCalls t + 1)" "net_connect E (mCalls t + 2) a"
  shows "mSock (TcpTransport_attempt E t) = Some s' \<and> s \<in> set (mOpen (TcpTransport_attempt E t))"
  by (rule attempt_leaks [OF assms])

theorem failed_socket_leaks_witness:
  "let t = TcpTransport_attempt demo_net (demo_tcp\<lparr>mState := Connecting, mResolved := [()], mCalls := 7\<rparr>)
   in mSock t = Some 10 \<and> 3 \<in> set (mOpen t)"
  using failed_socket_leaks [of "demo_tcp\<lparr>mState := Connecting, mResolved := [()], mCalls := 7\<rparr>" 3 "()" "[]" demo_net 10]
  by (simp add: demo_tcp_def demo_net_def Transport.defs TcpTransport.defs)

section \<open>The life of a WebSocket transport\<close>

text \<open>
  C10. In every run of a WebSocket transport (sends, closings, arbitrary bytes from the network, timeouts),
  no message larger than the configured maximum is ever handed over, and the message being
  assembled from fragments never exceeds it either.
\<close>

theorem message_sizes_bounded:
  assumes "(ws_step E)\<^sup>*\<^sup>* t u" "mPartial t = []" "received (trace t) = []"
  shows "length (mPartial u) \<le> mMaxMessageSize t
    \<and> (\<forall>m. Some m \<in> set (received (trace u)) \<longrightarrow> length (data m) \<le> mMaxMessageSize t)"
  using ws_steps_sizes [OF assms(1)] assms(2,3) by (auto simp: ws_sizes_def)

theorem message_sizes_bounded_witness:
  "length (mPartial (WsTransport_incoming demo_env (Some (make_message [0x02, 0x03, 1, 2, 3] Binary)) (demo_ws True))) \<le> 1000"
  using message_sizes_bounded [OF r_into_rtranclp, OF ws_step.incoming [of demo_env "demo_ws True" "Some (make_message [0x02, 0x03, 1, 2, 3] Binary)"]]
  by (simp add: demo_simps)

text \<open>
  C11. The calls of a transport to its owner, in any run from a state in which it reports changes of state: they
  follow the automaton \<open>follows\<close>, so a transport reports to be connected at most once and only while connecting, hands
  over messages only after that, and announces the end of the messages only after reporting its own end; the last
  state reported is the state it is in.
\<close>

theorem callbacks_lawful:
  assumes "(ws_step E)\<^sup>*\<^sup>* t u" "mStateChangeCallback t"
  shows "\<exists>es. trace u = trace t @ es \<and> follows (mState t) es = Some (mState u)"
  using ws_steps_report [OF assms(1)] assms(2) unfolding reports_def by blast

theorem callbacks_lawful_witness:
  "\<exists>es. trace (WsTransport_incoming demo_env None (demo_ws True)) = es \<and> follows Connected es = Some Disconnected"
proof -
  have c: "mStateChangeCallback (demo_ws True)"
    by (simp add: demo_ws_def WsTransport_new_def Transport_new_def Transport.defs WsTransport.defs)
  have "(ws_step demo_env)\<^sup>*\<^sup>* (demo_ws True) (WsTransport_incoming demo_env None (demo_ws True))"
    by (rule r_into_rtranclp, rule ws_step.incoming)
  from callbacks_lawful [OF this c] show ?thesis
    by (simp add: demo_simps WsTransport_incoming_def WsTransport_incoming_end_def)
qed

text \<open>
  A transport that is disconnected or has failed stays so, hands over nothing more and sends nothing
  more, whatever is called on it or arrives afterwards.
\<close>

theorem gone_for_good:
  assumes "(ws_step E)\<^sup>*\<^sup>* t u" "mState t \<in> {Disconnected, Failed}"
  shows "mState u \<in> {Disconnected, Failed} \<and> received (trace u) = received (trace t) \<and> mLower u = mLower t"
  by (rule ws_steps_gone [OF assms])

theorem gone_for_good_witness:
  "let t = (demo_ws True)\<lparr>mState := Failed\<rparr>; u = snd (WsTransport_send demo_env (Some (make_message [1] Binary)) t)
   in mState u \<in> {Disconnected, Failed} \<and> mLower u = mLower t"
  using gone_for_good [OF r_into_rtranclp, OF ws_step.send [of demo_env "(demo_ws True)\<lparr>mState := Failed\<rparr>" "Some (make_message [1] Binary)"]]
  by (simp add: Let_def)

text \<open>
  A close frame is sent at most once: after the first, closing again changes nothing, in any later
  state.
\<close>

theorem close_once:
  assumes "(ws_step E)\<^sup>*\<^sup>* (WsTransport_close E t) u" "mState t = Connected" "ws_sizes t"
  shows "mCloseSent u \<and> WsTransport_close E u = u"
proof -
  have c: "mCloseSent (WsTransport_close E t)"
  proof (cases "mCloseSent t")
    case False
    let ?t = "t\<lparr>mCloseSent := True\<rparr>"
    obtain r p v where s: "WsTransport_sendFrame E (mk_frame CLOSE [] (mIsClient t)) ?t = (r, p, v)" by (metis prod_cases3)
    have v: "mCloseSent v" using quiet_sendFrame [OF s] by (simp add: quiet_def)
    have "WsTransport_close E t = (case r of Inl e \<Rightarrow> Transport_changeState Disconnected v | Inr _ \<Rightarrow> schedule_in 10 v)"
      using False assms(2) s by (simp add: WsTransport_close_def split: sum.splits)
    then show ?thesis using v by (simp add: Transport_changeState_def schedule_in_def split: sum.splits)
  qed (use assms(2) in \<open>simp add: WsTransport_close_def\<close>)
  have "ws_sizes (WsTransport_close E t)" using quiet_sizes [OF quiet_close assms(3)] .
  from ws_steps_sizes [OF assms(1) this] c show ?thesis by (simp add: WsTransport_close_def)
qed

theorem close_once_witness:
  "let u = WsTransport_close demo_env (demo_ws True) in mCloseSent u \<and> WsTransport_close demo_env u = u"
  using close_once [of demo_env "demo_ws True" "WsTransport_close demo_env (demo_ws True)"]
  by (simp add: demo_simps ws_sizes_def Let_def)

text \<open>
  C12. After each run of the loop over the received frames, what is left in the buffer is less than one
  header and one maximal payload, unless the header at the front declares a length whose sum with the size
  of the header is a multiple of \<open>2 ^ 64\<close>.
\<close>

theorem buffer_bounded:
  assumes "WsTransport_frames E t = (Inr (), u)"
  shows "length (mBuffer u) < 14 + max maxControlFrameLength (mMaxMessageSize u) \<or> stalled (mMaxMessageSize u) (mBuffer u)"
  by (rule frames_rest [OF assms])

theorem buffer_bounded_witness:
  "WsTransport_frames demo_env (demo_ws True) = (Inr (), demo_ws True)
   \<and> (length (mBuffer (demo_ws True)) < 1014 \<or> stalled 1000 [])"
proof -
  have "parseFrame 1000 [] = None" by (simp add: parseFrame_def)
  then have f: "WsTransport_frames demo_env (demo_ws True) = (Inr (), demo_ws True)"
    by (simp add: WsTransport_frames_None demo_simps)
  from buffer_bounded [OF this] f show ?thesis by (simp add: demo_simps maxControlFrameLength_def)
qed

text \<open>
  C13. The exception of C12 is reachable by a peer: with such a header at the front of its buffer, an open
  transport hands over nothing any more, does not fail, and its buffer grows by every byte that
  arrives.
\<close>

theorem stalled_connection:
  assumes "mState t = Connected" "mIgnoreLength t = 0" "stalled (mMaxMessageSize t) (mBuffer t)" "[] \<notin> set cs"
  shows "mState (WsTransport_feed E cs t) = Connected \<and> received (trace (WsTransport_feed E cs t)) = received (trace t)
    \<and> length (mBuffer (WsTransport_feed E cs t)) = length (mBuffer t) + length (concat cs)"
proof -
  from stalled_feed [OF assms, of E] obtain b where
    "WsTransport_feed E cs t = t\<lparr>mBuffer := b\<rparr>" "length b = length (mBuffer t) + length (concat cs)" by blast
  with assms(1) show ?thesis by simp
qed

definition wrapping_header :: binary where
  "wrapping_header = [0x82, 0x7F, 0xFF, 0xFF, 0xFF, 0xFF, 0xFF, 0xFF, 0xFF, 0xF6]"

lemma wrapping_header_stalls: "stalled 1 (wrapping_header @ replicate 125 0)"
proof -
  have l: "parseFrame_length (wrapping_header @ x) = Some (2 ^ 64 - 10, 10)" for x
    using htonll_le_nat [of "[0xFF, 0xFF, 0xFF, 0xFF, 0xFF, 0xFF, 0xFF, 0xF6]"]
    by (simp add: parseFrame_length_def wrapping_header_def Let_def)
  show ?thesis
    unfolding stalled_def parseFrame_Some_iff l
    by (simp add: wrapping_header_def parseFrame_key_def maxControlFrameLength_def)
qed

theorem stalled_connection_witness:
  "\<forall>n. let t = (demo_ws True)\<lparr>mMaxMessageSize := 1, mBuffer := wrapping_header @ replicate 125 0\<rparr>;
       u = WsTransport_feed demo_env (replicate n [7]) t
   in mState u = Connected \<and> received (trace u) = [] \<and> length (mBuffer u) = 135 + n"
proof
  fix n
  define buf where "buf = wrapping_header @ replicate 125 0"
  let ?t = "(demo_ws True)\<lparr>mMaxMessageSize := 1, mBuffer := buf\<rparr>"
  have "stalled 1 buf" using wrapping_header_stalls by (simp add: buf_def)
  moreover have "length buf = 135" by (simp add: buf_def wrapping_header_def)
  moreover have "length (concat (replicate n [7 :: byte])) = n" by (induction n) simp_all
  ultimately show "let t = (demo_ws True)\<lparr>mMaxMessageSize := 1, mBuffer := wrapping_header @ replicate 125 0\<rparr>;
       u = WsTransport_feed demo_env (replicate n [7]) t
   in mState u = Connected \<and> received (trace u) = [] \<and> length (mBuffer u) = 135 + n"
    using stalled_connection [of ?t "replicate n [7]" demo_env] unfolding buf_def [symmetric]
    by (simp add: demo_simps Let_def)
qed

text \<open>
  C14. Dead peers are detected: with a limit of \<open>n\<close> outstanding pings, an open connection on which nothing
  arrives stays open for \<open>n\<close> idle periods, in each of which one ping is sent, and fails in the next.
\<close>

theorem idle_connection_fails:
  assumes "env_ops E = tcp_ops N" "open_with (TcpTransport_usable N) t"
    and "mOutstandingPings t = 0" "mMaxOutstandingPings t = int n" "n > 0"
  shows "(\<forall>k \<le> n. mState ((idle E ^^ k) t) = Connected \<and> mOutstandingPings ((idle E ^^ k) t) = int k)
    \<and> mState ((idle E ^^ (n + 1)) t) = Failed"
  using tcp_idle_survives [OF assms(1-4)] tcp_idle_fails [OF assms] by (auto simp: open_with_def)

theorem idle_connection_fails_witness:
  "mState ((idle demo_env ^^ 2) (demo_ws True)) = Connected \<and> mState ((idle demo_env ^^ 3) (demo_ws True)) = Failed"
  using idle_connection_fails [OF demo_simps(1) demo_simps(2) [of True], of 2]
  by (auto simp: demo_simps)

text \<open>
  C15. A client goes from connecting to open only on a complete response with status 101 that carries the
  accept key of the key it has sent: the transport never opens on anything else.
\<close>

theorem client_checks_accept_key:
  assumes "mIsClient t" "mState t = Connecting" "WsTransport_handshake E t = (r, u)" "mState u = Connected"
  shows "\<exists>len status hs. parseHttpLines (string_of_bytes (mBuffer t)) = (len, status # hs) \<and> status_code status = 101
    \<and> map_of (parseHttpHeaders hs) ''sec-websocket-accept'' = Some (computeAcceptKey (env_sha1 E) (mKey (mHandshake t)))"
proof -
  from client_open_accepts [OF assms] obtain n where
    n: "parseHttpResponse (env_sha1 E) (string_of_bytes (mBuffer t)) (mHandshake t) = Inr n" "n > 0" by blast
  show ?thesis by (rule parseHttpResponse_accepts [OF n]) blast
qed

theorem client_checks_accept_key_witness:
  "\<exists>status hs len. parseHttpLines (generateHttpResponse (env_sha1 demo_env) (mHandshake (demo_ws True))) = (len, status # hs)
     \<and> status_code status = 101"
proof -
  let ?h = "mHandshake (demo_ws True)"
  let ?s = "generateHttpResponse (env_sha1 demo_env) ?h"
  let ?t = "(demo_ws True)\<lparr>mState := Connecting, mBuffer := bytes_of_string ?s\<rparr>"
  have h: "?h = \<lparr>mHost = ''localhost'', mPath = ''/'', mProtocols = [''chat''], mKey = []\<rparr>"
    by (simp add: demo_ws_def WsTransport_new_def Transport.defs WsTransport.defs)
  have "clean_tokens (CHR '','') (mProtocols ?h)" "list_all header_value (mProtocols ?h)"
    unfolding h by (simp_all add: header_value_def isspace_def clean_tokens_def)
  from parseHttpResponse_generated [OF this refl, of "env_sha1 demo_env" "[]"]
  have p: "parseHttpResponse (env_sha1 demo_env) ?s ?h = Inr (length ?s)" by simp
  have "length ?s > 0" by (simp add: generateHttpResponse_def Let_def)
  then obtain u where "WsTransport_handshake demo_env ?t = (Inr (), u)" "mState u = Connected"
    using p by (auto simp: WsTransport_handshake_def demo_simps Let_def comp_def)
  from client_checks_accept_key [OF _ _ this] show ?thesis by (auto simp: demo_simps comp_def)
qed

section \<open>Through a proxy\<close>

text \<open>
  C16. The HTTP tunnel: from the request on, any response with status 200, cut into chunks in any way,
  opens the tunnel exactly when its last byte has come, and every byte that follows it is handed to the
  layer above, in order.
\<close>

theorem tunnel_opens:
  assumes "list_all http_line (status # hs)" "status_code status = 200"
    and "mState t = Connecting" "mRecvCallback t" "mProxyBuffer t = []"
    and "concat cs = bytes_of_string (http_block (status # hs)) @ body"
  shows "mState (HttpProxyTransport_feed cs t) = Connected
    \<and> delivered_bytes (HttpProxyTransport_feed cs t) = delivered_bytes t @ body"
  using proxy_opening_feed [OF assms(1,2) refl assms(3,4), of cs body] assms(5,6) by simp

theorem tunnel_opens_witness:
  "\<exists>cs t. length cs > 50 \<and> mState (HttpProxyTransport_feed cs (t :: unit TcpTransport HttpProxyTransport)) = Connected
     \<and> delivered_bytes (HttpProxyTransport_feed cs t) = [1, 2, 3]"
proof -
  let ?ls = "[''HTTP/1.1 200 Connection established'', ''Via: 1.1 proxy.example'']"
  let ?b = "bytes_of_string (http_block ?ls) @ [1, 2, 3]"
  let ?cs = "map (\<lambda>x. [x]) ?b"
  let ?t = "Transport.extend ((Transport_new (Some demo_tcp) True)\<lparr>mState := Connecting, mRecvCallback := True\<rparr>)
    (HttpProxyTransport.fields ''example.org'' ''80'' []) :: unit TcpTransport HttpProxyTransport"
  have ok: "list_all http_line ?ls" "status_code (hd ?ls) = 200"
    by (simp_all add: http_line_def status_code_def read_word_def read_unsigned_def isspace_def isdigit_def)
  have t: "mState ?t = Connecting" "mRecvCallback ?t" "mProxyBuffer ?t = []" "delivered_bytes ?t = []"
    by (simp_all add: Transport_new_def Transport.defs HttpProxyTransport.defs delivered_bytes_def)
  have "concat ?cs = ?b" by simp
  from tunnel_opens [OF ok(1) ok(2) [simplified] t(1-3) this] t(4) show ?thesis
    by (intro exI [of _ ?cs] exI [of _ ?t]) (simp add: http_block_def)
qed







section \<open>TLS\<close>

text \<open>
  A cipher that hides nothing, for the witnesses: the handshake is one byte in each direction, a record is
  the bytes themselves, and a call for sending takes 16384 of them in the libraries that pull.
\<close>

record null_ssl =
  n_fed :: binary
  n_taken :: binary
  n_pending :: binary
  n_hello :: bool
  n_done :: bool
  n_app :: binary

definition null_view :: "null_ssl ssl_view" where
  "null_view = \<lparr>v_established = (\<lambda>s. n_hello s \<and> n_done s), v_fed = n_fed, v_taken = n_taken, v_pending = n_pending,
     v_wire = (\<lambda>s. if n_hello s then 22 # n_app s else [])\<rparr>"

definition null_say_hello :: "null_ssl \<Rightarrow> null_ssl" where
  "null_say_hello s =
     (if n_hello s then s else s\<lparr>n_hello := True, n_done := False, n_app := [], n_pending := n_pending s @ [22]\<rparr>)"

definition null_lib :: "null_ssl ssl_lib" where
  "null_lib =
     \<lparr>SSL_do_handshake = (\<lambda>s. let s = null_say_hello s; s = s\<lparr>n_done := n_done s \<or> n_fed s \<noteq> []\<rparr>
        in (if n_done s then SSL_ERROR_NONE else SSL_ERROR_WANT_READ, [], s)),
      SSL_read = (\<lambda>n s. let b = take n (drop (length (n_taken s)) (drop 1 (n_fed s)))
        in if b = [] then (([], SSL_ERROR_WANT_READ), [], s)
           else ((b, SSL_ERROR_NONE), [], s\<lparr>n_taken := n_taken s @ b\<rparr>)),
      SSL_write = (\<lambda>b s. (SSL_ERROR_NONE, [], s\<lparr>n_pending := n_pending s @ b, n_app := n_app s @ b\<rparr>)),
      SSL_shutdown = (\<lambda>s. ((), [], s\<lparr>n_pending := n_pending s @ [21]\<rparr>)),
      BIO_write = (\<lambda>b s. s\<lparr>n_fed := n_fed s @ b\<rparr>),
      BIO_read = (\<lambda>n s. (take n (n_pending s), s\<lparr>n_pending := drop n (n_pending s)\<rparr>)),
      ERR_peek_last_error = (\<lambda>s. 0), ERR_clear_error = (\<lambda>s. s), error_string = (\<lambda>n. [])\<rparr>"

definition null_ssl_new :: null_ssl where
  "null_ssl_new = \<lparr>n_fed = [], n_taken = [], n_pending = [], n_hello = False, n_done = False, n_app = []\<rparr>"

lemma null_documented: "ssl_documented null_lib null_view peer (drop 1) (drop 1)"
proof -
  have bio: "bio_documented null_lib null_view"
    by (simp add: bio_documented_def null_lib_def null_view_def same_input_def same_output_def)
  have hs: "handshake_documented null_lib null_view peer (drop 1) (drop 1)"
    by (auto simp: handshake_documented_def null_lib_def null_view_def null_say_hello_def Let_def no_alerts_def writes_def)
  have chunk: "(take n (drop (length a) c) = [] \<longleftrightarrow> a = c) \<and> prefix (a @ take n (drop (length a) c)) c"
    if n: "n > 0" and p: "prefix a c" for n and a c :: binary
  proof -
    from p obtain z where z: "c = a @ z" by (auto simp: prefix_def)
    have "prefix (a @ take n z) (a @ z)" by (simp add: take_is_prefix)
    with n z show ?thesis by simp
  qed
  have rd: "read_documented null_lib null_view peer (drop 1) (drop 1)"
    unfolding read_documented_def
  proof (intro allI impI)
    fix n :: nat and s :: null_ssl
    assume a: "n > 0 \<and> prefix (v_fed null_view s) peer \<and> v_established null_view s
      \<and> prefix (v_taken null_view s) (drop 1 (v_fed null_view s))"
    let ?c = "drop 1 (n_fed s)"
    let ?b = "take n (drop (length (n_taken s)) ?c)"
    from a have c: "?b = [] \<longleftrightarrow> n_taken s = ?c" "prefix (n_taken s @ ?b) ?c"
      using chunk [of n "n_taken s" ?c] by (simp_all add: null_view_def del: drop_drop take_eq_Nil)
    have r: "SSL_read null_lib n s =
        (if n_taken s = ?c then (([], SSL_ERROR_WANT_READ), [], s) else ((?b, SSL_ERROR_NONE), [], s\<lparr>n_taken := n_taken s @ ?b\<rparr>))"
      unfolding c(1) [symmetric] by (simp add: null_lib_def Let_def del: drop_drop take_eq_Nil)
    show "\<exists>b err is s'. SSL_read null_lib n s = ((b, err), is, s') \<and> no_alerts is \<and>
           v_fed null_view s' = v_fed null_view s \<and> v_established null_view s' \<and> writes null_view s s' \<and>
           drop 1 (v_wire null_view s') = drop 1 (v_wire null_view s) \<and>
           (if v_taken null_view s = drop 1 (v_fed null_view s) then err = SSL_ERROR_WANT_READ \<and> v_taken null_view s' = v_taken null_view s
            else err = SSL_ERROR_NONE \<and> b \<noteq> [] \<and> length b \<le> n \<and> v_taken null_view s' = v_taken null_view s @ b \<and>
                 prefix (v_taken null_view s') (drop 1 (v_fed null_view s)))"
    proof (cases "n_taken s = ?c")
      case True
      then show ?thesis using a r by (auto simp: null_view_def no_alerts_def writes_def)
    next
      case False
      moreover have "?b \<noteq> []" "length ?b \<le> n" using c(1) False by simp_all
      ultimately show ?thesis using a r c(2)
        by (intro exI [of _ ?b] exI [of _ SSL_ERROR_NONE] exI [of _ "[]"] exI [of _ "s\<lparr>n_taken := n_taken s @ ?b\<rparr>"])
          (simp add: null_view_def no_alerts_def writes_def del: drop_drop take_eq_Nil)
    qed
  qed
  have wr: "write_documented null_lib null_view peer (drop 1)"
    by (simp add: write_documented_def null_lib_def null_view_def same_input_def writes_def no_alerts_def)
  have mono: "prefix a b \<Longrightarrow> prefix (drop 1 a) (drop 1 b)" for a b :: binary
    by (cases a; cases b) auto
  show ?thesis using bio hs rd wr mono by (simp add: ssl_documented_def)
qed

lemma null_fresh: "ssl_fresh null_view null_ssl_new"
  by (simp add: ssl_fresh_def null_view_def null_ssl_new_def)


definition null_tls :: "(unit TcpTransport, null_ssl) TlsTransport" where
  "null_tls = (TlsTransport_new (demo_tcp\<lparr>wire := [22]\<rparr>) True (Some ''localhost'')
     \<lparr>n_fed = [22], n_taken = [], n_pending = [], n_hello = True, n_done = True, n_app = []\<rparr> True)\<lparr>mState := Connected\<rparr>"



lemma null_tls_usable:
  "tls_usable (TcpTransport_usable demo_net) TcpTransport_sent 0 null_view [22] null_tls"
  "mLower null_tls = Some (demo_tcp\<lparr>wire := [22]\<rparr>)" "mState null_tls = Connected"
proof -
  have "TcpTransport_usable demo_net (demo_tcp\<lparr>wire := [22]\<rparr>)" "TcpTransport_sent (demo_tcp\<lparr>wire := [22]\<rparr>) = [22]"
    by (simp_all add: TcpTransport_usable_def TcpTransport_sent_def net_reliable_def demo_net_def demo_tcp_def tcp_inv_def
        pending_def Transport_new_def Queue_new_def Transport.defs TcpTransport.defs)
  then show "tls_usable (TcpTransport_usable demo_net) TcpTransport_sent 0 null_view [22] null_tls"
    "mLower null_tls = Some (demo_tcp\<lparr>wire := [22]\<rparr>)" "mState null_tls = Connected"
    by (simp_all add: tls_usable_def tls_linked_def null_tls_def null_view_def TlsTransport_new_def Transport_new_def
        Transport.defs TlsTransport.defs)
qed



text \<open>
  C19. The TLS transport on TCP, from its construction: \<open>start\<close> succeeds, and then, in any interleaving of
  arrivals from below, tasks on the pool, messages sent and a call of \<open>stop\<close>, what it has handed up is a prefix
  of what has arrived, decrypted; the pool alone always reaches a configuration in which no task is running or
  pending; and there all of it has been handed up, and the transport is disconnected or failed exactly if the
  end of the stream has come.
\<close>

theorem tls_delivers:
  assumes "ssl_documented L V peer dec sealed" "ssl_fresh V s" "dec [] = []" "TcpTransport_usable N l"
  shows "\<exists>t0. TlsTransport_start L (tcp_ops N) (Transport_onRecv True (TlsTransport_new l act host s cb)) = Some (Inr (), t0)
    \<and> (\<forall>ms r t. tls_run L (tcp_ops N) (False, t0) ms (r, t) \<and> prefix (arrived ms) peer \<longrightarrow>
         prefix (delivered_bytes t) (dec (arrived ms))
       \<and> (\<exists>u. tls_run L (tcp_ops N) (r, t) [] (False, u) \<and> mPendingRecvCount u = 0)
       \<and> (\<not> r \<and> mPendingRecvCount t = 0 \<longrightarrow>
            delivered_bytes t = dec (arrived ms) \<and> (None \<in> set ms \<longleftrightarrow> mState t = Disconnected \<or> mState t = Failed)))"
proof -
  obtain t0 where t0:
    "TlsTransport_start L (tcp_ops N) (Transport_onRecv True (TlsTransport_new l act host s cb)) = Some (Inr (), t0)"
    "tls_inv (TcpTransport_usable N) TcpTransport_sent (length (TcpTransport_sent l)) V dec [] (False, t0)"
    by (rule tcp.tls_starts [OF assms(1-4) refl])
  note inv = tcp.tls_inv_run [OF assms(1) t0(2)]
  note idle = tcp.tls_becomes_idle [OF assms(1)]
  note del = tls_inv_delivered [OF assms(1)]
  show ?thesis using t0(1) inv idle del by blast
qed

theorem tls_delivers_witness:
  "\<exists>t0 u. TlsTransport_start null_lib (tcp_ops demo_net)
      (Transport_onRecv True (TlsTransport_new demo_tcp True None null_ssl_new True)) = Some (Inr (), t0)
    \<and> tls_run null_lib (tcp_ops demo_net) (False, t0) [Some (make_message [22, 104, 105] Binary)] (False, u)
    \<and> delivered_bytes u = [104, 105]"
proof -
  let ?m = "make_message [22, 104, 105] Binary"
  note doc = null_documented [of "[22, 104, 105]"]
  have z: "drop 1 ([] :: binary) = []" by simp
  obtain t0 where t0: "TlsTransport_start null_lib (tcp_ops demo_net)
      (Transport_onRecv True (TlsTransport_new demo_tcp True None null_ssl_new True)) = Some (Inr (), t0)"
    and all: "\<And>ms r t. tls_run null_lib (tcp_ops demo_net) (False, t0) ms (r, t) \<and> prefix (arrived ms) [22, 104, 105] \<Longrightarrow>
         prefix (delivered_bytes t) (drop 1 (arrived ms))
       \<and> (\<exists>u. tls_run null_lib (tcp_ops demo_net) (r, t) [] (False, u) \<and> mPendingRecvCount u = 0)
       \<and> (\<not> r \<and> mPendingRecvCount t = 0 \<longrightarrow>
            delivered_bytes t = drop 1 (arrived ms) \<and> (None \<in> set ms \<longleftrightarrow> mState t = Disconnected \<or> mState t = Failed))"
    using tls_delivers [OF doc null_fresh z demo_usable, of True None True] by blast
  obtain t where "TlsTransport_start null_lib (tcp_ops demo_net)
      (Transport_onRecv True (TlsTransport_new demo_tcp True None null_ssl_new True)) = Some (Inr (), t)"
    "mIncomingQueue t = Queue_new RECV_QUEUE_LIMIT (Some message_size_func)"
    by (rule tcp.tls_starts [OF doc null_fresh z demo_usable refl])
  with t0 have q: "mIncomingQueue t0 = Queue_new RECV_QUEUE_LIMIT (Some message_size_func)" by simp
  obtain t1 where t1: "TlsTransport_incoming (Some ?m) t0 = Some t1"
    using q by (simp add: TlsTransport_incoming_def Queue_push_def Queue_new_def RECV_QUEUE_LIMIT_def)
  have r1: "tls_run null_lib (tcp_ops demo_net) (False, t0) [Some ?m] (False, t1)"
    using tls_run.run_step [OF tls_run.run_nil tls_step.incoming [OF t1]] by simp
  have p: "prefix (arrived [Some ?m]) [22, 104, 105]" by simp
  from all [OF conjI [OF r1 p]] obtain u where
    u: "tls_run null_lib (tcp_ops demo_net) (False, t1) [] (False, u)" "mPendingRecvCount u = 0" by blast
  have r2: "tls_run null_lib (tcp_ops demo_net) (False, t0) [Some ?m] (False, u)" using tls_run_trans [OF u(1) r1] by simp
  from all [OF conjI [OF r2 p]] u(2) have "delivered_bytes u = [104, 105]" by simp
  with t0 r2 show ?thesis by blast
qed





text \<open>
  C22. The read callback of the GnuTLS and Mbed TLS builds serves what arrives as one stream: over any sequence of
  arrivals of messages with data and of calls with room for at least a byte, the bytes served and the bytes not
  yet served are the ones that arrived, in order; a further call serves some of the rest if there is any; and
  without any the answer is to wait until the end of the stream has come, and the end from then on.
\<close>

theorem pull_stream_served:
  assumes "list_all pull_event_ok es" "serve B es (PullTransport_new l act host session cb) = Some (rs, t)" "n > 0"
  shows "concat (map pulled_bytes rs) @ unread t = pushed es \<and> end_of_stream B \<notin> set rs
    \<and> (unread t \<noteq> [] \<longrightarrow> (\<exists>b. fst (ReadCallback B n t) = Bytes b \<and> b \<noteq> [] \<and> length b \<le> n \<and> prefix b (unread t)))
    \<and> (unread t = [] \<longrightarrow> fst (ReadCallback B n t) = Again
        \<and> fst (ReadCallback B n (t\<lparr>pIncomingQueue := Queue_stop (pIncomingQueue t)\<rparr>)) = end_of_stream B)"
proof -
  let ?t0 = "PullTransport_new l act host session cb"
  let ?s = "t\<lparr>pIncomingQueue := Queue_stop (pIncomingQueue t)\<rparr>"
  have t0: "no_empty ?t0" "\<not> mStopping (pIncomingQueue ?t0)" "unread ?t0 = []"
    by (simp_all add: PullTransport_new_def no_empty_def unread_def Queue_new_def Transport_new_def Transport.defs PullTransport.defs)
  have s: "concat (map pulled_bytes rs) @ unread t = pushed es \<and> no_empty t \<and> \<not> mStopping (pIncomingQueue t) \<and> end_of_stream B \<notin> set rs"
    using serve_stream [OF assms(1) t0(1,2) assms(2)] t0(3) by simp
  have stop: "no_empty ?s" "unread ?s = unread t" "mStopping (pIncomingQueue ?s)"
    using s by (simp_all add: no_empty_def unread_def Queue_stop_def split: option.split)
  obtain r u where r: "ReadCallback B n t = (r, u)" by (cases "ReadCallback B n t")
  obtain r' u' where r': "ReadCallback B n ?s = (r', u')" by (cases "ReadCallback B n ?s")
  have c: "pulled_bytes r @ unread u = unread t" "length (pulled_bytes r) \<le> n"
    "r = (if unread t \<noteq> [] then Bytes (pulled_bytes r) else Again)" "unread t \<noteq> [] \<longrightarrow> pulled_bytes r \<noteq> []"
    using ReadCallback_serves [OF _ assms(3) r] s by presburger+
  have c': "unread t = [] \<longrightarrow> r' = end_of_stream B"
    using ReadCallback_serves [OF stop(1) assms(3) r'] unfolding stop(2) if_P [OF stop(3)] by auto
  show ?thesis
  proof (intro conjI impI)
    assume "unread t \<noteq> []"
    with c r show "\<exists>b. fst (ReadCallback B n t) = Bytes b \<and> b \<noteq> [] \<and> length b \<le> n \<and> prefix b (unread t)"
      by (intro exI [of _ "pulled_bytes r"]) (metis fst_conv prefixI)
  qed (use s c(3) c' r r' in simp_all)
qed

definition null_pull :: "unit pull_lib" where
  "null_pull =
     \<lparr>lib_handshake = (\<lambda>s. Returns 0 s),
      lib_recv = (\<lambda>n s. Pulls n (\<lambda>r. case r of
          Bytes b \<Rightarrow> Returns (if b = [] then GNUTLS_E_PREMATURE_TERMINATION else int (length b), b) s
        | Again \<Rightarrow> Returns (GNUTLS_E_AGAIN, []) s
        | ConnEof \<Rightarrow> Returns (- 0x7280, []) s)),
      lib_send = (\<lambda>d s. Pushes (23 # take MAX_RECORD d) (\<lambda>ok. Returns (int (length (take MAX_RECORD d))) s)),
      lib_bye = (\<lambda>s. Pushes [21] (\<lambda>ok. Returns 0 s)),
      error_is_fatal = (\<lambda>e. e \<noteq> GNUTLS_E_AGAIN), strerror = (\<lambda>e. [])\<rparr>"

definition null_pull_tls :: "(unit TcpTransport, unit) PullTransport" where
  "null_pull_tls = (Transport_onRecv True (PullTransport_new demo_tcp True None () True))\<lparr>mState := Connected\<rparr>"

lemmas null_pull_defs = null_pull_tls_def PullTransport_new_def Transport_onRecv_def Queue_new_def Transport_new_def
  Transport.defs PullTransport.defs

theorem pull_stream_served_witness:
  "\<exists>t. serve MbedTLS [Arrives (make_message [1, 2, 3] Binary), Reads 2, Arrives (make_message [4] Binary), Reads 5, Reads 5, Reads 5]
       (PullTransport_new demo_tcp True None () True) = Some ([Bytes [1, 2], Bytes [3], Bytes [4], Again], t)
     \<and> fst (ReadCallback MbedTLS 1 t) = Again"
proof -
  let ?es = "[Arrives (make_message [1, 2, 3] Binary), Reads 2, Arrives (make_message [4] Binary), Reads 5, Reads 5, Reads 5]"
  have ok: "list_all pull_event_ok ?es" by simp
  obtain t where t: "serve MbedTLS ?es (PullTransport_new demo_tcp True None () True) = Some ([Bytes [1, 2], Bytes [3], Bytes [4], Again], t)"
    by (simp add: null_pull_defs PullTransport_incoming_def Queue_push_def RECV_QUEUE_LIMIT_def pull_enqueueRecv_def
        ReadCallback_def next_message.simps Queue_pop_def Queue_running_def Let_def)
  from pull_stream_served [OF ok t, of 1] t show ?thesis by simp
qed



text \<open>
  In the same builds a message longer than a record is cut off: \<open>send\<close> reports success, but only the bytes that
  one call of the library takes leave, so that two messages that agree on them cannot be told apart.
\<close>

theorem long_message_truncated:
  assumes "one_record L seal next" "mState t = Connected" "mLower t = Some l" "TcpTransport_usable N l"
    and "data m1 \<noteq> []" "take MAX_RECORD (data m2) = take MAX_RECORD (data m1)"
  shows "\<exists>b t'. PullTransport_send B L (tcp_ops N) (Some m1) t = Some (Inr b, t')
    \<and> PullTransport_send B L (tcp_ops N) (Some m2) t = Some (Inr b, t')
    \<and> TcpTransport_sent (the (mLower t')) = TcpTransport_sent l @ seal (mSession t) (take MAX_RECORD (data m1))"
proof -
  have m2: "data m2 \<noteq> []" using assms(5,6) by (auto simp: MAX_RECORD_def)
  let ?d = "take MAX_RECORD (data m1)"
  let ?u = "\<lambda>b l'. t\<lparr>mLower := Some l', mOutgoingResult := b, mSession := next (mSession t) ?d\<rparr>"
  obtain b l' where s1: "PullTransport_send B L (tcp_ops N) (Some m1) t = Some (Inr b, ?u b l')"
    "TcpTransport_sent l' = TcpTransport_sent l @ seal (mSession t) ?d"
    "Transport_outgoing (tcp_ops N) (Some (make_message (seal (mSession t) ?d) Binary)) t = (Inr b, t\<lparr>mLower := Some l'\<rparr>)"
    by (rule tcp.pull_send_one_record [OF assms(1-5)])
  obtain b2 l2 where s2: "PullTransport_send B L (tcp_ops N) (Some m2) t = Some (Inr b2, ?u b2 l2)"
    "Transport_outgoing (tcp_ops N) (Some (make_message (seal (mSession t) ?d) Binary)) t = (Inr b2, t\<lparr>mLower := Some l2\<rparr>)"
    by (rule tcp.pull_send_one_record [OF assms(1-4) m2, unfolded assms(6)])
  from s1(3) s2(2) have same: "b2 = b" "t\<lparr>mLower := Some l2\<rparr> = t\<lparr>mLower := Some l'\<rparr>" by simp_all
  from arg_cong [OF same(2), of mLower] have "l2 = l'" by simp
  with s1(1,2) s2(1) same(1) show ?thesis by simp
qed

theorem long_message_truncated_witness:
  "\<exists>b t'. PullTransport_send MbedTLS null_pull (tcp_ops demo_net) (Some (make_message (replicate 16385 0) Binary)) null_pull_tls = Some (Inr b, t')
     \<and> PullTransport_send MbedTLS null_pull (tcp_ops demo_net) (Some (make_message (replicate 16384 0) Binary)) null_pull_tls = Some (Inr b, t')"
proof -
  have one: "one_record null_pull (\<lambda>s d. 23 # d) (\<lambda>s d. s)" by (simp add: one_record_def null_pull_def Let_def)
  have t: "mState null_pull_tls = Connected" "mLower null_pull_tls = Some demo_tcp" by (simp_all add: null_pull_defs)
  have d: "data (make_message (replicate 16385 0) Binary) \<noteq> []"
    "take MAX_RECORD (data (make_message (replicate 16384 0) Binary)) = take MAX_RECORD (data (make_message (replicate 16385 0) Binary))"
    by (simp_all add: MAX_RECORD_def make_message_full_def take_replicate)
  from long_message_truncated [OF one t demo_usable d, of MbedTLS] show ?thesis by blast
qed

text \<open>
  The comment at the set-up of the session says that the close notification is sent. It is made, but nothing
  hands it down: after a task has ended with \<open>SSL_shutdown\<close>, in any run the session keeps what that call left in
  its output, and the transport below is sent nothing more.
\<close>

theorem close_notify_never_sent:
  assumes "tls_run L (tcp_ops N) (False, doRecv_finish L False t) ms (r, u)"
  shows "\<not> r \<and> (mState u = Disconnected \<or> mState u = Failed) \<and> mSsl u = snd (snd (SSL_shutdown L (mSsl t)))
    \<and> map_option TcpTransport_sent (mLower u) = map_option TcpTransport_sent (mLower t)"
  using tcp.tls_over_run [OF assms doRecv_finish_over] by (auto simp: tls_over_def doRecv_finish_session doRecv_finish_ends)

theorem close_notify_never_sent_witness:
  "\<exists>u. tls_run null_lib (tcp_ops demo_net) (False, doRecv_finish null_lib False null_tls) [None] (False, u)
     \<and> v_pending null_view (mSsl u) = [21] \<and> map_option TcpTransport_sent (mLower u) = Some [22]"
proof -
  let ?f = "doRecv_finish null_lib False null_tls"
  let ?u = "TlsTransport_stop True (tcp_ops demo_net) ?f"
  have r: "tls_run null_lib (tcp_ops demo_net) (False, ?f) [None] (False, ?u)"
    using tls_run.run_step [OF tls_run.run_nil tls_step.stopped] by simp
  have "TcpTransport_sent (demo_tcp\<lparr>wire := [22]\<rparr>) = [22]"
    by (simp add: TcpTransport_sent_def demo_tcp_def pending_def Queue_new_def Transport_new_def Transport.defs TcpTransport.defs)
  moreover have "v_pending null_view (snd (snd (SSL_shutdown null_lib (mSsl null_tls)))) = [21]"
    by (simp add: null_view_def null_lib_def null_tls_def TlsTransport_new_def Transport_new_def Transport.defs TlsTransport.defs)
  ultimately show ?thesis using close_notify_never_sent [OF r] r null_tls_usable(2) by (intro exI [of _ ?u]) simp
qed

section \<open>Certificates\<close>

text \<open>
  C24. Loading a certificate in the OpenSSL build, for a parser that takes what it returns from the text: loading
  ends, every BIO is used only while it is alive and freed exactly once on every path, and if a certificate comes
  out, it is the first one of the text, its chain is the others in their order, its key is the one of the other
  option, and its fingerprint is valid. If none comes out, one of these is missing: the file, a certificate, the
  key, or the digest.
\<close>

theorem certificate_import:
  assumes "consuming L" "\<forall>x d. X509_digest L Sha256 x = Some d \<longrightarrow> length d = 32"
    and "bios_alive s live" "length crt < 2 ^ 31" "length key < 2 ^ 31"
  shows "\<exists>r s'. load_certificate L files crt key pass s = Some (r, s') \<and> bios_alive s' live \<and>
    (case pem_source files (sublist PemBeginTag crt) crt of
       None \<Rightarrow> r = Inl (invalid_argument ''Unable to open PEM certificate file'')
     | Some d \<Rightarrow> \<exists>xs k. certificates_of L d xs
         \<and> k = Option.bind (pem_source files (sublist PemBeginTag crt) key)
                 (PEM_read_bio_PrivateKey L (pem_password (sublist PemBeginTag crt) pass))
         \<and> (case r of
              Inr c \<Rightarrow> xs = mX509 c # mChain c \<and> k = Some (mPKey c) \<and> fingerprint_isValid (Certificate_fingerprint c)
            | Inl _ \<Rightarrow> xs = [] \<or> k = None \<or> X509_digest L Sha256 (hd xs) = None))"
proof -
  obtain r s' where r: "load_certificate L files crt key pass s = Some (r, s')" "bios_alive s' live"
    and c: "case pem_source files (sublist PemBeginTag crt) crt of
       None \<Rightarrow> r = Inl (invalid_argument ''Unable to open PEM certificate file'')
     | Some d \<Rightarrow> \<exists>xs e e'. certificates_of L d xs \<and>
         r = imported L xs
           (Option.bind (pem_source files (sublist PemBeginTag crt) key)
              (PEM_read_bio_PrivateKey L (pem_password (sublist PemBeginTag crt) pass)))
           (invalid_argument e) (invalid_argument e')"
    using load_certificate_imports [OF assms(1,3-5)] by blast
  show ?thesis
  proof (cases "pem_source files (sublist PemBeginTag crt) crt")
    case None
    with r c show ?thesis by simp
  next
    case (Some d)
    with c obtain xs k e e' where x: "certificates_of L d xs" "r = imported L xs k (invalid_argument e) (invalid_argument e')"
      "k = Option.bind (pem_source files (sublist PemBeginTag crt) key)
         (PEM_read_bio_PrivateKey L (pem_password (sublist PemBeginTag crt) pass))"
      by auto
    from imported_cases [OF assms(2) x(2)] r x(1,3) Some show ?thesis by auto
  qed
qed

text \<open>A library for which every byte is a certificate, and a key is a single byte.\<close>

definition demo_pem :: "(byte, byte) pem_lib" where
  "demo_pem = \<lparr>PEM_read_bio_X509 = (\<lambda>d. case d of [] \<Rightarrow> (None, []) | b # r \<Rightarrow> (Some b, r)),
     PEM_read_bio_PrivateKey = (\<lambda>p d. case d of [k] \<Rightarrow> Some k | _ \<Rightarrow> None),
     X509_digest = (\<lambda>a x. Some (replicate (AlgorithmSize a) x))\<rparr>"

lemma demo_certificates: "certificates_of demo_pem d xs \<Longrightarrow> xs = d"
  by (induction rule: certificates_of.induct) (auto simp: demo_pem_def split: list.splits)

definition demo_files :: "string \<Rightarrow> binary option" where
  "demo_files f = (if f = ''c.pem'' then Some [1, 2] else if f = ''k.pem'' then Some [7] else None)"

theorem certificate_import_witness:
  "\<exists>c s'. load_certificate demo_pem demo_files ''c.pem'' ''k.pem'' None \<lparr>bio_made = 0, bio_data = (\<lambda>i. []), bio_log = []\<rparr> =
     Some (Inr c, s') \<and> mX509 c = 1 \<and> mChain c = [2] \<and> mPKey c = 7 \<and> bios_alive s' []"
proof -
  have demo_key: "PEM_read_bio_PrivateKey demo_pem p [7] = Some 7" for p by (simp add: demo_pem_def)
  have "consuming demo_pem" by (auto simp: consuming_def demo_pem_def split: list.splits)
  moreover have "\<forall>x d. X509_digest demo_pem Sha256 x = Some d \<longrightarrow> length d = 32" by (auto simp: demo_pem_def)
  moreover have "bios_alive \<lparr>bio_made = 0, bio_data = (\<lambda>i. []), bio_log = []\<rparr> []" by (simp add: bios_alive_def)
  moreover have n: "\<not> sublist PemBeginTag ''c.pem''" by (auto simp: PemBeginTag_def dest: sublist_length_le)
  ultimately obtain r s' xs k where
    r: "load_certificate demo_pem demo_files ''c.pem'' ''k.pem'' None \<lparr>bio_made = 0, bio_data = (\<lambda>i. []), bio_log = []\<rparr> = Some (r, s')"
    "bios_alive s' []" "certificates_of demo_pem [1, 2] xs" "k = Some 7" and
    c: "case r of
        Inr c \<Rightarrow> xs = mX509 c # mChain c \<and> k = Some (mPKey c) \<and> fingerprint_isValid (Certificate_fingerprint c)
      | Inl _ \<Rightarrow> xs = [] \<or> k = None \<or> X509_digest demo_pem Sha256 (hd xs) = None"
    using certificate_import [of demo_pem "\<lparr>bio_made = 0, bio_data = (\<lambda>i. []), bio_log = []\<rparr>" "[]" "''c.pem''" "''k.pem''" demo_files None]
    by (auto simp: pem_source_def demo_files_def demo_key)
  from r(3) have "xs = [1, 2]" by (rule demo_certificates)
  with c r(4) obtain c where "r = Inr c" "mX509 c = 1" "mChain c = [2]" "mPKey c = 7"
    by (cases r) (auto simp: demo_pem_def)
  with r(1,2) show ?thesis by auto
qed

text \<open>
  C25. The test of fingerprints accepts exactly the texts of digests of the length that belongs to the algorithm,
  with the digits in either case; and the fingerprints made in the three builds, for digests of that length, pass
  it and give the digest back when read.
\<close>

theorem fingerprints_valid:
  assumes "\<forall>a x d. digest a x = Some d \<longrightarrow> length d = AlgorithmSize a"
    and "\<forall>a x d. gdigest a x = Inr d \<longrightarrow> length d = AlgorithmSize a"
    and "\<forall>a x d. mdigest (mbed_hash_of a) x = Inr d \<longrightarrow> length d = AlgorithmSize a"
  shows "(fingerprint_isValid f \<longleftrightarrow>
      (\<exists>d. length d = AlgorithmSize (fp_algorithm f) \<and> map upper_case (fp_value f) = fingerprint_string True d))
    \<and> (make_fingerprint digest x a = Inr v \<longrightarrow>
        fingerprint_isValid \<lparr>fp_algorithm = a, fp_value = v\<rparr> \<and> digest a x = Some (fingerprint_bytes v))
    \<and> (gnutls_make_fingerprint gdigest x a = Inr v \<longrightarrow>
        fingerprint_isValid \<lparr>fp_algorithm = a, fp_value = v\<rparr> \<and> gdigest a x = Inr (fingerprint_bytes v))
    \<and> (mbed_make_fingerprint mdigest x a = Inr v \<longrightarrow>
        fingerprint_isValid \<lparr>fp_algorithm = a, fp_value = v\<rparr> \<and> mdigest (mbed_hash_of a) x = Inr (fingerprint_bytes v))"
  using assms fingerprint_isValid_iff [of f]
  by (auto simp: make_fingerprint_def gnutls_make_fingerprint_def mbed_make_fingerprint_def
      fingerprint_string_valid fingerprint_string_bytes split: option.splits sum.splits)

theorem fingerprints_valid_witness:
  "\<exists>v. make_fingerprint (\<lambda>a x. Some (replicate (AlgorithmSize a) (x :: byte))) 0xAB Sha1 = Inr v
     \<and> fingerprint_isValid \<lparr>fp_algorithm = Sha1, fp_value = v\<rparr> \<and> fingerprint_bytes v = replicate 20 0xAB"
proof -
  let ?m = "\<lambda>h x. Inr (replicate (case h of mbedtls_sha1 \<Rightarrow> 20 | mbedtls_sha256 b \<Rightarrow> if b then 28 else 32
    | mbedtls_sha512 b \<Rightarrow> if b then 48 else 64) (x :: byte)) :: string + binary"
  have m: "\<forall>a x d. ?m (mbed_hash_of a) x = Inr d \<longrightarrow> length d = AlgorithmSize a"
  proof (intro allI impI)
    fix a x d assume "?m (mbed_hash_of a) x = Inr d"
    then show "length d = AlgorithmSize a" by (cases a) auto
  qed
  have "\<exists>v. make_fingerprint (\<lambda>a x. Some (replicate (AlgorithmSize a) (x :: byte))) 0xAB Sha1 = Inr v"
    by (simp add: make_fingerprint_def)
  with fingerprints_valid [where digest = "\<lambda>a x. Some (replicate (AlgorithmSize a) (x :: byte))" and x = "0xAB" and a = Sha1
      and gdigest = "\<lambda>a x. Inr (replicate (AlgorithmSize a) (x :: byte))" and mdigest = ?m, OF _ _ m]
  show ?thesis by fastforce
qed

text \<open>
  C26. The three builds generate the same kind of certificate: if generating succeeds, what is signed has been
  given a key pair of the type asked for (P-256 by default, or RSA with 2048 bits) and a validity from an hour ago
  to a year from now. The contexts that the Mbed TLS build frees by hand are freed exactly once each, also when
  generating fails.
\<close>

theorem generated_alike:
  shows "(ossl_generate E modern kind name = (cs, Inr ()) \<longrightarrow> ossl_request now cs = self_signed kind now)
    \<and> (gnutls_generate G kind name now = (gs, Inr ()) \<longrightarrow> gnutls_request gs = self_signed kind now)
    \<and> (mbed_generate M kind name now = (ms, Inr ()) \<longrightarrow> mbed_request ms = self_signed kind now)
    \<and> (mbed_generate M kind name now = (ms, r) \<longrightarrow> list_all (\<lambda>c. count_list ms c = 1) mbed_gen_frees)"
  by (auto simp: list_all_iff ossl_generate_request gnutls_generate_request mbed_generate_request mbed_generate_frees)

theorem generated_alike_witness:
  "ossl_request 10000 (fst (ossl_generate \<lparr>call_ok = (\<lambda>c. True), call_error = (\<lambda>c. None)\<rparr> True Default ''me'')) =
     (Some P256_key, Some 6400, Some 31546000)
   \<and> count_list (fst (mbed_generate \<lparr>call_ok = (\<lambda>c. c \<noteq> mbedtls_x509write_crt_der 4096), call_error = (\<lambda>c. None)\<rparr> Rsa ''me'' 10000))
       mbedtls_mpi_free = 1"
proof -
  let ?E = "\<lparr>call_ok = (\<lambda>c. True), call_error = (\<lambda>c. None)\<rparr>"
  let ?M = "\<lparr>call_ok = (\<lambda>c. c \<noteq> mbedtls_x509write_crt_der 4096), call_error = (\<lambda>c. None)\<rparr>"
  have "\<exists>cs. ossl_generate ?E True Default ''me'' = (cs, Inr ())"
    by (simp add: ossl_generate_def all_calls_def ossl_properties_def then_calls_def after_call_def)
  moreover obtain ms r where "mbed_generate ?M Rsa ''me'' 10000 = (ms, r)" by (cases "mbed_generate ?M Rsa ''me'' 10000")
  moreover have "mbedtls_mpi_free \<in> set mbed_gen_frees" by (simp add: mbed_gen_frees_def)
  ultimately show ?thesis
    using generated_alike [where E = ?E and modern = True and kind = Default and name = "''me''" and now = 10000]
      generated_alike [where M = ?M and kind = Rsa and name = "''me''" and now = 10000 and ms = ms and r = r]
    by (auto simp: self_signed_def list_all_iff)
qed

section \<open>The WebSocket object\<close>







text \<open>
  C30. Closing an object during the opening handshake: its transport is told to stop, which does nothing as it is not
  connected yet, and as long as the transport does not end by itself, whatever it receives, sends or is told, also when the
  handshake is completed, the object stays in the closing state; nothing is reported to the application, and neither
  the connection timeout nor closing again has any effect.
\<close>

theorem closing_during_handshake_hangs:
  assumes "WebSocket_call E i WebSocket_close (v, t) = Some (w, u)" "wsState v = WsConnecting" "mWsTransport v = Some i"
    and "mState t = Connecting" "mStateChangeCallback t"
    and "(ws_step E)\<^sup>*\<^sup>* u u'" "mState u' \<in> {Connecting, Connected}" "WebSocket_events i (new_events u u') w = Some w'"
  shows "u = t \<and> wsState w' = WsClosing \<and> effects w' = effects v @ [StopTransport WsKind i]
    \<and> WebSocket_connectionTimeout w' = w' \<and> WebSocket_close w' = w'"
proof -
  have u: "u = t" "w = emit [StopTransport WsKind i] (v\<lparr>wsState := WsClosing\<rparr>)"
    using close_connecting [OF assms(2-4), of E] assms(1) by simp_all
  have "follows Connecting (new_events u u') = Some (mState u')"
    using ws_steps_report [OF assms(6)] assms(4,5) by (simp add: reports_def u(1))
  from closing_events [OF assms(8) _ this assms(7)] u show ?thesis
    by (simp add: WebSocket_connectionTimeout_def WebSocket_close.simps)
qed

theorem closing_during_handshake_hangs_witness:
  "\<exists>downs w'. let t = snd (WsTransport_start demo_env demo_client); u = WsTransport_feed demo_env downs t
    in mState u = Connected \<and> wsState w' = WsClosing \<and> effects w' = [StopTransport WsKind 0]
      \<and> WebSocket_events 0 (new_events t u) (emit [StopTransport WsKind 0]
          (demo_object\<lparr>mWsTransport := Some 0, wsState := WsClosing\<rparr>)) = Some w'"
proof -
  let ?v = "demo_object\<lparr>wsState := WsConnecting, mWsTransport := Some 0\<rparr>"
  let ?w = "emit [StopTransport WsKind 0] (?v\<lparr>wsState := WsClosing\<rparr>)"
  define t where "t = snd (WsTransport_start demo_env demo_client)"
  from session_opening [OF conjunct1 [OF demo_ready [unfolded session_ready_def]]] obtain resp where
    cl: "\<And>downs tl. concat downs = resp @ tl \<Longrightarrow> [] \<notin> set downs \<Longrightarrow> \<exists>cs. concat cs = tl \<and> [] \<notin> set cs \<and>
      WsTransport_feed demo_env downs t = WsTransport_feed demo_env cs (session_opened t)"
    and op: "open_with (TcpTransport_usable demo_net) (session_opened t)" unfolding t_def by blast
  obtain downs where d: "concat downs = resp @ []" "[] \<notin> set downs" using bytewise by force
  define u where "u = WsTransport_feed demo_env downs t"
  from cl [OF d] have "u = session_opened t" by (auto simp: u_def feed_nothing)
  with op have u: "mState u = Connected" by (simp add: open_with_def)
  note st = session_started [OF demo_ready, folded t_def]
  have v: "wsState ?v = WsConnecting" "mWsTransport ?v = Some 0" by simp_all
  have t: "mState t = Connecting" "mStateChangeCallback t" using st(6,7) demo_session_simps(5) by simp_all
  note c = close_connecting [OF v t(1), of demo_env]
  have run: "(ws_step demo_env)\<^sup>*\<^sup>* t u" unfolding u_def by (rule feed_steps)
  have "new_events t u = [StateCallback Connected]"
    using t \<open>u = session_opened t\<close> by (simp add: session_opened_def new_events_def Transport_changeState_def)
  then have w': "WebSocket_events 0 (new_events t u) ?w = Some ?w" by (simp add: WebSocket_event_def WebSocket_onWsState_def)
  from closing_during_handshake_hangs [OF c v t run _ w'] u w'
  show ?thesis by (intro exI [of _ downs] exI [of _ ?w]) (simp add: Let_def t_def u_def demo_object_simps)
qed

text \<open>
  Closing by force, in any state but closed: the object is closed at once, its slots are empty, every
  transport that it had is handed to the tear-down thread, and the closing is reported exactly once,
  as the last thing that happens.
\<close>

theorem force_close:
  assumes "wsState w \<noteq> WsClosed"
  shows "wsState (WebSocket_remoteClose w) = WsClosed \<and> transports (WebSocket_remoteClose w) = []
    \<and> (\<exists>es. effects (WebSocket_remoteClose w) = effects w @ es @ [TearDown (transports w), Closed] \<and> Closed \<notin> set es)"
  using remoteClose_effects [OF assms] by blast

theorem force_close_witness:
  "\<exists>es. effects (WebSocket_remoteClose (demo_object\<lparr>wsState := WsOpen, mWsTransport := Some 1, mTcpTransport := Some 0\<rparr>))
     = es @ [TearDown [(WsKind, 1), (TcpKind, 0)], Closed]"
proof -
  let ?w = "demo_object\<lparr>wsState := WsOpen, mWsTransport := Some 1, mTcpTransport := Some 0\<rparr>"
  have "transports ?w = [(WsKind, 1), (TcpKind, 0)]"
    by (simp add: transports_def slot_list_def demo_object_def WebSocket_new_def WebSocket_certificate_def Let_def default_config_def Channel.defs WebSocket.defs)
  with force_close [of ?w] show ?thesis by fastforce
qed

text \<open>
  Without a message callback and while the receive queue has room, the messages that arrive are all
  accepted, and received in the order of their arrival, after those that were queued before, with the text or
  the bytes that they carry.
\<close>

theorem received_in_order:
  assumes "list_all deliverable ms" "\<not> mStopping (mRecvQueue w)" "messageCallback w = None"
    and "length (mQueue (mRecvQueue w)) + length ms \<le> mLimit (mRecvQueue w)"
  shows "\<exists>w'. incoming_all ms w = Some w' \<and> fst (receive_all (length (mQueue (mRecvQueue w)) + length ms) w') =
    map (Some \<circ> to_variant) (mQueue (mRecvQueue w) @ ms)"
proof -
  from incoming_all_room [OF assms(1,2) _ assms(4)] assms(3) obtain w' where w: "incoming_all ms w = Some w'" by blast
  from receive_all_queue [of "length (mQueue (mRecvQueue w)) + length ms" w'] incoming_all_queued [OF w assms(1,2)] assms(3) w
  show ?thesis by simp
qed

lemma string_hi: "string_of_bytes [104, 105] = ''hi''"
proof -
  have "string_of_bytes (bytes_of_string ''hi'') = ''hi''" by (simp only: list.map char_of_byte_of_char)
  then show ?thesis by (simp add: byte_of_char_def)
qed

theorem received_in_order_witness:
  "\<exists>w. incoming_all [make_message [104, 105] String, make_message [1] Binary] demo_object = Some w
     \<and> fst (receive_all 2 w) = [Some (VString ''hi''), Some (VBinary [1])]"
proof -
  let ?ms = "[make_message [104, 105] String, make_message [1] Binary]"
  have d: "list_all deliverable ?ms" by (simp add: deliverable_def)
  have v: "map (Some \<circ> to_variant) ?ms = [Some (VString ''hi''), Some (VBinary [1])]"
    by (simp only: list.map comp_def to_variant_def make_message_simps Message.select_convs Type.case string_hi [unfolded list.map])
  have "length (mQueue (mRecvQueue demo_object)) + length ?ms = 2" by (simp add: demo_object_simps)
  with received_in_order [OF d demo_object_simps(1,2)] v show ?thesis by (simp only: demo_object_simps append_Nil)
qed

text \<open>
  With a message callback on an open WebSocket, each message that arrives is handed to it at once, after
  whatever was still queued, and the queue is left empty.
\<close>

lemma callback_gets_messages:
  assumes "WebSocket_incoming (Some m) w = Some w'" "deliverable m" "\<not> mStopping (mRecvQueue w)"
    and "messageCallback w = Some f" "mOpenTriggered w"
  shows "\<exists>av. calls w' = calls w @ av @ map (\<lambda>m. CallMessage f (to_variant m)) (mQueue (mRecvQueue w) @ [m])
      \<and> (av = [] \<or> (\<exists>g. av = [CallAvailable g])) \<and> mQueue (mRecvQueue w') = []"
  using incoming_called [OF assms] by blast

lemma callback_gets_messages_witness:
  "\<exists>w. WebSocket_incoming (Some (make_message [1] Binary)) (demo_object\<lparr>messageCallback := Some 7, mOpenTriggered := True\<rparr>) = Some w
     \<and> CallMessage 7 (VBinary [1]) \<in> set (calls w)"
proof -
  let ?w = "demo_object\<lparr>messageCallback := Some 7, mOpenTriggered := True\<rparr>"
  let ?m = "make_message [1] Binary"
  have d: "\<not> mStopping (mRecvQueue ?w)" "mQueue (mRecvQueue ?w) = []" "mLimit (mRecvQueue ?w) = 1024"
    by (simp_all add: demo_object_simps)
  obtain w where w: "WebSocket_incoming (Some ?m) ?w = Some w"
    using d by (auto simp: WebSocket_incoming_def Queue_push_def Queue_full_def)
  have m: "deliverable ?m" by (simp add: deliverable_def)
  from callback_gets_messages [OF w m d(1), of 7] w show ?thesis by (auto simp: to_variant_def)
qed

text \<open>
  A WebSocket that has used a proxy cannot be opened again: closing does not empty the slot of the proxy
  transport, and when the TCP transport of the next opening reports that it is connected, nothing
  at all happens.
\<close>

theorem reopening_through_proxy_hangs:
  assumes "proxyServer (config w) \<noteq> None" "mProxyTransport w = Some p"
  shows "WebSocket_onTcpState W Connected (snd (WebSocket_dial W h s (WebSocket_remoteClose w))) =
    snd (WebSocket_dial W h s (WebSocket_remoteClose w))"
  by (rule reopen_with_proxy [OF assms])
    (use remoteClose_proxy [of w] dial_proxy [of "WebSocket_remoteClose w" W h s] in \<open>simp add: keeps_proxy_def\<close>)

theorem reopening_through_proxy_hangs_witness:
  "let w = demo_object\<lparr>wsState := WsOpen, mProxyTransport := Some 1, config := default_config\<lparr>proxyServer :=
       Some \<lparr>proxy_type = Http, proxy_hostname = ''proxy'', proxy_port = 3128, proxy_username = None, proxy_password = None\<rparr>\<rparr>\<rparr>;
     v = snd (WebSocket_dial demo_world ''localhost'' ''80'' (WebSocket_remoteClose w))
   in WebSocket_onTcpState demo_world Connected v = v"
  unfolding Let_def by (rule reopening_through_proxy_hangs [of _ 1]) simp_all

section \<open>The C interface\<close>



text \<open>
  A call with a handle that names nothing fails with the code for an invalid argument and changes
  nothing.
\<close>

lemma unknown_handle:
  assumes "map_of (webSocketMap s) i = None"
  shows "wscSendMessage W i d n s = (WSC_ERR_INVALID, s) \<and> wscClose i s = (WSC_ERR_INVALID, s)
    \<and> wscDelete i s = (WSC_ERR_INVALID, s) \<and> wscDeleteWebSocket i s = (WSC_ERR_INVALID, s)
    \<and> wscReceiveMessage i b sz s = (WSC_ERR_INVALID, sz, b, s)
    \<and> wscSetMessageCallback i f s = (WSC_ERR_INVALID, s) \<and> wscSetOpenCallback i f s = (WSC_ERR_INVALID, s)
    \<and> wscGetWebSocketPath i b k s = (WSC_ERR_INVALID, b) \<and> \<not> wscIsOpen i s \<and> \<not> wscIsClosed i s"
  using assms
  by (simp add: wscSendMessage_def wscClose_def wscDelete_def wscDeleteWebSocket_def wscReceiveMessage_def wscSetMessageCallback_def
      wscSetOpenCallback_def wscGetWebSocketPath_def wscIsOpen_def wscIsClosed_def with_channel_def getChannel_def
      getWebSocket_def wrap_def)

lemma unknown_handle_witness: "wscClose 3 capi_new = (- 1, capi_new)"
  using unknown_handle [of capi_new 3] by (simp add: capi_new_def)

text \<open>
  Deleting a handle: the call succeeds, the handle and its user pointer are gone, so that no callback is
  called for it any more, and the object has been closed and destroyed.
\<close>

lemma delete_handle:
  assumes "capi_inv s" "map_of (webSocketMap s) i = Some w"
  shows "\<exists>s'. wscDeleteWebSocket i s = (WSC_ERR_SUCCESS, s') \<and> map_of (webSocketMap s') i = None
    \<and> c_callback i c s' = None \<and> length (destroyed s') = length (destroyed s) + 1 \<and> wsState (last (destroyed s')) = WsClosed"
proof -
  from delete_effect(2) [OF assms] obtain s' where s': "wscDeleteWebSocket i s = (0, s')" "sound s s'"
    "map_of (webSocketMap s') i = None" "getUserPointer i s' = None"
    "destroyed s' = destroyed s @ [WebSocket_destroy (Channel_resetCallbacks (WebSocket_remoteClose w))]" by blast
  have "\<forall>w \<in> set (destroyed s'). wsState w = WsClosed" using s'(2) by (simp add: sound_def capi_inv_def)
  with s' show ?thesis by (simp add: c_callback_def)
qed

definition demo_capi :: capi where
  "demo_capi = \<lparr>webSocketMap = [(1, demo_object)], userPointerMap = [(1, 0)], lastId = 1, destroyed = []\<rparr>"

lemma delete_handle_witness: "\<exists>s. wscDeleteWebSocket 1 demo_capi = (0, s) \<and> map_of (webSocketMap s) 1 = None"
proof -
  have "capi_inv demo_capi"
    using new_inv [OF demo_object_new] by (simp add: capi_inv_def demo_capi_def getUserPointer_def)
  from delete_handle [OF this, of 1 demo_object] show ?thesis by (auto simp: demo_capi_def)
qed

text \<open>
  Receiving into a buffer that is large enough: the call succeeds and takes the message from the queue; a
  binary message fills the buffer with its bytes and its size, a text message with its characters, a
  final zero and the negative of its size, and the rest of the buffer is left alone.
\<close>

theorem receive_copies:
  assumes "map_of (webSocketMap s) i = Some w" "mQueue (mRecvQueue w) = m # ms" "deliverable m"
    and "length (data m) + 1 < 2 ^ 31" "int (length (data m)) + 1 \<le> \<bar>n\<bar>"
  shows "\<exists>w'. wscReceiveMessage i (Some buf) (Some n) s =
      (if type m = String
       then (WSC_ERR_SUCCESS, Some (- int (length (data m)) - 1), Some (copy_to (data m @ [0]) buf), putWebSocket i w' s)
       else (WSC_ERR_SUCCESS, Some (int (length (data m))), Some (copy_to (data m) buf), putWebSocket i w' s))
    \<and> mQueue (mRecvQueue w') = ms"
proof (cases "type m = String")
  case True
  from receive_into_string [OF assms(2) True assms(4,5), where buf = buf] assms(1) show ?thesis
    by (auto simp: wscReceiveMessage_def getChannel_def True)
next
  case False
  with assms(3) have "type m = Binary" by (simp add: deliverable_def)
  with receive_into_binary [OF assms(2) this, where buf = buf and n = n] assms(1,4,5) show ?thesis
    by (auto simp: wscReceiveMessage_def getChannel_def)
qed

abbreviation queued :: "Message \<Rightarrow> WebSocket" where
  "queued m \<equiv> demo_object\<lparr>mRecvQueue := (mRecvQueue demo_object)\<lparr>mQueue := [m], mAmount := 3\<rparr>\<rparr>"

theorem receive_copies_witness:
  "\<exists>s. wscReceiveMessage 1 (Some [9, 9, 9, 9, 9]) (Some 5) (demo_capi\<lparr>webSocketMap := [(1, queued (make_message [1, 2, 3] Binary))]\<rparr>)
     = (0, Some 3, Some [1, 2, 3, 9, 9], s)"
  using receive_copies [of "demo_capi\<lparr>webSocketMap := [(1, queued (make_message [1, 2, 3] Binary))]\<rparr>" 1
      "queued (make_message [1, 2, 3] Binary)" "make_message [1, 2, 3] Binary" "[]" 5 "[9, 9, 9, 9, 9]"]
  by (auto simp: deliverable_def copy_to_def)

text \<open>
  C32. Asking for the size of a binary message without a buffer, or with one that is too small, destroys the
  message: it stays in the queue without its bytes, and in the second case the size reported is 0.
\<close>

theorem receive_loses_message:
  assumes "map_of (webSocketMap s) i = Some w" "mQueue (mRecvQueue w) = m # ms" "type m = Binary"
    and "length (data m) < 2 ^ 31" "buffer = None \<or> \<bar>n\<bar> < int (length (data m))"
  shows "\<exists>w'. wscReceiveMessage i buffer (Some n) s =
      (if buffer = None then (WSC_ERR_SUCCESS, Some (int (length (data m))), buffer, putWebSocket i w' s)
       else (WSC_ERR_TOO_SMALL, Some 0, buffer, putWebSocket i w' s))
    \<and> mQueue (mRecvQueue w') = m\<lparr>data := []\<rparr> # ms"
  using receive_into_lost [OF assms(2-5)] assms(1)
  by (cases "buffer = None") (auto simp: wscReceiveMessage_def getChannel_def)

theorem receive_loses_message_witness:
  "\<exists>w'. wscReceiveMessage 1 (Some [9]) (Some 1) (demo_capi\<lparr>webSocketMap := [(1, queued (make_message [1, 2, 3] Binary))]\<rparr>)
     = (- 4, Some 0, Some [9], putWebSocket 1 w' (demo_capi\<lparr>webSocketMap := [(1, queued (make_message [1, 2, 3] Binary))]\<rparr>))
     \<and> mQueue (mRecvQueue w') = [make_message [] Binary]"
  using receive_loses_message [of "demo_capi\<lparr>webSocketMap := [(1, queued (make_message [1, 2, 3] Binary))]\<rparr>" 1
      "queued (make_message [1, 2, 3] Binary)" "make_message [1, 2, 3] Binary" "[]" "Some [9]" 1]
  by auto

text \<open>
  The amount reported as available does not go down when a binary message is received through the C
  interface, while \<open>receive\<close> of the C++ interface lowers it by the size of the message.
\<close>

lemma available_amount_drifts:
  assumes "mQueue (mRecvQueue w) = m # ms" "type m = Binary" "length (data m) < 2 ^ 31" "int (length (data m)) \<le> \<bar>n\<bar>"
    and "mAmountFunction (mRecvQueue w) = message_size_func"
  shows "WebSocket_availableAmount (snd (receive_into (Some buf) n w)) = WebSocket_availableAmount w
    \<and> WebSocket_availableAmount (snd (WebSocket_receive w)) = WebSocket_availableAmount w - word_of_nat (length (data m))"
  using receive_amount [OF assms] receive_amount_expected [OF assms(1,5,2)] by blast

lemma available_amount_drifts_witness:
  "WebSocket_availableAmount (snd (receive_into (Some [9, 9, 9]) 3 (queued (make_message [1, 2, 3] Binary)))) = 3
   \<and> WebSocket_availableAmount (snd (WebSocket_receive (queued (make_message [1, 2, 3] Binary)))) = 0"
  using available_amount_drifts [of "queued (make_message [1, 2, 3] Binary)" "make_message [1, 2, 3] Binary" "[]" 3 "[9, 9, 9]"]
  by (simp add: demo_object_simps WebSocket_availableAmount_def Queue_amount_def)

section \<open>Initialisation, threads and queues\<close>

text \<open>
  C33. Global initialisation is always undone: when nobody holds a token, the library does not hold one itself
  and every cleanup thread that was started has run, the library is torn down, with no thread of the pool
  left and the poll service stopped.
\<close>

theorem cleanup_completes:
  assumes "init_run c s" "mGlobal s = None" "\<forall>p < nextPayload s. tokens p s = 0" "cleanups s = []"
  shows "\<not> mInitialized s \<and> poolThreads s = 0 \<and> \<not> polling s"
  by (rule init_quiescent [OF assms])

theorem cleanup_completes_witness:
  "\<exists>s. init_events 8 [GetToken, GetToken, Cleanup, DropToken 0, DropToken 0, RunCleanup 0] Init_new = Some s
     \<and> nextPayload s = 1 \<and> poolThreads s = 0"
proof -
  obtain s where s: "init_events 8 [GetToken, GetToken, Cleanup, DropToken 0, DropToken 0, RunCleanup 0] Init_new = Some s"
    "mGlobal s = None" "nextPayload s = 1" "tokens 0 s = 0" "cleanups s = []"
    by (simp add: init_eval Let_def)
  have "init_run 8 s" by (rule init_events_run [OF init_run.new s(1)])
  from cleanup_completes [OF this s(2) _ s(5)] s show ?thesis by auto
qed

text \<open>
  C34. As long as a new generation of tokens is only started when the previous one is dead and its cleanup has
  run, whoever holds a token has an initialised library, with the threads of the pool and the poll
  service running.
\<close>

theorem token_keeps_initialized:
  assumes "init_run1 c s" "tokens p s > 0"
  shows "mInitialized s \<and> poolThreads s = max c MIN_THREADPOOL_SIZE \<and> polling s"
proof -
  have "refs s p > 0" using assms(2) by (simp add: tokens_def)
  then have "mInitialized s" using init_run1_current [OF assms(1)] by (simp add: current_def)
  with init_run_inv [OF init_run1_run [OF assms(1)]] show ?thesis by (simp add: init_inv_def)
qed

theorem token_keeps_initialized_witness:
  "mInitialized (init_event 8 GetToken Init_new) \<and> poolThreads (init_event 8 GetToken Init_new) = 8"
proof -
  have "init_run1 8 (init_event 8 GetToken Init_new)"
    by (rule init_run1.event [OF init_run1.new]) (simp_all add: init_enabled_def one_at_a_time_def Let_def Init_new_def)
  moreover have "tokens 0 (init_event 8 GetToken Init_new) > 0" by (simp add: init_eval Let_def)
  ultimately show ?thesis using token_keeps_initialized [of 8 "init_event 8 GetToken Init_new" 0] by (simp add: MIN_THREADPOOL_SIZE_def)
qed

text \<open>
  Without that restriction a token does not protect its holder. After a cleanup while a token is held, a
  preload and a second cleanup tear the library down; and so does the late cleanup thread of an earlier
  generation. In both sequences of calls a token is still held at the end.
\<close>

theorem tokens_stranded:
  "(\<exists>s. init_events c [GetToken, Cleanup, Preload, Cleanup, RunCleanup 1] Init_new = Some s \<and> tokens 0 s = 1 \<and> \<not> mInitialized s)
   \<and> (\<exists>s. init_events c [GetToken, Cleanup, DropToken 0, GetToken, Cleanup, RunCleanup 0] Init_new = Some s
     \<and> tokens 1 s = 1 \<and> \<not> mInitialized s)"
  using preload_strands_token late_cleanup_strands_token by blast



text \<open>
  A worker takes a task only when its time has come and no earlier task is queued, and it waits only if no
  queued task is due.
\<close>

lemma pool_respects_times:
  assumes "ThreadPool_dequeues now tp d tp'"
  shows "(\<forall>f. d = Taken f \<longrightarrow> (\<exists>t \<le> now. (\<forall>(t', f') \<in> set (tpTasks tp). t \<le> t')
        \<and> mset (tpTasks tp) = add_mset (t, f) (mset (tpTasks tp'))))
    \<and> (d = Wait \<or> (\<exists>t. d = WaitUntil t) \<longrightarrow> (\<forall>(t, f) \<in> set (tpTasks tp). now < t))"
proof (intro conjI allI impI)
  show "\<exists>t \<le> now. (\<forall>(t', f') \<in> set (tpTasks tp). t \<le> t') \<and> mset (tpTasks tp) = add_mset (t, f) (mset (tpTasks tp'))"
    if "d = Taken f" for f using dequeues_taken [of now tp f tp'] assms that by simp
  show "\<forall>(t, f) \<in> set (tpTasks tp). now < t" if "d = Wait \<or> (\<exists>t. d = WaitUntil t)"
    by (rule dequeues_waits [OF assms that])
qed

lemma pool_respects_times_witness:
  "mset (tpTasks (snd (ThreadPool_dequeue 6 \<lparr>tpTasks = [(7, ''b''), (5, ''a'')], mWorkers = [Looking], mBusyWorkers = 1, mJoining = False\<rparr>)))
     = {#(7, ''b'')#}"
proof -
  let ?tp = "\<lparr>tpTasks = [(7, ''b''), (5, ''a'')], mWorkers = [Looking], mBusyWorkers = 1, mJoining = False\<rparr>"
  have d: "ThreadPool_dequeue 6 ?tp = (Taken ''a'', ?tp\<lparr>tpTasks := [(7, ''b'')]\<rparr>)" by (simp add: ThreadPool_dequeue_def)
  from pool_respects_times [OF dequeue_dequeues [OF d]] d show ?thesis by simp
qed

text \<open>
  C36. A processor runs its tasks one at a time in the order in which they were given: at any moment, those that
  have ended, the one that is run or about to be run, and those queued are together the sequence of tasks
  given; and it is idle only when nothing is queued.
\<close>

theorem processor_in_order:
  assumes "processor_run limit p given"
  shows "given = prDone p @ prRunning p @ prPool p @ mQueue (prTasks p) \<and> length (prRunning p) + length (prPool p) \<le> 1
    \<and> (\<not> mPending p \<longrightarrow> given = prDone p)"
  using processor_run_inv [OF assms] by (auto simp: processor_inv_def split: if_splits)

theorem processor_in_order_witness:
  "\<exists>p. processor_run 0 p [''a'', ''b''] \<and> [''a'', ''b''] = prDone p @ prRunning p @ prPool p @ mQueue (prTasks p)"
proof -
  let ?p1 = "(Processor_new 0)\<lparr>prPool := [''a''], mPending := True\<rparr>"
  have "Processor_enqueue ''a'' (Processor_new 0) = Some ?p1" by (simp add: Processor_enqueue_def Processor_new_def)
  from processor_run.step [OF processor_run.init processor_step.enqueue [OF this]]
  have r: "processor_run 0 ?p1 ([] @ [''a''])" .
  obtain p2 where "Processor_enqueue ''b'' ?p1 = Some p2"
    by (simp add: Processor_enqueue_def Processor_new_def Queue_push_def Queue_new_def Queue_full_def)
  from processor_run.step [OF r processor_step.enqueue [OF this]] have "processor_run 0 p2 [''a'', ''b'']" by simp
  with processor_in_order [OF this] show ?thesis by blast
qed

text \<open>
  C37. The queue is first in, first out: elements pushed one after the other without blocking come out after those
  that were there, in the same order; a push blocks exactly when a running queue is full; and the amount is the
  sum of the sizes of the elements, modulo \<open>2 ^ 64\<close>, after any push or pop.
\<close>

theorem queue_is_fifo:
  assumes "queue_inv q" "\<not> mStopping q"
  shows "(push_all Queue_push q xs = Some q' \<longrightarrow>
       fst (pop_n Queue_pop (length (mQueue q) + length xs) q') = map Some (mQueue q @ xs))
    \<and> (Queue_push q x = None \<longleftrightarrow> Queue_full q) \<and> (Queue_push q x = Some q1 \<longrightarrow> queue_inv q1) \<and> queue_inv (snd (Queue_pop q))"
  using wsc_queue.push_all_pop_n [of q xs q'] assms(2) Queue_push_blocks_iff [of q x] queue_inv_push [OF assms(1), of x q1]
    queue_inv_pop [OF assms(1)] by blast

theorem queue_is_fifo_witness:
  "fst (pop_n Queue_pop 3 (the (push_all Queue_push (Queue_new 5 None) [1, 2, 3 :: nat]))) = [Some 1, Some 2, Some 3]"
proof -
  let ?q = "Queue_new 5 None :: nat Queue"
  obtain q' where q': "push_all Queue_push ?q [1, 2, 3] = Some q'"
    by (simp add: Queue_push_def Queue_new_def Queue_full_def)
  have "\<not> mStopping ?q" "mQueue ?q = []" by (simp_all add: Queue_new_def)
  with queue_is_fifo [OF queue_inv_new, of 5 None "[1, 2, 3]" q'] q' show ?thesis by (simp add: eval_nat_numeral)
qed


section \<open>Addresses and encodings\<close>

text \<open>
  C39. A URL put together from a scheme, a host, an optional port, an optional path and an optional query is taken
  apart into exactly these parts.
\<close>

theorem url_roundtrip:
  assumes "scheme = ''ws'' \<or> scheme = ''wss''" "host \<noteq> []" "list_all (none_of '':/?#@'') host" "list_all isdigit port"
    and "path = [] \<or> hd path = CHR ''/''" "list_all (none_of ''?#@'') path" "list_all (none_of ''#@'') query"
  shows "parse_url (scheme @ ''://'' @ host @ (if port = [] then [] else CHR '':'' # port) @ path
      @ (if query = [] then [] else CHR ''?'' # query)) =
    Some \<lparr>url_scheme = scheme, url_user = [], url_password = [], url_host = host, url_port = port,
     url_path = path, url_query = query, url_fragment = []\<rparr>"
  using url_match_build [OF assms(1,3-7)] assms(2) by (simp add: parse_url_def Let_def)

theorem url_roundtrip_witness:
  "parse_url ''wss://example.org:8443/chat?room=1'' =
     Some \<lparr>url_scheme = ''wss'', url_user = [], url_password = [], url_host = ''example.org'', url_port = ''8443'',
       url_path = ''/chat'', url_query = ''room=1'', url_fragment = []\<rparr>"
  using url_roundtrip [of "''wss''" "''example.org''" "''8443''" "''/chat''" "''room=1''"] by (simp add: isdigit_def)

text \<open>
  The part of a URL before an at sign may contain slashes, so that text inside the path takes the place of the
  host: with \<open>ws://good/@bad\<close> the connection goes to \<open>bad\<close>.
\<close>

lemma url_host_after_at:
  assumes "list_all (none_of '':@'') info" "list_all (none_of '':/?#@'') host"
  shows "url_host (url_match (''ws://'' @ info @ CHR ''@'' # host)) = host"
  by (rule url_match_at [OF assms])

lemma url_host_after_at_witness: "url_host (url_match ''ws://good/@bad'') = ''bad''"
  using url_host_after_at [of "''good/''" "''bad''"] by simp

text \<open>
  C40. Base64 encoding is undone by the reference decoder, has the length that the standard prescribes, and
  percent-encoding is undone by \<open>url_decode\<close> for any set of characters that is encoded, the percent sign
  included.
\<close>

theorem encodings_roundtrip:
  "base64_decode (base64_encode d) = d \<and> length (base64_encode d) = 4 * ((length d + 2) div 3)
   \<and> url_decode (percent_encode (\<lambda>c. P c \<or> c = CHR ''%'') str) = str"
  using base64_decode_encode length_base64_encode url_decode_percent_encode [of "\<lambda>c. P c \<or> c = CHR ''%''" str] by simp

end
